(* ===== verification/AiePrelude.thy ===== *)
theory AiePrelude
  imports Main "HOL-Library.Word"
begin

unbundle bit_operations_syntax

text \<open>
  The prelude of the development: the machine types of the C and C++ sources, the memory
  behind a C pointer, the error type of the partial operations, and the generic facts on
  lists, memories and words that the component theories share.

  \<^item> \<open>u8\<close>, \<open>u16\<close>, \<open>u32\<close>, \<open>u64\<close> are the fixed-width unsigned types; \<open>+\<close>, \<open>-\<close> and
    \<open>*\<close> wrap, as they do in C.
  \<^item> \<open>'a mem\<close> is the memory a C pointer gives access to: a pointer carries no length, so
    it is a function from the index to the cell. A function that writes through a pointer
    returns the new memory, and a frame lemma says which cells it left alone.
\<close>

type_synonym u8 = "8 word"
type_synonym u16 = "16 word"
type_synonym u32 = "32 word"
type_synonym u64 = "64 word"

type_synonym 'a mem = "nat \<Rightarrow> 'a"

named_theorems mem_simps \<open>reading back what was stored\<close>
named_theorems field_simps32 \<open>bit fields of 32-bit words\<close>

section \<open>Memories\<close>

text \<open>\<open>store m i ws\<close> is the sequence of assignments \<open>p[i++] = w\<close> for the words \<open>ws\<close> in turn.\<close>

primrec store :: "'a mem \<Rightarrow> nat \<Rightarrow> 'a list \<Rightarrow> 'a mem" where
  "store m i [] = m"
| "store m i (w # ws) = store (m(i := w)) (Suc i) ws"

text \<open>\<open>load m i n\<close> is the list of the \<open>n\<close> cells from index \<open>i\<close> on.\<close>

definition load :: "'a mem \<Rightarrow> nat \<Rightarrow> nat \<Rightarrow> 'a list" where
  "load m i n = map m [i..<i + n]"

lemma store_below [mem_simps]: "j < i \<Longrightarrow> store m i ws j = m j"
  by (induction ws arbitrary: m i) auto

lemma store_above [mem_simps]: "i + length ws \<le> j \<Longrightarrow> store m i ws j = m j"
  by (induction ws arbitrary: m i) auto

lemma store_at [mem_simps]: "k < length ws \<Longrightarrow> store m i ws (i + k) = ws ! k"
proof (induction ws arbitrary: m i k)
  case (Cons w ws)
  show ?case
  proof (cases k)
    case 0
    then show ?thesis by (simp add: store_below)
  next
    case (Suc k')
    then show ?thesis using Cons.IH [of k' "m(i := w)" "Suc i"] Cons.prems by (simp del: fun_upd_apply)
  qed
qed simp

lemma store_append: "store m i (xs @ ys) = store (store m i xs) (i + length xs) ys"
  by (induction xs arbitrary: m i) auto

lemma store_outside: "j < i \<or> i + length ws \<le> j \<Longrightarrow> store m i ws j = m j"
  by (auto simp: mem_simps)

lemma length_load [simp]: "length (load m i n) = n"
  by (simp add: load_def)

lemma nth_load [mem_simps]: "k < n \<Longrightarrow> load m i n ! k = m (i + k)"
  by (simp add: load_def)

lemma load_0 [simp]: "load m i 0 = []"
  by (simp add: load_def)

lemma load_Suc: "load m i (Suc n) = m i # load m (Suc i) n"
  by (rule nth_equalityI) (auto simp: mem_simps nth_Cons split: nat.splits)

lemma load_Suc_snoc: "load m i (Suc n) = load m i n @ [m (i + n)]"
  by (simp add: load_def)

lemma load_add: "load m i (n + k) = load m i n @ load m (i + n) k"
  by (rule nth_equalityI) (auto simp: mem_simps nth_append)

lemma load_store [mem_simps]: "load (store m i ws) i (length ws) = ws"
  by (rule nth_equalityI) (auto simp: mem_simps)

lemma load_store_below [mem_simps]: "i + n \<le> j \<Longrightarrow> load (store m j ws) i n = load m i n"
  by (rule nth_equalityI) (auto simp: mem_simps)

lemma load_cong: "(\<And>j. i \<le> j \<Longrightarrow> j < i + n \<Longrightarrow> m j = m' j) \<Longrightarrow> load m i n = load m' i n"
  by (rule nth_equalityI) (auto simp: mem_simps)

lemma take_load: "k \<le> n \<Longrightarrow> take k (load m i n) = load m i k"
  by (rule nth_equalityI) (auto simp: mem_simps)

lemma drop_load: "drop k (load m i n) = load m (i + k) (n - k)"
  by (rule nth_equalityI) (auto simp: mem_simps add.assoc)

lemma load_upd_in: "i < n \<Longrightarrow> load (m(i := v)) 0 n = (load m 0 n)[i := v]"
  by (rule nth_equalityI) (auto simp: mem_simps nth_list_update)

lemma load_upd_out: "n \<le> i \<Longrightarrow> load (m(i := v)) 0 n = load m 0 n"
  by (rule nth_equalityI) (auto simp: mem_simps)

lemma load_patch_snoc: "l < n \<Longrightarrow> load (m(l := c, n := w)) 0 (n + 1) = (load m 0 n)[l := c] @ [w]"
  by (simp add: load_Suc_snoc load_upd_out load_upd_in del: fun_upd_apply) simp

lemma load_nth: "load m 0 n = xs \<Longrightarrow> i < n \<Longrightarrow> m i = xs ! i"
  by (auto simp: mem_simps)

text \<open>
  \<open>same_outside a b m m'\<close>: \<open>m'\<close> differs from \<open>m\<close> at most at indices from \<open>a\<close> on and below \<open>b\<close>.
  \<open>emitted m base p C enc m' r\<close>: a writer that owns \<open>C\<close> cells at \<open>base\<close> and stands at cell \<open>p\<close> was
  asked for \<open>enc\<close>. Either everything fits and exactly \<open>enc\<close> was stored, or the request does not fit and
  nothing outside the cells still free was touched.
\<close>

definition same_outside :: "nat \<Rightarrow> nat \<Rightarrow> 'a mem \<Rightarrow> 'a mem \<Rightarrow> bool" where
  "same_outside a b m m' = (\<forall>j. j < a \<or> b \<le> j \<longrightarrow> m' j = m j)"

definition emitted :: "'a mem \<Rightarrow> nat \<Rightarrow> nat \<Rightarrow> nat \<Rightarrow> 'a list \<Rightarrow> 'a mem \<Rightarrow> nat option \<Rightarrow> bool" where
  "emitted m base p C enc m' r = (case r of
      Some q \<Rightarrow> q = p + length enc \<and> q \<le> C \<and> m' = store m (base + p) enc
    | None \<Rightarrow> C < p + length enc \<and> same_outside (base + p) (base + C) m m')"

lemma same_outside_refl [simp]: "same_outside a b m m"
  by (simp add: same_outside_def)

lemma same_outside_store: "a \<le> i \<Longrightarrow> i + length ws \<le> b \<Longrightarrow> same_outside a b m (store m i ws)"
  by (auto simp: same_outside_def store_outside)

lemma same_outside_trans: "same_outside a b m m' \<Longrightarrow> same_outside a b m' m'' \<Longrightarrow> same_outside a b m m''"
  by (simp add: same_outside_def)

lemma same_outside_mono: "same_outside a b m m' \<Longrightarrow> a' \<le> a \<Longrightarrow> b \<le> b' \<Longrightarrow> same_outside a' b' m m'"
  by (auto simp: same_outside_def)

lemma emitted_done: "p \<le> C \<Longrightarrow> emitted m base p C [] m (Some p)"
  by (simp add: emitted_def)

lemma emitted_full: "C < p + length enc \<Longrightarrow> emitted m base p C enc m None"
  by (simp add: emitted_def)

lemma emitted_store:
  "q = p + length enc \<Longrightarrow> q \<le> C \<Longrightarrow> emitted m base p C enc (store m (base + p) enc) (Some q)"
  by (simp add: emitted_def)

lemma emitted_stop: "emitted m base p C e1 m' None \<Longrightarrow> emitted m base p C (e1 @ e2) m' None"
  by (simp add: emitted_def)

lemma emitted_trans:
  assumes "emitted m base p C e1 m1 (Some q)" "emitted m1 base q C e2 m2 r"
  shows "emitted m base p C (e1 @ e2) m2 r"
proof -
  have "same_outside (base + p) (base + C) m m1"
    using assms(1) by (auto simp: emitted_def intro!: same_outside_store)
  moreover have "same_outside (base + p) (base + C) m1 m2" if "r = None"
    using assms that by (auto simp: emitted_def elim: same_outside_mono)
  ultimately show ?thesis
    using assms by (cases r) (auto simp: emitted_def store_append add.assoc intro: same_outside_trans)
qed

lemma emitted_Some_iff: "emitted m base p C enc m' r \<Longrightarrow> (r \<noteq> None) = (p + length enc \<le> C)"
  by (auto simp: emitted_def split: option.splits)

lemma emitted_frame: "emitted m base p C enc m' r \<Longrightarrow> same_outside (base + p) (base + C) m m'"
  by (auto simp: emitted_def intro!: same_outside_store split: option.splits)

section \<open>Words\<close>

text \<open>
  GCC's \<open>__builtin_parity\<close>: whether the number of one bits is odd, over the low \<open>n\<close> bits
  and over a whole 32-bit word.
\<close>

primrec parity_below :: "nat \<Rightarrow> u32 \<Rightarrow> bool" where
  "parity_below 0 v = False"
| "parity_below (Suc n) v = (parity_below n v \<noteq> bit v n)"

definition builtin_parity :: "u32 \<Rightarrow> bool" where
  "builtin_parity v = parity_below 32 v"

lemma parity_below_cong: "(\<And>k. k < n \<Longrightarrow> bit v k = bit w k) \<Longrightarrow> parity_below n v = parity_below n w"
  by (induction n) auto

lemma builtin_parity_top: "builtin_parity v = (parity_below 31 v \<noteq> bit v 31)"
proof -
  have "builtin_parity v = parity_below (Suc 31) v" by (simp add: builtin_parity_def numeral_eq_Suc)
  then show ?thesis by (simp only: parity_below.simps)
qed

lemma unat_add_no_wrap: "unat a + unat b < 2 ^ LENGTH('a::len) \<Longrightarrow> unat (a + b :: 'a word) = unat a + unat b"
  by (rule unat_add_lem [THEN iffD1])

lemma unat_of_nat32 [simp]: "n < 2 ^ 32 \<Longrightarrow> unat (of_nat n :: u32) = n"
  by (simp add: unat_of_nat take_bit_nat_eq_self)

lemma word_less32: "(a < b) = (unat a < unat b)" for a b :: u32
  by (rule word_less_nat_alt)

lemma word_le32: "(a \<le> b) = (unat a \<le> unat b)" for a b :: u32
  by (rule word_le_nat_alt)

lemma unat_diff32: "b \<le> a \<Longrightarrow> unat (a - b) = unat a - unat b" for a b :: u32
  by (rule unat_sub)

lemma unat32_less [simp]: "unat (a :: u32) < 4294967296"
  by (rule order_less_le_trans [OF unsigned_less]) simp

lemma of_nat_unat32: "of_nat (unat w) = (w :: u32)"
  by simp

lemma u32_eqI: "unat a = unat b \<Longrightarrow> a = b" for a b :: u32
  by (simp add: word_unat_eq_iff)

end
