(* ===== verification/CtrlpktEncode.thy ===== *)
theory CtrlpktEncode
  imports AiePrelude
begin

text \<open>
  Control-packet headers and packetising, from \<open>src/mlir/runtime/aie_ctrlpkt_encode.c\<close>, and
  the access walk of the debug dump (\<open>src/tool/ctrlpkt/ctrlpkt_dbg.c\<close>), which reads encoded
  words back.

  An access on the wire is a stream header, a control header and one to four data words.
  \<open>out\<close> buffers are \<^typ>\<open>u32 mem\<close>; \<open>cap\<close> is the number of words the caller owns.
  A loop whose 32-bit counters can wrap is a \<^theory_text>\<open>partial_function\<close>, so that running
  forever is \<^const>\<open>None\<close>; the functions built on it are in the option type and are shown to
  return. The lemmas show that what \<open>cpe_pktize\<close> writes is the encoding of a list of accesses,
  that it stays inside the buffer, and that the walk recovers the accesses.
\<close>

section \<open>Headers\<close>

definition cpe_parity :: "u32 \<Rightarrow> u32" where
  "cpe_parity v = (if builtin_parity v then 0 else 1)"

definition cpe_stream_hdr :: "u32 \<Rightarrow> u32" where
  "cpe_stream_hdr stream_id = (let h = stream_id AND 0x1F in h OR push_bit 31 (cpe_parity h))"

definition cpe_ctrl_word :: "u32 \<Rightarrow> u32" where
  "cpe_ctrl_word ctrl = ctrl OR push_bit 31 (cpe_parity ctrl)"

section \<open>Packetising a run of words\<close>

definition RT_CPE_CHUNK_WORDS :: u32 where "RT_CPE_CHUNK_WORDS = 4"
definition RT_CPE_SKIP_ADDR :: u32 where "RT_CPE_SKIP_ADDR = 0xFFFFFFFF"

text \<open>\<open>data ? data[k] : 0U\<close>, the data pointer may be null.\<close>

definition data_at :: "u32 mem option \<Rightarrow> u32 \<Rightarrow> u32" where
  "data_at data k = (case data of None \<Rightarrow> 0 | Some d \<Rightarrow> d (unat k))"

text \<open>
  The chunk loop of \<open>cpe_pktize\<close>. \<open>out\<close> points at index \<open>base\<close> of the buffer. The result is
  the memory and, when the loop ran to its end, the index reached; \<^const>\<open>None\<close> inside is
  the early \<open>return 0U\<close>.
\<close>

partial_function (option) cpe_pktize_loop ::
  "u32 mem \<Rightarrow> nat \<Rightarrow> u32 \<Rightarrow> u32 \<Rightarrow> u32 \<Rightarrow> u32 mem option \<Rightarrow> u32 \<Rightarrow> u32 \<Rightarrow> u32
     \<Rightarrow> (u32 mem \<times> u32 option) option"
where
  "cpe_pktize_loop out base cap stream_id tile_addr data nwrite i idx =
     (if i < nwrite then
        let ps = (if nwrite - i > 4 then 4 else nwrite - i) in
        if idx + 2 + ps > cap then Some (out, None)
        else
          let ch = push_bit 20 ((ps - 1) AND 0x3) OR ((tile_addr + i * 4) AND 0xFFFFF);
              ws = map (\<lambda>j. data_at data (i + of_nat j)) [0..<unat ps]
          in cpe_pktize_loop (store out (base + unat idx) (cpe_stream_hdr stream_id # cpe_ctrl_word ch # ws))
               base cap stream_id tile_addr data nwrite (i + 4) (idx + 2 + ps)
      else Some (out, Some idx))"

definition cpe_pktize ::
  "u32 mem \<Rightarrow> nat \<Rightarrow> u32 \<Rightarrow> u32 \<Rightarrow> u32 \<Rightarrow> u32 mem option \<Rightarrow> u32 \<Rightarrow> bool \<Rightarrow> u32 \<Rightarrow> (u32 mem \<times> u32) option"
where
  "cpe_pktize out base cap stream_id tile_addr data nwords lastack ret_sid =
     (let nwrite = (if lastack \<and> nwords > 0 then nwords - 1 else nwords) in
      case cpe_pktize_loop out base cap stream_id tile_addr data nwrite 0 0 of
        None \<Rightarrow> None
      | Some (out', None) \<Rightarrow> Some (out', 0)
      | Some (out', Some idx) \<Rightarrow>
          if lastack \<and> nwords > 0 then
            if idx + 3 > cap then Some (out', 0)
            else
              let la = tile_addr + (nwords - 1) * 4;
                  ch = (la AND 0xFFFFF) OR push_bit 22 (0x2 AND 0x3) OR push_bit 24 (ret_sid AND 0x1F)
              in Some (store out' (base + unat idx)
                         [cpe_stream_hdr stream_id, cpe_ctrl_word ch, data_at data (nwords - 1)], idx + 3)
          else Some (out', idx))"

definition rt_cpe_pktize ::
  "u32 mem \<Rightarrow> u32 \<Rightarrow> u32 \<Rightarrow> u32 \<Rightarrow> u32 mem option \<Rightarrow> u32 \<Rightarrow> bool \<Rightarrow> u32 \<Rightarrow> (u32 mem \<times> u32) option"
where
  "rt_cpe_pktize out cap stream_id tile_addr data nwords lastack ret_sid =
     cpe_pktize out 0 cap stream_id tile_addr data nwords lastack ret_sid"

section \<open>Reading accesses back\<close>

text \<open>
  The loop of \<open>cpd_array\<close> over the words of a dumped array, with what it computes of each
  access instead of the text it prints: the offset, the packet id, the operation, the number
  of words, the address, the words shown and the parity verdict.
\<close>

record cpd_access =
  acc_at :: nat
  acc_id :: u32
  acc_op :: u32
  acc_beats :: u32
  acc_addr :: u32
  acc_words :: "u32 list"
  acc_bad :: bool

fun cpd_array :: "nat \<Rightarrow> u32 list \<Rightarrow> cpd_access list" where
  "cpd_array i (hdr # ctrl # rest) =
     (let addr = ctrl AND 0xFFFFF; beats = (drop_bit 20 ctrl AND 0x3) + 1; op = drop_bit 22 ctrl AND 0x3;
          len = (if op = 1 then 0 else unat beats)
      in \<lparr>acc_at = i, acc_id = hdr AND 0x1F, acc_op = op, acc_beats = beats, acc_addr = addr,
          acc_words = take len rest, acc_bad = (\<not> builtin_parity hdr \<or> \<not> builtin_parity ctrl)\<rparr> #
         cpd_array (i + 2 + min len (length rest)) (drop len rest))"
| "cpd_array i _ = []"

section \<open>Specification: accesses and their encoding\<close>

text \<open>
  An access is an address, its data words and, for a write-with-return, the packet id of the
  response.
\<close>

type_synonym access = "u32 \<times> u32 list \<times> u32 option"

definition enc_ctrl :: "u32 \<Rightarrow> nat \<Rightarrow> u32 option \<Rightarrow> u32" where
  "enc_ctrl a n ack = (case ack of
      None \<Rightarrow> push_bit 20 (of_nat (n - 1) AND 0x3) OR (a AND 0xFFFFF)
    | Some r \<Rightarrow> (a AND 0xFFFFF) OR push_bit 22 0x2 OR push_bit 24 (r AND 0x1F))"

fun enc_access :: "u32 \<Rightarrow> access \<Rightarrow> u32 list" where
  "enc_access sid (a, ws, ack) = cpe_stream_hdr sid # cpe_ctrl_word (enc_ctrl a (length ws) ack) # ws"

fun access_ok :: "access \<Rightarrow> bool" where
  "access_ok (a, ws, ack) = (1 \<le> length ws \<and> length ws \<le> 4 \<and> (ack \<noteq> None \<longrightarrow> length ws = 1))"

fun access_view :: "u32 \<Rightarrow> access \<Rightarrow> u32 \<times> u32 \<times> u32 \<times> u32 list \<times> bool" where
  "access_view sid (a, ws, ack) = (sid AND 0x1F, (if ack = None then 0 else 2), a AND 0xFFFFF, ws, False)"

definition acc_view :: "cpd_access \<Rightarrow> u32 \<times> u32 \<times> u32 \<times> u32 list \<times> bool" where
  "acc_view x = (acc_id x, acc_op x, acc_addr x, acc_words x, acc_bad x)"

definition enc_all :: "u32 \<Rightarrow> access list \<Rightarrow> u32 list" where
  "enc_all sid accs = concat (map (enc_access sid) accs)"

fun chunk4 :: "u32 \<Rightarrow> u32 list \<Rightarrow> access list" where
  "chunk4 a ws = (if ws = [] then [] else (a, take 4 ws, None) # chunk4 (a + 16) (drop 4 ws))"

definition data_words :: "u32 mem option \<Rightarrow> nat \<Rightarrow> nat \<Rightarrow> u32 list" where
  "data_words data i n = map (\<lambda>k. data_at data (of_nat k)) [i..<n]"

text \<open>What \<open>cpe_pktize\<close> is asked to send: the words in chunks of four, the last one alone when an
  acknowledgement is wanted.\<close>

definition pktize_accesses :: "u32 \<Rightarrow> u32 list \<Rightarrow> bool \<Rightarrow> u32 \<Rightarrow> access list" where
  "pktize_accesses ta ws lastack ret_sid =
     (if lastack \<and> ws \<noteq> [] then
        chunk4 ta (butlast ws) @ [(ta + of_nat (length ws - 1) * 4, [last ws], Some ret_sid)]
      else chunk4 ta ws)"

text \<open>The register writes an access performs on the tile that receives it, in order.\<close>

fun access_writes :: "access \<Rightarrow> (u32 \<times> u32) list" where
  "access_writes (a, ws, ack) = map (\<lambda>k. ((a + 4 * of_nat k) AND 0xFFFFF, ws ! k)) [0..<length ws]"

definition decoded_writes :: "cpd_access list \<Rightarrow> (u32 \<times> u32) list" where
  "decoded_writes accs =
     concat (map (\<lambda>x. map (\<lambda>k. ((acc_addr x + 4 * of_nat k) AND 0xFFFFF, acc_words x ! k))
                        [0..<length (acc_words x)]) accs)"

text \<open>Words \<open>cpe_pktize\<close> needs for \<open>n\<close> data words.\<close>

definition pktize_len :: "nat \<Rightarrow> bool \<Rightarrow> nat" where
  "pktize_len n lastack =
     (if lastack \<and> n > 0 then (n - 1) + 2 * ((n + 2) div 4) + 3 else n + 2 * ((n + 3) div 4))"

section \<open>Header fields\<close>

lemma and_take_bit32 [field_simps32]:
  "(x :: u32) AND 0x3 = take_bit 2 x" "x AND 0xF = take_bit 4 x"
  "x AND 0x1F = take_bit 5 x" "x AND 0xFFFFF = take_bit 20 x"
  by (simp_all add: take_bit_eq_mask mask_eq_exp_minus_1)

lemma cpe_parity_le: "cpe_parity v = of_bool (\<not> builtin_parity v)"
  by (simp add: cpe_parity_def)

lemma bit_ctrl_word: "bit (cpe_ctrl_word c) n = (bit c n \<or> n = 31 \<and> \<not> builtin_parity c)"
  by (auto simp: cpe_ctrl_word_def cpe_parity_le bit_simps)

lemma ctrl_word_parity: 
  assumes "\<not> bit c 31" shows "builtin_parity (cpe_ctrl_word c)"
proof -
  have "parity_below 31 (cpe_ctrl_word c) = parity_below 31 c"
    by (rule parity_below_cong) (simp add: bit_ctrl_word)
  with assms show ?thesis
    by (auto simp: builtin_parity_top bit_ctrl_word)
qed

lemma ctrl_word_low: "k \<le> 31 \<Longrightarrow> take_bit k (cpe_ctrl_word c) = take_bit k c"
  by (rule bit_word_eqI) (auto simp: bit_simps bit_ctrl_word)

lemma ctrl_word_mid: "j + k \<le> 31 \<Longrightarrow> take_bit k (drop_bit j (cpe_ctrl_word c)) = take_bit k (drop_bit j c)"
  by (rule bit_word_eqI) (auto simp: bit_simps bit_ctrl_word)
lemma enc_all_simps [simp]:
  "enc_all sid [] = []" "enc_all sid (x # xs) = enc_access sid x @ enc_all sid xs"
  "enc_all sid (xs @ ys) = enc_all sid xs @ enc_all sid ys"
  by (simp_all add: enc_all_def)

lemma stream_hdr_ctrl_word: "cpe_stream_hdr sid = cpe_ctrl_word (sid AND 0x1F)"
  by (simp add: cpe_stream_hdr_def cpe_ctrl_word_def Let_def)

lemma stream_hdr_id: "cpe_stream_hdr sid AND 0x1F = sid AND 0x1F"
  by (simp add: stream_hdr_ctrl_word field_simps32 ctrl_word_low)

lemma stream_hdr_parity: "builtin_parity (cpe_stream_hdr sid)"
  by (simp add: stream_hdr_ctrl_word field_simps32 ctrl_word_parity bit_simps)

lemma enc_ctrl_fields [field_simps32]:
  "take_bit 20 (enc_ctrl a n ack) = take_bit 20 a"
  "take_bit 2 (drop_bit 20 (enc_ctrl a n ack)) = (if ack = None then take_bit 2 (of_nat (n - 1)) else 0)"
  "take_bit 2 (drop_bit 22 (enc_ctrl a n ack)) = (if ack = None then 0 else 2)"
  "\<not> bit (enc_ctrl a n ack) 31"
  by (cases ack; auto intro!: bit_word_eqI simp: enc_ctrl_def field_simps32 bit_simps)+

lemma take_bit_2_small: "n \<le> 4 \<Longrightarrow> unat (take_bit 2 (of_nat (n - 1)) + 1 :: u32) = max 1 n"
proof -
  assume "n \<le> 4"
  then consider "n = 0" | "n = 1" | "n = 2" | "n = 3" | "n = 4" by linarith
  then show ?thesis by cases auto
qed

lemma cpd_array_enc:
  assumes "list_all access_ok accs"
  shows "map acc_view (cpd_array i (enc_all sid accs)) = map (access_view sid) accs"
  using assms
proof (induction accs arbitrary: i)
  case (Cons x accs)
  obtain a ws ack where x: "x = (a, ws, ack)" by (cases x)
  let ?c = "cpe_ctrl_word (enc_ctrl a (length ws) ack)"
  have ok: "1 \<le> length ws" "length ws \<le> 4" "ack \<noteq> None \<longrightarrow> length ws = 1"
    using Cons.prems x by auto
  have addr: "?c AND 0xFFFFF = a AND 0xFFFFF"
    by (simp add: field_simps32 ctrl_word_low)
  have op: "drop_bit 22 ?c AND 0x3 = (if ack = None then 0 else 2)"
    by (simp add: field_simps32 ctrl_word_mid)
  have beats: "unat ((drop_bit 20 ?c AND 0x3) + 1) = length ws"
    using ok take_bit_2_small [of "length ws"] by (auto simp: field_simps32 ctrl_word_mid)
  have par: "builtin_parity ?c" by (rule ctrl_word_parity) (simp add: field_simps32)
  have "(if (if ack = None then 0 else 2::u32) = 1 then 0 else length ws) = length ws" by simp
  with Cons.IH Cons.prems show ?case
    by (simp add: x Let_def addr op beats par acc_view_def stream_hdr_id stream_hdr_parity)
qed simp


section \<open>Packetising\<close>

declare chunk4.simps [simp del]

lemma chunk4_Nil [simp]: "chunk4 a [] = []"
  by (simp add: chunk4.simps)

lemma chunk4_step: "ws \<noteq> [] \<Longrightarrow> chunk4 a ws = (a, take 4 ws, None) # chunk4 (a + 16) (drop 4 ws)"
  by (subst chunk4.simps) simp

lemma length_data_words [simp]: "length (data_words data i n) = n - i"
  by (simp add: data_words_def)

lemma take_data_words: "take m (data_words data i n) = data_words data i (min n (i + m))"
  by (simp add: data_words_def take_map min_def)

lemma drop_data_words: "drop m (data_words data i n) = data_words data (i + m) n"
  by (simp add: data_words_def drop_map)


text \<open>One turn of the loop: the word counters do not wrap, and the data it takes.\<close>

lemma pktize_turn:
  fixes cap nwrite i idx :: u32
  assumes cap: "unat cap \<le> 2 ^ 32 - 7" and idx: "unat idx \<le> unat cap"
    and lt: "i < nwrite" and inv: "2 * unat idx = 3 * unat i" "4 dvd unat i"
  defines "ps \<equiv> (if nwrite - i > 4 then 4 else nwrite - i)" and "n \<equiv> min 4 (unat nwrite - unat i)"
  shows "unat ps = n" "ps - 1 = of_nat (n - 1)" "unat (i + 4) = unat i + 4"
    "unat (idx + 2 + ps) = unat idx + 2 + n" "1 \<le> n" "n \<le> 4" "unat i < unat nwrite"
proof -
  show lt': "unat i < unat nwrite" using lt by (simp add: word_less32)
  show ps: "unat ps = n"
    using unat_diff32 [of i nwrite] lt' by (auto simp: ps_def n_def word_less32 word_le32 min_def)
  show n: "1 \<le> n" "n \<le> 4" using lt' by (auto simp: n_def)
  show "ps - 1 = of_nat (n - 1)" using ps n by (metis of_nat_1 of_nat_diff of_nat_unat32)
  show "unat (i + 4) = unat i + 4"
    using inv idx cap by (subst unat_add_no_wrap) auto
  have "unat (idx + 2) = unat idx + 2"
    using idx cap by (subst unat_add_no_wrap) auto
  then show "unat (idx + 2 + ps) = unat idx + 2 + n"
    using ps n cap idx by (subst unat_add_no_wrap) auto
qed

lemma data_words_turn:
  assumes "unat i < N" and "n = min 4 (N - unat i)"
  shows "map (\<lambda>j. data_at data (i + of_nat j)) [0..<n] = take 4 (data_words data (unat i) N)"
  by (rule nth_equalityI) (use assms in \<open>auto simp: data_words_def of_nat_unat32\<close>)

lemma pktize_loop:
  fixes cap nwrite :: u32
  assumes cap: "unat cap \<le> 2 ^ 32 - 7"
    and "unat idx \<le> unat cap" and "i < nwrite \<longrightarrow> 2 * unat idx = 3 * unat i" and "4 dvd unat i"
  shows "\<exists>out' r. cpe_pktize_loop out base cap sid ta data nwrite i idx = Some (out', r) \<and>
     emitted out base (unat idx) (unat cap)
       (enc_all sid (chunk4 (ta + i * 4) (data_words data (unat i) (unat nwrite)))) out' (map_option unat r)"
  using assms(2-4)
proof (induction "unat nwrite - unat i" arbitrary: i idx out rule: less_induct)
  case less
  let ?rest = "data_words data (unat i) (unat nwrite)"
  show ?case
  proof (cases "i < nwrite")
    case False
    then have "?rest = []" by (simp add: data_words_def word_less32)
    with False less.prems(1) show ?thesis
      by (subst cpe_pktize_loop.simps) (simp add: emitted_done)
  next
    case True
    define ps where "ps = (if nwrite - i > 4 then 4 else nwrite - i)"
    define n where "n = min 4 (unat nwrite - unat i)"
    note inv = less.prems(2) [THEN mp, OF True] less.prems(3)
    note turn = pktize_turn [OF cap less.prems(1) True inv, folded ps_def n_def]
    let ?hd = "enc_access sid (ta + i * 4, take 4 ?rest, None)"
    let ?tl = "enc_all sid (chunk4 (ta + (i + 4) * 4) (data_words data (unat (i + 4)) (unat nwrite)))"
    have ne: "?rest \<noteq> []" using turn(7) by (simp add: data_words_def)
    have len: "length (take 4 ?rest) = n" by (auto simp: n_def)
    have enc: "enc_all sid (chunk4 (ta + i * 4) ?rest) = ?hd @ ?tl"
      using turn(7) by (subst chunk4_step) (auto simp: ne drop_data_words turn(3) algebra_simps)
    have lhd: "length ?hd = 2 + n" using len by simp
    have unfold: "cpe_pktize_loop out base cap sid ta data nwrite i idx =
        (if unat cap < unat idx + 2 + n then Some (out, None)
         else cpe_pktize_loop (store out (base + unat idx) ?hd) base cap sid ta data nwrite (i + 4) (idx + 2 + ps))"
      using True by (subst cpe_pktize_loop.simps)
        (simp only: if_True Let_def ps_def [symmetric] turn word_less32 [of cap] data_words_turn [OF turn(7) n_def]
          enc_access.simps enc_ctrl_def option.case len)
    show ?thesis
    proof (cases "unat cap < unat idx + 2 + n")
      case True
      then show ?thesis unfolding unfold enc by (simp add: emitted_stop emitted_full lhd del: enc_access.simps)
    next
      case False
      have "emitted out base (unat idx) (unat cap) ?hd (store out (base + unat idx) ?hd) (Some (unat (idx + 2 + ps)))"
        using False lhd by (intro emitted_store) (simp_all only: turn)
      moreover have "i + 4 < nwrite \<longrightarrow> 2 * unat (idx + 2 + ps) = 3 * unat (i + 4)"
        using inv turn(3,4) by (auto simp: n_def word_less32)
      with less.hyps [of "i + 4" "idx + 2 + ps"] False turn inv
      obtain out' r where
        "cpe_pktize_loop (store out (base + unat idx) ?hd) base cap sid ta data nwrite (i + 4) (idx + 2 + ps) = Some (out', r)"
        "emitted (store out (base + unat idx) ?hd) base (unat (idx + 2 + ps)) (unat cap) ?tl out' (map_option unat r)"
        by fastforce
      ultimately show ?thesis unfolding unfold enc using False by (auto intro: emitted_trans simp del: enc_access.simps)
    qed
  qed
qed

lemma chunk_count:
  fixes n :: nat
  assumes "1 \<le> n"
  shows "2 + min 4 n + (n - 4 + 2 * ((n - 4 + 3) div 4)) = n + 2 * ((n + 3) div 4)"
proof (cases "n \<le> 4")
  case True
  with assms consider "n = 1" | "n = 2" | "n = 3" | "n = 4" by linarith
  then show ?thesis by cases auto
next
  case False
  then obtain m where "n = m + 4" by (metis add.commute le_add_diff_inverse nat_le_linear)
  then show ?thesis by (simp; presburger)
qed

lemma length_enc_chunk4: "length (enc_all sid (chunk4 a ws)) = length ws + 2 * ((length ws + 3) div 4)"
proof (induction a ws rule: chunk4.induct)
  case (1 a ws)
  show ?case
  proof (cases "ws = []")
    case False
    with "1.IH" have "length (enc_all sid (chunk4 a ws)) =
        2 + min 4 (length ws) + ((length ws - 4) + 2 * ((length ws - 4 + 3) div 4))"
      by (simp add: chunk4_step min.commute)
    also from False have "\<dots> = length ws + 2 * ((length ws + 3) div 4)"
      by (intro chunk_count) (simp add: Suc_le_eq)
    finally show ?thesis .
  qed simp
qed

lemma length_enc_pktize:
  "length (enc_all sid (pktize_accesses a ws lastack r)) = pktize_len (length ws) lastack"
  by (auto simp: pktize_accesses_def pktize_len_def length_enc_chunk4 Suc_le_eq)

lemma chunk4_ok: "list_all access_ok (chunk4 a ws)"
proof (induction a ws rule: chunk4.induct)
  case (1 a ws)
  then show ?case by (cases "ws = []") (auto simp: chunk4_step Suc_le_eq)
qed

lemma pktize_accesses_ok: "list_all access_ok (pktize_accesses a ws lastack r)"
  by (auto simp: pktize_accesses_def chunk4_ok)

lemma chunk4_writes:
  "concat (map access_writes (chunk4 a ws)) = map (\<lambda>k. ((a + 4 * of_nat k) AND 0xFFFFF, ws ! k)) [0..<length ws]"
proof (induction a ws rule: chunk4.induct)
  case (1 a ws)
  show ?case
  proof (cases "ws = []")
    case False
    define n where "n = min (length ws) 4"
    have split: "[0..<length ws] = [0..<n] @ map (\<lambda>k. k + n) [0..<length ws - n]"
      using upt_add_eq_append [of 0 n "length ws - n"] map_add_upt [of n "length ws - n"]
      by (simp add: n_def add.commute)
    have tl: "map (\<lambda>k. ((a + 16 + 4 * of_nat k) AND 0xFFFFF, drop 4 ws ! k)) [0..<length ws - 4] =
        map (\<lambda>k. ((a + 4 * of_nat (k + n)) AND 0xFFFFF, ws ! (k + n))) [0..<length ws - n]"
    proof (cases "4 \<le> length ws")
      case True
      then have "n = 4" by (simp add: n_def)
      then show ?thesis by (simp add: algebra_simps)
    next
      case F: False
      then show ?thesis by (simp add: n_def)
    qed
    from False "1.IH" show ?thesis
      unfolding split map_append map_map
      by (simp add: chunk4_step tl n_def o_def)
  qed simp
qed

lemma pktize_writes:
  "concat (map access_writes (pktize_accesses a ws lastack r)) =
     map (\<lambda>k. ((a + 4 * of_nat k) AND 0xFFFFF, ws ! k)) [0..<length ws]"
proof (cases "lastack \<and> ws \<noteq> []")
  case True
  then have n: "[0..<length ws] = [0..<length ws - 1] @ [length ws - 1]"
    by (metis Suc_diff_1 length_greater_0_conv upt_Suc_append zero_le)
  from True show ?thesis
    unfolding n
    by (simp add: pktize_accesses_def chunk4_writes nth_butlast last_conv_nth mult.commute)
next
  case False
  then show ?thesis by (simp add: pktize_accesses_def chunk4_writes)
qed

lemma and_low_add: "((a AND 0xFFFFF) + b) AND 0xFFFFF = (a + b) AND 0xFFFFF" for a b :: u32
  unfolding field_simps32
  by (rule u32_eqI) (simp add: unsigned_take_bit_eq take_bit_eq_mod unat_word_ariths mod_simps mod_mod_cancel)

lemma decoded_writes_enc:
  assumes "list_all access_ok accs"
  shows "decoded_writes (cpd_array i (enc_all sid accs)) = concat (map access_writes accs)"
proof -
  let ?w = "\<lambda>v. case v of (i, op, a, ws, b) \<Rightarrow> map (\<lambda>k. ((a + 4 * of_nat k) AND 0xFFFFF, ws ! k)) [0..<length ws]"
  have low: "((a AND 0xFFFFF) + b) AND 0xFFFFF = (a + b) AND 0xFFFFF" for a b :: u32
    by (rule and_low_add)
  have "decoded_writes (cpd_array i (enc_all sid accs)) = concat (map ?w (map acc_view (cpd_array i (enc_all sid accs))))"
    by (simp add: decoded_writes_def acc_view_def o_def)
  also have "\<dots> = concat (map ?w (map (access_view sid) accs))"
    by (simp only: cpd_array_enc [OF assms])
  also have "\<dots> = concat (map access_writes accs)"
    by (auto simp: low intro!: arg_cong [where f = concat])
  finally show ?thesis .
qed

lemma data_words_last:
  "0 < n \<Longrightarrow> data_words data 0 n = data_words data 0 (n - 1) @ [data_at data (of_nat (n - 1))]"
  by (cases n) (simp_all add: data_words_def)

lemma pktize_accesses_snoc:
  "pktize_accesses ta (ws @ [w]) True r = chunk4 ta ws @ [(ta + of_nat (length ws) * 4, [w], Some r)]"
  by (simp add: pktize_accesses_def)

text \<open>Packetising either fits, and writes the encoding and nothing else, or returns 0 and stays
  inside the buffer.\<close>

lemma pktize_loop_start:
  fixes cap nwrite :: u32
  assumes "unat cap \<le> 2 ^ 32 - 7"
  obtains out' r where "cpe_pktize_loop out base cap sid ta data nwrite 0 0 = Some (out', r)"
    "emitted out base 0 (unat cap) (enc_all sid (chunk4 ta (data_words data 0 (unat nwrite)))) out' (map_option unat r)"
  using pktize_loop [OF assms, of 0 0 nwrite out base sid ta data] by auto

lemma cpe_pktize_spec:
  fixes cap nwords sid ta rsid :: u32 and data :: "u32 mem option" and lastack :: bool
  assumes cap: "unat cap \<le> 2 ^ 32 - 7"
  defines "enc \<equiv> enc_all sid (pktize_accesses ta (data_words data 0 (unat nwords)) lastack rsid)"
  shows "\<exists>out' r. cpe_pktize out base cap sid ta data nwords lastack rsid = Some (out', r) \<and>
     (if length enc \<le> unat cap then unat r = length enc \<and> out' = store out base enc
      else r = 0 \<and> same_outside base (base + unat cap) out out')"
proof (cases "lastack \<and> nwords > 0")
  case False
  obtain out1 r1 where L: "cpe_pktize_loop out base cap sid ta data nwords 0 0 = Some (out1, r1)"
    and "emitted out base 0 (unat cap) (enc_all sid (chunk4 ta (data_words data 0 (unat nwords)))) out1 (map_option unat r1)"
    by (rule pktize_loop_start [OF cap])
  with False have "emitted out base 0 (unat cap) enc out1 (map_option unat r1)"
    by (auto simp: enc_def pktize_accesses_def data_words_def word_less32)
  with False L show ?thesis
    by (cases r1) (auto simp: cpe_pktize_def emitted_def)
next
  case True
  define nw where "nw = nwords - 1"
  from True have n1: "unat nw = unat nwords - 1" and n0: "0 < unat nwords"
    by (auto simp: word_less32 unat_diff32 word_le32 nw_def)
  let ?enc = "enc_all sid (chunk4 ta (data_words data 0 (unat nw)))"
  let ?last = "enc_access sid (ta + nw * 4, [data_at data nw], Some rsid)"
  obtain out1 r1 where L: "cpe_pktize_loop out base cap sid ta data nw 0 0 = Some (out1, r1)"
    and R: "emitted out base 0 (unat cap) ?enc out1 (map_option unat r1)"
    by (rule pktize_loop_start [OF cap])
  have "data_words data 0 (unat nwords) = data_words data 0 (unat nw) @ [data_at data nw]"
    using data_words_last [OF n0, of data] by (simp only: n1 [symmetric] of_nat_unat32)
  with True have enc: "enc = ?enc @ ?last"
    by (simp add: enc_def pktize_accesses_snoc of_nat_unat32)
  show ?thesis
  proof (cases r1)
    case None
    with True L R show ?thesis by (simp add: cpe_pktize_def nw_def [symmetric] emitted_def enc)
  next
    case (Some x)
    with R have x: "unat x = length ?enc" "unat x \<le> unat cap" "out1 = store out base ?enc"
      by (auto simp: emitted_def)
    have c3: "unat (x + 3) = unat x + 3" using x(2) cap by (subst unat_add_no_wrap) auto
    have "store out base enc = store out1 (base + unat x) ?last"
      by (simp only: enc x store_append)
    moreover have "same_outside base (base + unat cap) out out1"
      using x by (auto intro!: same_outside_store)
    ultimately show ?thesis
      using True L Some x c3
      by (simp add: cpe_pktize_def nw_def [symmetric] Let_def enc_ctrl_def enc word_less32 [of cap])
  qed
qed

lemma cpe_pktize_emits:
  fixes cap nwords sid ta rsid :: u32 and data :: "u32 mem option" and lastack :: bool
  assumes "unat cap \<le> 2 ^ 32 - 7"
  defines "enc \<equiv> enc_all sid (pktize_accesses ta (data_words data 0 (unat nwords)) lastack rsid)"
  obtains out' r where "cpe_pktize out base cap sid ta data nwords lastack rsid = Some (out', r)"
    "if length enc \<le> unat cap then unat r = length enc \<and> out' = store out base enc
     else r = 0 \<and> same_outside base (base + unat cap) out out'"
  using cpe_pktize_spec [where cap = cap and out = out and base = base and sid = sid and ta = ta and data = data
      and nwords = nwords and lastack = lastack and rsid = rsid, OF assms(1)] unfolding enc_def by blast

lemma cpd_array_enc_fields:
  assumes "list_all access_ok accs"
  shows "map acc_op (cpd_array i (enc_all sid accs)) = map (\<lambda>(a, ws, ack). if ack = None then 0 else 2) accs"
    "list_all (\<lambda>x. \<not> acc_bad x \<and> acc_id x = sid AND 0x1F) (cpd_array i (enc_all sid accs))"
proof -
  let ?d = "cpd_array i (enc_all sid accs)"
  have "map acc_op ?d = map (\<lambda>(i, op, _). op) (map acc_view ?d)"
    by (simp add: acc_view_def o_def)
  also have "\<dots> = map (\<lambda>(a, ws, ack). if ack = None then 0 else 2) accs"
    by (auto simp: cpd_array_enc [OF assms])
  finally show "map acc_op ?d = map (\<lambda>(a, ws, ack). if ack = None then 0 else 2) accs" .
  have "list_all (\<lambda>x. \<not> acc_bad x \<and> acc_id x = sid AND 0x1F) ?d =
      list_all (\<lambda>(i, op, a, ws, bad). \<not> bad \<and> i = sid AND 0x1F) (map acc_view ?d)"
    by (simp add: list_all_iff acc_view_def)
  also have "\<dots>" by (auto simp: cpd_array_enc [OF assms] list_all_iff)
  finally show "list_all (\<lambda>x. \<not> acc_bad x \<and> acc_id x = sid AND 0x1F) ?d" .
qed

lemma chunk4_plain: "(b, ws', ack) \<in> set (chunk4 a ws) \<Longrightarrow> ack = None"
proof (induction a ws rule: chunk4.induct)
  case (1 a ws)
  then show ?case by (cases "ws = []") (auto simp: chunk4_step)
qed

lemma pktize_ops:
  fixes z :: u32
  shows "map (\<lambda>(a, ws, ack). if ack = None then z else w) (pktize_accesses a ws lastack r) =
     (let k = length (pktize_accesses a ws lastack r) in
      if lastack \<and> ws \<noteq> [] then replicate (k - 1) z @ [w] else replicate k z)"
proof -
  have "map (\<lambda>(a, ws, ack). if ack = None then z else w) (chunk4 a ws) = replicate (length (chunk4 a ws)) z" for a ws
    by (rule map_replicate_const [THEN trans [rotated]]) (auto dest: chunk4_plain)
  then show ?thesis by (simp add: pktize_accesses_def Let_def)
qed

text \<open>
  C1. When the words fit the buffer, \<open>rt_cpe_pktize\<close> returns, its result is the number of words written, nothing
  else of the buffer changes, and reading the words back with the walk of the debug dump gives: packets that all
  have good parity and the requested packet id; plain writes, the last one a write with return exactly
  when the caller asked for an acknowledgement; and, as register writes in order, word \<open>k\<close> of the data at address
  \<open>tile_addr + 4 k\<close> (20 bits).
\<close>

theorem pktize_roundtrip:
  fixes nwords cap :: u32
  assumes "unat cap \<le> 2 ^ 32 - 7" and "pktize_len (unat nwords) lastack \<le> unat cap"
  shows "\<exists>out' r. rt_cpe_pktize out cap sid ta data nwords lastack rsid = Some (out', r) \<and>
     unat r = pktize_len (unat nwords) lastack \<and> same_outside 0 (unat r) out out' \<and>
     (let accs = cpd_array 0 (load out' 0 (unat r)) in
        decoded_writes accs = map (\<lambda>k. ((ta + 4 * of_nat k) AND 0xFFFFF, data_at data (of_nat k))) [0..<unat nwords] \<and>
        list_all (\<lambda>x. \<not> acc_bad x \<and> acc_id x = sid AND 0x1F) accs \<and>
        map acc_op accs = (if lastack \<and> nwords > 0 then replicate (length accs - 1) 0 @ [2] else replicate (length accs) 0))"
    (is "\<exists>out' r. ?goal out' r")
proof -
  let ?ws = "data_words data 0 (unat nwords)"
  let ?accs = "pktize_accesses ta ?ws lastack rsid"
  let ?enc = "enc_all sid ?accs"
  have len: "length ?enc = pktize_len (unat nwords) lastack" by (simp add: length_enc_pktize)
  have ok: "list_all access_ok ?accs" by (rule pktize_accesses_ok)
  obtain out' r where P: "rt_cpe_pktize out cap sid ta data nwords lastack rsid = Some (out', r)"
    and R: "if length ?enc \<le> unat cap then unat r = length ?enc \<and> out' = store out 0 ?enc
      else r = 0 \<and> same_outside 0 (0 + unat cap) out out'"
    unfolding rt_cpe_pktize_def by (rule cpe_pktize_emits [OF assms(1)])
  then have r: "unat r = length ?enc" and out': "out' = store out 0 ?enc"
    using assms(2) len by simp_all
  have rd: "load out' 0 (unat r) = ?enc" by (simp only: out' r load_store)
  have writes: "decoded_writes (cpd_array 0 ?enc) =
      map (\<lambda>k. ((ta + 4 * of_nat k) AND 0xFFFFF, data_at data (of_nat k))) [0..<unat nwords]"
    by (simp add: decoded_writes_enc [OF ok] pktize_writes) (simp add: data_words_def)
  have ne: "(?ws \<noteq> []) = (nwords > 0)" by (simp add: data_words_def word_less32)
  have n: "length ?accs = length (cpd_array 0 ?enc)"
    using cpd_array_enc_fields(1) [OF ok, where i = 0 and sid = sid] by (metis length_map)
  have ops: "map acc_op (cpd_array 0 ?enc) =
      (if lastack \<and> nwords > 0 then replicate (length (cpd_array 0 ?enc) - 1) 0 @ [2]
       else replicate (length (cpd_array 0 ?enc)) 0)"
    unfolding cpd_array_enc_fields(1) [OF ok] pktize_ops Let_def ne n ..
  have "same_outside 0 (unat r) out out'"
    unfolding out' r by (rule same_outside_store) auto
  moreover have "unat r = pktize_len (unat nwords) lastack" using r len by simp
  ultimately have "?goal out' r"
    using P writes ops cpd_array_enc_fields(2) [OF ok, where i = 0 and sid = sid]
    unfolding Let_def rd by blast
  then show ?thesis by blast
qed

theorem pktize_roundtrip_witness:
  "\<exists>out' r. rt_cpe_pktize (\<lambda>_. 0) 32 7 0x1000 (Some of_nat) 5 True 9 = Some (out', r) \<and> unat r = 9 \<and>
     decoded_writes (cpd_array 0 (load out' 0 (unat r))) =
       [(0x1000, 0), (0x1004, 1), (0x1008, 2), (0x100C, 3), (0x1010, 4)] \<and>
     last (map acc_op (cpd_array 0 (load out' 0 (unat r)))) = 2"
  using pktize_roundtrip [of 32 5 True "\<lambda>_. 0" 7 "0x1000" "Some of_nat" 9]
  by (auto simp: pktize_len_def data_at_def Let_def upt_rec)

text \<open>
  C2. \<open>rt_cpe_pktize\<close> always returns, writes at most the \<open>cap\<close> words it was given, and reports 0 exactly when
  there is nothing to send or the packets do not fit.
\<close>

theorem pktize_bounded:
  fixes nwords cap :: u32
  assumes "unat cap \<le> 2 ^ 32 - 7"
  shows "\<exists>out' r. rt_cpe_pktize out cap sid ta data nwords lastack rsid = Some (out', r) \<and>
     unat r \<le> unat cap \<and> same_outside 0 (unat cap) out out' \<and>
     (r = 0) = (nwords = 0 \<or> unat cap < pktize_len (unat nwords) lastack)"
proof -
  let ?enc = "enc_all sid (pktize_accesses ta (data_words data 0 (unat nwords)) lastack rsid)"
  have len: "length ?enc = pktize_len (unat nwords) lastack" by (simp add: length_enc_pktize)
  have pos: "(pktize_len (unat nwords) lastack = 0) = (nwords = 0)"
    by (auto simp: pktize_len_def unat_eq_0)
  obtain out' r where P: "rt_cpe_pktize out cap sid ta data nwords lastack rsid = Some (out', r)"
    and R: "if length ?enc \<le> unat cap then unat r = length ?enc \<and> out' = store out 0 ?enc
      else r = 0 \<and> same_outside 0 (0 + unat cap) out out'"
    unfolding rt_cpe_pktize_def by (rule cpe_pktize_emits [OF assms])
  show ?thesis
  proof (cases "length ?enc \<le> unat cap")
    case True
    with R have "same_outside 0 (unat cap) out out'" by (auto intro!: same_outside_store)
    moreover from R True have "(r = 0) = (nwords = 0)" by (metis len pos unat_eq_0)
    ultimately show ?thesis using P R True len by auto
  qed (use P R len in auto)
qed

theorem pktize_bounded_witness:
  "\<exists>out'. rt_cpe_pktize (\<lambda>_. 0) 4 7 0x1000 None 5 True 9 = Some (out', 0) \<and> same_outside 0 4 (\<lambda>_. 0) out'"
  using pktize_bounded [of 4 "\<lambda>_. 0" 7 "0x1000" None 5 True 9] by (auto simp: pktize_len_def)

end
