(* ===== verification/CtrlpktElf.thy ===== *)
theory CtrlpktElf
  imports CtrlpktEncode
begin

text \<open>
  Encoding a kernel ELF as control packets: the device parameters
  (\<open>src/mlir/runtime/aie_ctrlpkt_devparams.h\<close>), the address translation, the body encoder and the
  fingerprint of \<open>src/mlir/runtime/aie_ctrlpkt_encode.c\<close>.

  The locale \<open>emitter\<close> is the contract of every function that appends accesses to the buffer: it
  returns, and it either appends exactly its accesses or fails inside the buffer. It is interpreted on \<open>cpe_put1\<close>,
  \<open>cpe_reset\<close>, \<open>cpe_seg\<close> and the segment loop; the body encoder is their composition.
\<close>

section \<open>Device parameters and address translation\<close>

record rt_cpe_dev =
  prog_mem_size :: u32
  prog_mem_host_off :: u32
  data_mem_addr :: u32
  data_mem_size :: u32
  core_ctrl_off :: u32
  core_rst_mask :: u32
  checkerboard :: u8
  dma_ch_ctrl_off :: u32
  dma_ch_stride :: u32
  dma_nch :: u32
  dma_ch_rst_mask :: u32

text \<open>\<open>rt_cpe_dev_for_gen\<close>; \<^const>\<open>None\<close> is the return value \<open>-1\<close>.\<close>

definition rt_cpe_dev_for_gen :: "int \<Rightarrow> rt_cpe_dev option" where
  "rt_cpe_dev_for_gen gen =
     (if gen = 5 then
        Some \<lparr>prog_mem_size = 16 * 1024, prog_mem_host_off = 0x20000, data_mem_addr = 0x40000,
              data_mem_size = 64 * 1024, core_ctrl_off = 0x38000, core_rst_mask = 2, checkerboard = 0,
              dma_ch_ctrl_off = 0x1DE00, dma_ch_stride = 8, dma_nch = 2, dma_ch_rst_mask = 2\<rparr>
      else None)"

text \<open>
  \<open>rt_cpe_target\<close>: \<^const>\<open>None\<close> is the return value \<open>-1\<close>, \<open>Some a\<close> is \<open>0\<close> with
  \<open>*tile_addr = a\<close>.
\<close>

definition rt_cpe_target :: "rt_cpe_dev \<Rightarrow> int \<Rightarrow> int \<Rightarrow> u32 \<Rightarrow> u32 option" where
  "rt_cpe_target d col row paddr =
     (if paddr < prog_mem_size d then Some (prog_mem_host_off d + paddr)
      else if paddr < data_mem_addr d \<or> paddr \<ge> data_mem_addr d + data_mem_size d * 4 then None
      else
        let dir = (ucast (paddr div data_mem_size d) :: u8);
            parity = (if checkerboard d \<noteq> 0 then odd row else True);
            moved = (if dir = 4 then Some (col, row - 1)
                     else if dir = 5 \<and> parity then Some (col - 1, row)
                     else if dir = 6 then Some (col, row + 1)
                     else if dir = 7 \<and> \<not> parity then Some (col + 1, row)
                     else if dir < 4 \<or> dir > 7 then None
                     else Some (col, row))
        in case moved of
             None \<Rightarrow> None
           | Some (tcol, trow) \<Rightarrow>
               if tcol \<noteq> col \<or> trow \<noteq> row then Some RT_CPE_SKIP_ADDR
               else Some (paddr AND (data_mem_size d - 1)))"

section \<open>Encoding a kernel ELF\<close>

text \<open>
  The ELF image is a byte pointer without a length. Fields are read little endian at the
  offsets of \<open>Elf32_Ehdr\<close> and \<open>Elf32_Phdr\<close> in \<open>elf.h\<close>.
\<close>

definition rd16 :: "u8 mem \<Rightarrow> nat \<Rightarrow> u32" where
  "rd16 m a = ucast (m a) OR push_bit 8 (ucast (m (a + 1)))"

definition rd32 :: "u8 mem \<Rightarrow> nat \<Rightarrow> u32" where
  "rd32 m a = ucast (m a) OR push_bit 8 (ucast (m (a + 1))) OR
     push_bit 16 (ucast (m (a + 2))) OR push_bit 24 (ucast (m (a + 3)))"

definition PT_LOAD :: u32 where "PT_LOAD = 1"

record Elf32_Phdr =
  p_type :: u32
  p_offset :: u32
  p_paddr :: u32
  p_filesz :: u32

definition elf32_phdr :: "u8 mem \<Rightarrow> nat \<Rightarrow> Elf32_Phdr" where
  "elf32_phdr elf i =
     (let a = unat (rd32 elf 28) + i * unat (rd16 elf 42) in
      \<lparr>p_type = rd32 elf a, p_offset = rd32 elf (a + 4), p_paddr = rd32 elf (a + 12),
       p_filesz = rd32 elf (a + 16)\<rparr>)"

definition elf32_phdrs :: "u8 mem \<Rightarrow> Elf32_Phdr list" where
  "elf32_phdrs elf = map (elf32_phdr elf) [0..<unat (rd16 elf 44)]"

definition cpe_count_step :: "rt_cpe_dev \<Rightarrow> int \<Rightarrow> int \<Rightarrow> u32 \<Rightarrow> Elf32_Phdr \<Rightarrow> u32" where
  "cpe_count_step d col row npkt ph =
     (if p_type ph \<noteq> PT_LOAD \<or> p_filesz ph = 0 then npkt
      else case rt_cpe_target d col row (p_paddr ph) of
             None \<Rightarrow> npkt
           | Some tile_addr \<Rightarrow>
               if tile_addr = RT_CPE_SKIP_ADDR then npkt
               else npkt + (p_filesz ph + 4 * RT_CPE_CHUNK_WORDS - 1) div (4 * RT_CPE_CHUNK_WORDS))"

definition rt_cpe_count_pkts :: "rt_cpe_dev \<Rightarrow> u8 mem \<Rightarrow> int \<Rightarrow> int \<Rightarrow> u32" where
  "rt_cpe_count_pkts d elf col row = foldl (cpe_count_step d col row) 0 (elf32_phdrs elf)"

text \<open>
  \<open>words[4]\<close> after the \<open>memset\<close> and \<open>memcpy\<close> of one chunk of \<open>chunk\<close> bytes: little-endian
  words, zero-filled past the chunk.
\<close>

definition chunk_words :: "u8 mem \<Rightarrow> nat \<Rightarrow> nat \<Rightarrow> u32 list" where
  "chunk_words src off chunk =
     map (\<lambda>j. rd32 (\<lambda>k. if k < chunk then src (off + k) else 0) (4 * j)) [0..<4]"

partial_function (option) cpe_seg_loop ::
  "u32 \<Rightarrow> u8 mem \<Rightarrow> u32 \<Rightarrow> u32 \<Rightarrow> u32 mem \<Rightarrow> u32 \<Rightarrow> u32 \<Rightarrow> u32 \<Rightarrow> u32 \<Rightarrow> u32 \<Rightarrow> u32 list
     \<Rightarrow> (u32 mem \<times> (u32 \<times> u32 \<times> u32 \<times> u32 \<times> u32 list) option) option"
where
  "cpe_seg_loop stream_id src filesz tile_addr pkt cap pw acc off nwords words =
     (if off < filesz then
        let chunk = (if filesz - off < 16 then filesz - off else 16);
            nwords' = (chunk + 3) div 4
        in if pw + 2 + nwords' > cap then Some (pkt, None)
           else
             let words' = chunk_words src (unat off) (unat chunk);
                 ctrl = push_bit 20 ((nwords' - 1) AND 0x3) OR ((tile_addr + off) AND 0xFFFFF);
                 pkt' = store pkt (unat pw)
                          (cpe_stream_hdr stream_id # (ctrl OR push_bit 31 (cpe_parity ctrl)) #
                           take (unat nwords') words')
             in cpe_seg_loop stream_id src filesz tile_addr pkt' cap (pw + (2 + nwords')) (acc + 1)
                  (off + 16) nwords' words'
      else Some (pkt, Some (pw, acc, off, nwords, words)))"

text \<open>
  \<open>cpe_seg\<close>: the outer \<^const>\<open>None\<close> does not return, the inner one is the return value
  \<open>-1\<close>, which leaves the in/out parameters alone.
\<close>

definition cpe_seg ::
  "u32 \<Rightarrow> u8 mem \<Rightarrow> u32 \<Rightarrow> u32 \<Rightarrow> u32 mem \<Rightarrow> u32 \<Rightarrow> u32 \<times> u32 \<times> u32 \<times> u32
     \<Rightarrow> (u32 mem \<times> (u32 \<times> u32 \<times> u32 \<times> u32) option) option"
where
  "cpe_seg stream_id src filesz tile_addr pkt cap st =
     (case st of (pw, nacc, last_addr, last_val) \<Rightarrow>
      case cpe_seg_loop stream_id src filesz tile_addr pkt cap pw nacc 0 0 [] of
        None \<Rightarrow> None
      | Some (pkt', None) \<Rightarrow> Some (pkt', None)
      | Some (pkt', Some (pw', acc', off, nwords, words)) \<Rightarrow>
          if nwords \<noteq> 0 then
            Some (pkt', Some (pw', acc', tile_addr + (off - 16) + (nwords - 1) * 4,
                              words ! unat (nwords - 1)))
          else Some (pkt', Some (pw', acc', last_addr, last_val)))"

definition rt_cpe_reset_accesses :: "rt_cpe_dev \<Rightarrow> u32" where
  "rt_cpe_reset_accesses d = 2 + 4 * dma_nch d"

definition cpe_put1 ::
  "u32 mem \<Rightarrow> u32 \<Rightarrow> u32 \<times> u32 \<Rightarrow> u32 \<Rightarrow> u32 \<Rightarrow> u32 \<Rightarrow> (u32 mem \<times> (u32 \<times> u32) option) option"
where
  "cpe_put1 pkt cap st stream_id addr val =
     (case st of (pw, acc) \<Rightarrow>
      case cpe_pktize pkt (unat pw) (cap - pw) stream_id addr (Some (\<lambda>_. val)) 1 False 0 of
        None \<Rightarrow> None
      | Some (pkt', g) \<Rightarrow> if g = 0 then Some (pkt', None) else Some (pkt', Some (pw + g, acc + 1)))"

primrec cpe_put_all ::
  "u32 mem \<Rightarrow> u32 \<Rightarrow> u32 \<times> u32 \<Rightarrow> u32 \<Rightarrow> (u32 \<times> u32) list \<Rightarrow> (u32 mem \<times> (u32 \<times> u32) option) option"
where
  "cpe_put_all pkt cap st stream_id [] = Some (pkt, Some st)"
| "cpe_put_all pkt cap st stream_id (av # avs) =
     (case cpe_put1 pkt cap st stream_id (fst av) (snd av) of
        None \<Rightarrow> None
      | Some (pkt', None) \<Rightarrow> Some (pkt', None)
      | Some (pkt', Some st') \<Rightarrow> cpe_put_all pkt' cap st' stream_id avs)"

text \<open>
  The writes of \<open>cpe_reset\<close> in the order of its loops: core reset, every DMA channel reset
  (\<open>v = 0\<close>), every DMA channel released (\<open>v = 1\<close>), core released.
\<close>

definition cpe_reset_writes :: "rt_cpe_dev \<Rightarrow> (u32 \<times> u32) list" where
  "cpe_reset_writes d =
     (core_ctrl_off d, core_rst_mask d) #
     concat (map (\<lambda>v. map (\<lambda>c. (dma_ch_ctrl_off d + of_nat c * dma_ch_stride d,
                                 if v then 0 else dma_ch_rst_mask d))
                        [0..<unat (2 * dma_nch d)]) [False, True]) @
     [(core_ctrl_off d, 0)]"

definition cpe_reset ::
  "rt_cpe_dev \<Rightarrow> u32 \<Rightarrow> u32 mem \<Rightarrow> u32 \<Rightarrow> u32 \<times> u32 \<Rightarrow> (u32 mem \<times> (u32 \<times> u32) option) option"
where
  "cpe_reset d stream_id pkt cap st = cpe_put_all pkt cap st stream_id (cpe_reset_writes d)"

primrec cpe_encode_phdrs ::
  "rt_cpe_dev \<Rightarrow> u8 mem \<Rightarrow> int \<Rightarrow> int \<Rightarrow> u32 \<Rightarrow> u32 \<Rightarrow> Elf32_Phdr list \<Rightarrow> u32 mem \<Rightarrow> u32 \<times> u32 \<times> u32 \<times> u32
     \<Rightarrow> (u32 mem \<times> (u32 \<times> u32 \<times> u32 \<times> u32) option) option"
where
  "cpe_encode_phdrs d elf col row stream_id cap [] pkt st = Some (pkt, Some st)"
| "cpe_encode_phdrs d elf col row stream_id cap (ph # phs) pkt st =
     (if p_type ph \<noteq> PT_LOAD \<or> p_filesz ph = 0 then cpe_encode_phdrs d elf col row stream_id cap phs pkt st
      else case rt_cpe_target d col row (p_paddr ph) of
        None \<Rightarrow> Some (pkt, None)
      | Some tile_addr \<Rightarrow>
          if tile_addr = RT_CPE_SKIP_ADDR then cpe_encode_phdrs d elf col row stream_id cap phs pkt st
          else
            (case cpe_seg stream_id (\<lambda>k. elf (unat (p_offset ph) + k)) (p_filesz ph) tile_addr pkt cap st of
               None \<Rightarrow> None
             | Some (pkt', None) \<Rightarrow> Some (pkt', None)
             | Some (pkt', Some st') \<Rightarrow> cpe_encode_phdrs d elf col row stream_id cap phs pkt' st'))"

text \<open>
  \<open>rt_cpe_encode_body\<close>: \<open>Some (pkt, Some (body_words, nacc))\<close> is the return value \<open>0\<close>,
  \<open>Some (pkt, None)\<close> is \<open>-1\<close>.
\<close>

definition rt_cpe_encode_body ::
  "rt_cpe_dev \<Rightarrow> u8 mem \<Rightarrow> int \<Rightarrow> int \<Rightarrow> u32 \<Rightarrow> bool \<Rightarrow> u32 mem \<Rightarrow> u32 \<Rightarrow> (u32 mem \<times> (u32 \<times> u32) option) option"
where
  "rt_cpe_encode_body d elf col row stream_id want_reset pkt cap =
     (case (if want_reset then cpe_reset d stream_id pkt cap (0, 0) else Some (pkt, Some (0, 0))) of
        None \<Rightarrow> None
      | Some (pkt1, None) \<Rightarrow> Some (pkt1, None)
      | Some (pkt1, Some (pw, acc)) \<Rightarrow>
          (case cpe_encode_phdrs d elf col row stream_id cap (elf32_phdrs elf) pkt1 (pw, acc, 0, 0) of
             None \<Rightarrow> None
           | Some (pkt2, None) \<Rightarrow> Some (pkt2, None)
           | Some (pkt2, Some (pw', acc', last_addr, last_val)) \<Rightarrow>
               if acc' = 0 \<or> pw' = 0 then Some (pkt2, None)
               else
                 (case cpe_pktize pkt2 (unat pw') (cap - pw') stream_id last_addr (Some (\<lambda>_. last_val)) 1 True 0 of
                    None \<Rightarrow> None
                  | Some (pkt3, g) \<Rightarrow>
                      if g = 0 then Some (pkt3, None) else Some (pkt3, Some (pw' + g, acc')))))"

section \<open>Fingerprint\<close>

definition rt_cpe_fingerprint :: "rt_cpe_dev \<Rightarrow> u32 \<Rightarrow> u32" where
  "rt_cpe_fingerprint d stream_id =
     foldl (\<lambda>h v. (h XOR v) * 16777619) 2166136261
       [prog_mem_size d, prog_mem_host_off d, data_mem_addr d, data_mem_size d, core_ctrl_off d,
        core_rst_mask d, ucast (checkerboard d), dma_ch_ctrl_off d, dma_ch_stride d, dma_nch d,
        dma_ch_rst_mask d, stream_id]"


section \<open>What the encoder is asked to send\<close>

text \<open>The words of a segment of \<open>n\<close> bytes, the last one zero-filled.\<close>

definition seg_words :: "u8 mem \<Rightarrow> nat \<Rightarrow> u32 list" where
  "seg_words src n = map (\<lambda>k. rd32 (\<lambda>j. if j < n then src j else 0) (4 * k)) [0..<(n + 3) div 4]"

text \<open>Address and value of the last word a list of accesses writes.\<close>

definition last_write :: "access list \<Rightarrow> u32 \<times> u32" where
  "last_write accs = (case last accs of (a, ws, _) \<Rightarrow> (a + 4 * of_nat (length ws - 1), last ws))"

definition phdr_accesses :: "rt_cpe_dev \<Rightarrow> u8 mem \<Rightarrow> int \<Rightarrow> int \<Rightarrow> Elf32_Phdr \<Rightarrow> access list" where
  "phdr_accesses d elf col row ph =
     (if p_type ph \<noteq> PT_LOAD \<or> p_filesz ph = 0 then []
      else case rt_cpe_target d col row (p_paddr ph) of
        None \<Rightarrow> []
      | Some ta \<Rightarrow> if ta = RT_CPE_SKIP_ADDR then []
                   else chunk4 ta (seg_words (\<lambda>k. elf (unat (p_offset ph) + k)) (unat (p_filesz ph))))"

text \<open>Every loadable segment has a target.\<close>

definition phdr_ok :: "rt_cpe_dev \<Rightarrow> int \<Rightarrow> int \<Rightarrow> Elf32_Phdr \<Rightarrow> bool" where
  "phdr_ok d col row ph =
     (p_type ph = PT_LOAD \<and> p_filesz ph \<noteq> 0 \<longrightarrow>
        rt_cpe_target d col row (p_paddr ph) \<noteq> None)"

definition body_accesses :: "rt_cpe_dev \<Rightarrow> u8 mem \<Rightarrow> int \<Rightarrow> int \<Rightarrow> bool \<Rightarrow> access list" where
  "body_accesses d elf col row want_reset =
     (if want_reset then map (\<lambda>(a, v). (a, [v], None)) (cpe_reset_writes d) else []) @
     concat (map (phdr_accesses d elf col row) (elf32_phdrs elf))"

text \<open>The final access repeats the last word with an acknowledgement.\<close>

definition body_last :: "rt_cpe_dev \<Rightarrow> u8 mem \<Rightarrow> int \<Rightarrow> int \<Rightarrow> access" where
  "body_last d elf col row =
     (let segs = concat (map (phdr_accesses d elf col row) (elf32_phdrs elf));
          lw = (if segs = [] then (0, 0) else last_write segs)
      in (fst lw, [snd lw], Some 0))"

text \<open>Reset and segments, up to the final access.\<close>

definition body_front ::
  "rt_cpe_dev \<Rightarrow> u8 mem \<Rightarrow> int \<Rightarrow> int \<Rightarrow> u32 \<Rightarrow> bool \<Rightarrow> u32 mem \<Rightarrow> u32 \<Rightarrow> (u32 mem \<times> (u32 \<times> u32 \<times> u32 \<times> u32) option) option"
where
  "body_front d elf col row sid want_reset pkt cap =
     (case (if want_reset then cpe_reset d sid pkt cap (0, 0) else Some (pkt, Some (0, 0))) of
        None \<Rightarrow> None
      | Some (pkt1, None) \<Rightarrow> Some (pkt1, None)
      | Some (pkt1, Some (pw, acc)) \<Rightarrow> cpe_encode_phdrs d elf col row sid cap (elf32_phdrs elf) pkt1 (pw, acc, 0, 0))"

text \<open>The register writes that load the segments of an ELF, word by word.\<close>

definition phdr_writes :: "rt_cpe_dev \<Rightarrow> u8 mem \<Rightarrow> int \<Rightarrow> int \<Rightarrow> Elf32_Phdr \<Rightarrow> (u32 \<times> u32) list" where
  "phdr_writes d elf col row ph =
     (if p_type ph \<noteq> PT_LOAD \<or> p_filesz ph = 0 then []
      else case rt_cpe_target d col row (p_paddr ph) of
        None \<Rightarrow> []
      | Some ta \<Rightarrow> if ta = RT_CPE_SKIP_ADDR then []
          else map (\<lambda>k. ((ta + 4 * of_nat k) AND 0xFFFFF, 
                          rd32 (\<lambda>j. if j < unat (p_filesz ph) then elf (unat (p_offset ph) + j) else 0) (4 * k)))
                 [0..<(unat (p_filesz ph) + 3) div 4])"

definition body_writes :: "rt_cpe_dev \<Rightarrow> u8 mem \<Rightarrow> int \<Rightarrow> int \<Rightarrow> bool \<Rightarrow> (u32 \<times> u32) list" where
  "body_writes d elf col row want_reset =
     (if want_reset then map (\<lambda>(a, v). (a AND 0xFFFFF, v)) (cpe_reset_writes d) else []) @
     concat (map (phdr_writes d elf col row) (elf32_phdrs elf))"

text \<open>The generation-5 device and a one-segment ELF used as a concrete input.\<close>

definition sample_elf_bytes :: "u8 list" where
  "sample_elf_bytes =
     replicate 28 0 @ [52, 0, 0, 0] @ replicate 10 0 @ [32, 0, 1, 0] @ replicate 6 0 @
     [1, 0, 0, 0] @ [84, 0, 0, 0] @ [0, 0, 0, 0] @ [0, 0, 0, 0] @ [5, 0, 0, 0] @ replicate 12 0 @
     [0x11, 0x22, 0x33, 0x44, 0x55]"

definition sample_elf :: "u8 mem" where
  "sample_elf i = (if i < length sample_elf_bytes then sample_elf_bytes ! i else 0)"

definition aie_dev5 :: rt_cpe_dev where
  "aie_dev5 = the (rt_cpe_dev_for_gen 5)"

section \<open>The contract of an emitter\<close>

locale emitter =
  fixes run :: "u32 mem \<Rightarrow> u32 \<Rightarrow> 's \<Rightarrow> (u32 mem \<times> 's option) option"
    and pos :: "'s \<Rightarrow> u32" and cnt :: "'s \<Rightarrow> u32" and sid :: u32 and accs :: "access list"
  assumes run_emits: "unat cap \<le> 2 ^ 30 \<Longrightarrow> unat (pos s) \<le> unat cap \<Longrightarrow>
    \<exists>pkt' r. run pkt cap s = Some (pkt', r) \<and>
      emitted pkt 0 (unat (pos s)) (unat cap) (enc_all sid accs) pkt' (map_option (\<lambda>s'. unat (pos s')) r) \<and>
      (\<forall>s'. r = Some s' \<longrightarrow> cnt s' = cnt s + of_nat (length accs))"

locale tracking_emitter = emitter +
  fixes lw :: "'a \<Rightarrow> u32 \<times> u32"
  assumes run_last: "unat cap \<le> 2 ^ 30 \<Longrightarrow> unat (pos s) \<le> unat cap \<Longrightarrow> run pkt cap s = Some (pkt', Some s') \<Longrightarrow>
    lw s' = (if accs = [] then lw s else last_write accs)"

definition seq_run ::
  "(u32 mem \<Rightarrow> u32 \<Rightarrow> 's \<Rightarrow> (u32 mem \<times> 's option) option) \<Rightarrow> (u32 mem \<Rightarrow> u32 \<Rightarrow> 's \<Rightarrow> (u32 mem \<times> 's option) option)
     \<Rightarrow> u32 mem \<Rightarrow> u32 \<Rightarrow> 's \<Rightarrow> (u32 mem \<times> 's option) option" where
  "seq_run f g pkt cap s = (case f pkt cap s of
      None \<Rightarrow> None
    | Some (pkt', None) \<Rightarrow> Some (pkt', None)
    | Some (pkt', Some s') \<Rightarrow> g pkt' cap s')"

lemma emitter_done: "emitter (\<lambda>pkt cap s. Some (pkt, Some s)) pos cnt sid []"
  by unfold_locales (simp add: emitted_done)

lemma emitter_seq:
  assumes "emitter f pos cnt sid a1" "emitter g pos cnt sid a2"
  shows "emitter (seq_run f g) pos cnt sid (a1 @ a2)"
proof
  fix pkt cap s
  assume cap: "unat (cap :: u32) \<le> 2 ^ 30" and s: "unat (pos s) \<le> unat cap"
  obtain p1 r1 where f: "f pkt cap s = Some (p1, r1)"
    "emitted pkt 0 (unat (pos s)) (unat cap) (enc_all sid a1) p1 (map_option (\<lambda>s'. unat (pos s')) r1)"
    "\<forall>s'. r1 = Some s' \<longrightarrow> cnt s' = cnt s + of_nat (length a1)"
    using emitter.run_emits [OF assms(1) cap s] by blast
  show "\<exists>pkt' r. seq_run f g pkt cap s = Some (pkt', r) \<and>
      emitted pkt 0 (unat (pos s)) (unat cap) (enc_all sid (a1 @ a2)) pkt' (map_option (\<lambda>s'. unat (pos s')) r) \<and>
      (\<forall>s'. r = Some s' \<longrightarrow> cnt s' = cnt s + of_nat (length (a1 @ a2)))"
  proof (cases r1)
    case None
    with f show ?thesis by (auto simp: seq_run_def intro: emitted_stop)
  next
    case (Some s1)
    with f(2) have "unat (pos s1) \<le> unat cap" by (simp add: emitted_def)
    then obtain p2 r2 where g: "g p1 cap s1 = Some (p2, r2)"
      "emitted p1 0 (unat (pos s1)) (unat cap) (enc_all sid a2) p2 (map_option (\<lambda>s'. unat (pos s')) r2)"
      "\<forall>s'. r2 = Some s' \<longrightarrow> cnt s' = cnt s1 + of_nat (length a2)"
      using emitter.run_emits [OF assms(2) cap] by blast
    have "emitted pkt 0 (unat (pos s)) (unat cap) (enc_all sid (a1 @ a2)) p2 (map_option (\<lambda>s'. unat (pos s')) r2)"
      using emitted_trans [OF _ g(2)] f(2) Some by simp
    then show ?thesis using f g Some by (auto simp: seq_run_def)
  qed
qed

section \<open>Single writes and the reset sequence\<close>

lemma unat_sub_cap: "unat pw \<le> unat cap \<Longrightarrow> unat (cap - pw) = unat cap - unat pw" for cap pw :: u32
  by (simp add: unat_diff32 word_le32)

text \<open>One word through \<open>cpe_pktize\<close> at word \<open>pw\<close> of the buffer.\<close>

lemma pktize_word:
  fixes cap pw sid a v rsid :: u32 and ack :: bool
  assumes cap: "unat cap \<le> 2 ^ 30" and pw: "unat pw \<le> unat cap"
  defines "e \<equiv> enc_access sid (a, [v], if ack then Some rsid else None)"
  obtains pkt' g where "cpe_pktize pkt (unat pw) (cap - pw) sid a (Some (\<lambda>_. v)) 1 ack rsid = Some (pkt', g)"
    "emitted pkt 0 (unat pw) (unat cap) e pkt' (if g = 0 then None else Some (unat (pw + g)))"
proof -
  have e: "e = enc_all sid (pktize_accesses a (data_words (Some (\<lambda>_. v)) 0 (unat (1 :: u32))) ack rsid)"
    by (simp add: e_def pktize_accesses_def data_words_def data_at_def chunk4_step)
  have cap': "unat (cap - pw) \<le> 2 ^ 32 - 7" using cap by (simp add: unat_sub_cap [OF pw])
  obtain pkt' g where P: "cpe_pktize pkt (unat pw) (cap - pw) sid a (Some (\<lambda>_. v)) 1 ack rsid = Some (pkt', g)"
    and R: "if length e \<le> unat (cap - pw) then unat g = length e \<and> pkt' = store pkt (unat pw) e
       else g = 0 \<and> same_outside (unat pw) (unat pw + unat (cap - pw)) pkt pkt'"
    unfolding e by (rule cpe_pktize_emits [OF cap'])
  have len: "length e = 3" by (simp add: e_def)
  have "emitted pkt 0 (unat pw) (unat cap) e pkt' (if g = 0 then None else Some (unat (pw + g)))"
  proof (cases "3 \<le> unat (cap - pw)")
    case True
    with R len have g: "unat g = 3" "pkt' = store pkt (unat pw) e" by simp_all
    moreover from True have "unat (pw + g) = unat pw + 3"
      using g cap by (subst unat_add_no_wrap) (auto simp: unat_sub_cap [OF pw])
    ultimately show ?thesis using True pw by (auto simp: emitted_def len unat_sub_cap)
  next
    case False
    with R len pw show ?thesis by (auto simp: emitted_def unat_sub_cap)
  qed
  with P show thesis by (rule that)
qed

lemma put1_emitter: "emitter (\<lambda>pkt cap st. cpe_put1 pkt cap st sid a v) fst snd sid [(a, [v], None)]"
proof
  fix pkt and cap :: u32 and s :: "u32 \<times> u32"
  assume cap: "unat cap \<le> 2 ^ 30" and s: "unat (fst s) \<le> unat cap"
  obtain pkt' g where "cpe_pktize pkt (unat (fst s)) (cap - fst s) sid a (Some (\<lambda>_. v)) 1 False 0 = Some (pkt', g)"
    "emitted pkt 0 (unat (fst s)) (unat cap) (enc_access sid (a, [v], if False then Some 0 else None)) pkt'
      (if g = 0 then None else Some (unat (fst s + g)))"
    by (rule pktize_word [OF cap s, where ack = False])
  then show "\<exists>pkt' r. cpe_put1 pkt cap s sid a v = Some (pkt', r) \<and>
      emitted pkt 0 (unat (fst s)) (unat cap) (enc_all sid [(a, [v], None)]) pkt' (map_option (\<lambda>s'. unat (fst s')) r) \<and>
      (\<forall>s'. r = Some s' \<longrightarrow> snd s' = snd s + of_nat (length [(a, [v], None)]))"
    by (cases s) (auto simp: cpe_put1_def)
qed

lemma put_all_emitter:
  "emitter (\<lambda>pkt cap st. cpe_put_all pkt cap st sid avs) fst snd sid (map (\<lambda>(a, v). (a, [v], None)) avs)"
proof (induction avs)
  case Nil
  show ?case using emitter_done by simp
next
  case (Cons av avs)
  have "(\<lambda>pkt cap st. cpe_put_all pkt cap st sid (av # avs)) =
      seq_run (\<lambda>pkt cap st. cpe_put1 pkt cap st sid (fst av) (snd av)) (\<lambda>pkt cap st. cpe_put_all pkt cap st sid avs)"
    by (intro ext) (simp add: seq_run_def)
  with emitter_seq [OF put1_emitter Cons.IH] show ?case by (simp add: case_prod_beta)
qed

interpretation reset: emitter "\<lambda>pkt cap st. cpe_reset d sid pkt cap st" fst snd sid
  "map (\<lambda>(a, v). (a, [v], None)) (cpe_reset_writes d)" for d sid
  unfolding cpe_reset_def by (rule put_all_emitter)

section \<open>Segments\<close>

lemma length_seg_words [simp]: "length (seg_words src n) = (n + 3) div 4"
  by (simp add: seg_words_def)

lemma rd32_cong:
  assumes "\<And>k. k < 4 \<Longrightarrow> m (a + k) = m' (b + k)"
  shows "rd32 m a = rd32 m' b"
  using assms [of 0] assms [of 1] assms [of 2] assms [of 3] by (simp add: rd32_def)

lemma chunk_word_count:
  fixes n off :: nat
  assumes "16 dvd off" "off < n"
  shows "(min 16 (n - off) + 3) div 4 = min 4 ((n + 3) div 4 - off div 4)"
    "1 \<le> (n + 3) div 4 - off div 4"
proof -
  obtain q where q: "off = 16 * q" using assms(1) by blast
  obtain r where n: "n = 16 * q + r" "0 < r" using assms(2) q by (metis less_imp_add_positive)
  have "(16 * q + r + 3) div 4 = 4 * q + (r + 3) div 4" by simp
  moreover have "Suc 0 \<le> (r + 3) div 4" using n(2) by linarith
  ultimately show "(min 16 (n - off) + 3) div 4 = min 4 ((n + 3) div 4 - off div 4)" "1 \<le> (n + 3) div 4 - off div 4"
    using n(2) by (auto simp: n q min_def)
qed

text \<open>One turn of the segment loop.\<close>

lemma seg_turn:
  fixes off filesz cap pw :: u32
  assumes cap: "unat cap \<le> 2 ^ 30" and pw: "unat pw \<le> unat cap"
    and bal: "3 * unat off \<le> 8 * unat pw" and lt: "off < filesz" and dv: "16 dvd unat off"
  defines "chunk \<equiv> (if filesz - off < 16 then filesz - off else 16)"
    and "n \<equiv> min 4 ((unat filesz + 3) div 4 - unat off div 4)"
  shows "unat chunk = min 16 (unat filesz - unat off)" "unat ((chunk + 3) div 4) = n"
    "(chunk + 3) div 4 - 1 = of_nat (n - 1)" "unat (off + 16) = unat off + 16"
    "unat (pw + 2 + (chunk + 3) div 4) = unat pw + 2 + n"
    "unat (pw + (2 + (chunk + 3) div 4)) = unat pw + 2 + n" "1 \<le> n" "n \<le> 4" "unat off < unat filesz"
proof -
  show lt': "unat off < unat filesz" using lt by (simp add: word_less32)
  have d: "unat (filesz - off) = unat filesz - unat off"
    using lt' by (simp add: unat_diff32 word_le32)
  show c: "unat chunk = min 16 (unat filesz - unat off)"
    by (auto simp: chunk_def word_less32 d)
  obtain q where q: "unat off = 16 * q" using dv by blast
  have "unat (chunk + 3) = unat chunk + 3" using c by (subst unat_add_no_wrap) auto
  then show n: "unat ((chunk + 3) div 4) = n"
    using chunk_word_count(1) [OF dv lt'] by (simp add: unat_div c n_def)
  show n4: "1 \<le> n" "n \<le> 4" using chunk_word_count(2) [OF dv lt'] by (auto simp: n_def)
  then show "(chunk + 3) div 4 - 1 = of_nat (n - 1)" using n by (metis of_nat_1 of_nat_diff of_nat_unat32)
  show "unat (off + 16) = unat off + 16" using bal pw cap by (subst unat_add_no_wrap) auto
  have "unat (pw + 2) = unat pw + 2" using pw cap by (subst unat_add_no_wrap) auto
  then show s: "unat (pw + 2 + (chunk + 3) div 4) = unat pw + 2 + n"
    using n n4 pw cap by (subst unat_add_no_wrap) auto
  then show "unat (pw + (2 + (chunk + 3) div 4)) = unat pw + 2 + n" by (simp add: add.assoc)
qed

lemma chunk_words_seg:
  assumes "16 dvd off" "off < n"
  defines "k \<equiv> min 4 ((n + 3) div 4 - off div 4)"
  shows "take k (chunk_words src off (min 16 (n - off))) = take 4 (drop (off div 4) (seg_words src n))"
proof (rule nth_equalityI)
  obtain q where q: "off = 16 * q" using assms(1) by blast
  show "length (take k (chunk_words src off (min 16 (n - off)))) = length (take 4 (drop (off div 4) (seg_words src n)))"
    by (simp add: chunk_words_def k_def min.commute)
  fix i
  assume "i < length (take k (chunk_words src off (min 16 (n - off))))"
  then have i: "i < k" "i < 4" by (simp_all add: chunk_words_def)
  have "off div 4 + i < (n + 3) div 4" using i by (simp add: k_def)
  moreover have "rd32 (\<lambda>j. if j < min 16 (n - off) then src (off + j) else 0) (4 * i) =
      rd32 (\<lambda>j. if j < n then src j else 0) (4 * (off div 4 + i))"
    by (rule rd32_cong) (use i(2) q in \<open>auto simp: add.assoc\<close>)
  ultimately show "take k (chunk_words src off (min 16 (n - off))) ! i = take 4 (drop (off div 4) (seg_words src n)) ! i"
    using i by (simp add: chunk_words_def seg_words_def k_def)
qed

text \<open>What the loop leaves in \<open>off\<close>, \<open>nwords\<close> and \<open>words\<close> determines the last word sent.\<close>

definition last_chunk :: "u32 \<Rightarrow> u32 list \<Rightarrow> u32 \<Rightarrow> u32 \<Rightarrow> u32 list \<Rightarrow> bool" where
  "last_chunk ta W off nwords words =
     (nwords \<noteq> 0 \<and> ta + (off - 16) + (nwords - 1) * 4 = ta + 4 * of_nat (length W - 1) \<and>
      words ! unat (nwords - 1) = last W)"

lemma last_chunk_turn:
  fixes off nw :: u32
  assumes n: "unat nw = n" "1 \<le> n" "length W = unat off div 4 + n" "16 dvd unat off"
    and ws: "take n ws = drop (unat off div 4) W"
  shows "last_chunk ta W (off + 16) nw ws"
proof -
  obtain q where q: "unat off = 16 * q" using n(4) by blast
  have "unat (nw - 1) = n - 1" using n(1,2) by (simp add: unat_diff32 word_le32)
  then have nw1: "nw - 1 = of_nat (n - 1)" by (metis of_nat_unat32)
  have "off = of_nat (16 * q)" by (metis q of_nat_unat32)
  moreover have "length W - 1 = 4 * q + (n - 1)" using n(2,3) q by simp
  ultimately have addr: "off + (nw - 1) * 4 = 4 * of_nat (length W - 1)"
    unfolding nw1 by (simp only: of_nat_add of_nat_mult of_nat_numeral) (simp add: algebra_simps)
  have "ws ! (n - 1) = take n ws ! (n - 1)" using n(2) by simp
  also have "\<dots> = last W" using n(2,3) last_conv_nth [of W] by (cases "W = []") (auto simp: ws)
  finally show ?thesis using addr n(1,2) \<open>unat (nw - 1) = n - 1\<close>
    by (auto simp: last_chunk_def add.assoc)
qed

text \<open>The turn as an equation: fail, or append one access and go on.\<close>

lemma seg_loop_step:
  fixes off filesz cap pw :: u32 and src :: "u8 mem"
  assumes "unat cap \<le> 2 ^ 30" "unat pw \<le> unat cap" "3 * unat off \<le> 8 * unat pw" "off < filesz"
    and dv: "16 dvd unat off"
  defines "W \<equiv> seg_words src (unat filesz)"
  obtains n nw ws where
    "1 \<le> n" "unat nw = n" "unat (off + 16) = unat off + 16" "unat (pw + (2 + nw)) = unat pw + 2 + n"
    "length (take 4 (drop (unat off div 4) W)) = n" "take n ws = take 4 (drop (unat off div 4) W)"
    "chunk4 (ta + off) (drop (unat off div 4) W) =
       (ta + off, take 4 (drop (unat off div 4) W), None) # chunk4 (ta + (off + 16)) (drop (unat (off + 16) div 4) W)"
    "cpe_seg_loop sid src filesz ta pkt cap pw acc off nwords words =
       (if unat cap < unat pw + 2 + n then Some (pkt, None)
        else cpe_seg_loop sid src filesz ta
               (store pkt (unat pw) (enc_access sid (ta + off, take 4 (drop (unat off div 4) W), None)))
               cap (pw + (2 + nw)) (acc + 1) (off + 16) nw ws)"
proof -
  define chunk where "chunk = (if filesz - off < 16 then filesz - off else 16)"
  define n where "n = min 4 ((unat filesz + 3) div 4 - unat off div 4)"
  define nw where "nw = (chunk + 3) div 4"
  define ws where "ws = chunk_words src (unat off) (min 16 (unat filesz - unat off))"
  note turn = seg_turn [OF assms(1-5), folded chunk_def n_def, folded nw_def]
  let ?rest = "drop (unat off div 4) W"
  have tk: "take n ws = take 4 ?rest"
    using chunk_words_seg [OF dv turn(9), of src] by (simp add: ws_def W_def n_def)
  have len: "length (take 4 ?rest) = n" by (simp add: W_def n_def min.commute)
  then have "?rest \<noteq> []" using turn(7) by auto
  then have "chunk4 (ta + off) ?rest = (ta + off, take 4 ?rest, None) # chunk4 (ta + (off + 16)) (drop (unat (off + 16) div 4) W)"
    using dv by (subst chunk4_step) (auto simp: turn(4) add.assoc add.commute [of 4] elim!: dvdE)
  moreover have "cpe_seg_loop sid src filesz ta pkt cap pw acc off nwords words =
      (if unat cap < unat pw + 2 + n then Some (pkt, None)
       else cpe_seg_loop sid src filesz ta (store pkt (unat pw) (enc_access sid (ta + off, take 4 ?rest, None)))
              cap (pw + (2 + nw)) (acc + 1) (off + 16) nw ws)"
    using assms(4) by (subst cpe_seg_loop.simps)
      (simp only: if_True Let_def chunk_def [symmetric] nw_def [symmetric] ws_def [symmetric] turn word_less32 [of cap]
        tk enc_access.simps enc_ctrl_def option.case len cpe_ctrl_word_def)
  ultimately show thesis using that turn(2,4,6,7) len tk by blast
qed

lemma seg_loop:
  fixes cap filesz :: u32 and src :: "u8 mem"
  defines "W \<equiv> seg_words src (unat filesz)"
  assumes cap: "unat cap \<le> 2 ^ 30"
    and "unat pw \<le> unat cap" and "16 dvd unat off" and "off < filesz \<longrightarrow> 3 * unat off \<le> 8 * unat pw"
  shows "\<exists>pkt' r. cpe_seg_loop sid src filesz ta pkt cap pw acc off nwords words = Some (pkt', r) \<and>
     (let accs = chunk4 (ta + off) (drop (unat off div 4) W) in
      emitted pkt 0 (unat pw) (unat cap) (enc_all sid accs) pkt' (map_option (\<lambda>s. unat (fst s)) r) \<and>
      (\<forall>pw' acc' off' nw' ws'. r = Some (pw', acc', off', nw', ws') \<longrightarrow>
         acc' = acc + of_nat (length accs) \<and>
         (if off < filesz then last_chunk ta W off' nw' ws' else (off', nw', ws') = (off, nwords, words))))"
  using assms(3-5)
proof (induction "unat filesz - unat off" arbitrary: pw acc off nwords words pkt rule: less_induct)
  case less
  let ?rest = "drop (unat off div 4) W"
  show ?case
  proof (cases "off < filesz")
    case False
    then have "unat filesz \<le> unat off" by (simp add: word_less32)
    then have "(unat filesz + 3) div 4 \<le> (unat off + 3) div 4" by (simp add: div_le_mono)
    also have "\<dots> = unat off div 4" using less.prems(2) by (auto elim!: dvdE)
    finally have "?rest = []" by (simp add: W_def)
    with False less.prems show ?thesis
      by (subst cpe_seg_loop.simps) (simp add: emitted_done)
  next
    case True
    let ?tl = "chunk4 (ta + (off + 16)) (drop (unat (off + 16) div 4) W)"
    let ?hd = "enc_access sid (ta + off, take 4 ?rest, None)"
    obtain n nw ws where turn: "1 \<le> n" "unat nw = n" "unat (off + 16) = unat off + 16" "unat (pw + (2 + nw)) = unat pw + 2 + n"
      and len: "length (take 4 ?rest) = n" and tk: "take n ws = take 4 ?rest"
      and accs: "chunk4 (ta + off) ?rest = (ta + off, take 4 ?rest, None) # ?tl"
      and unfold: "cpe_seg_loop sid src filesz ta pkt cap pw acc off nwords words =
        (if unat cap < unat pw + 2 + n then Some (pkt, None)
         else cpe_seg_loop sid src filesz ta (store pkt (unat pw) ?hd) cap (pw + (2 + nw)) (acc + 1) (off + 16) nw ws)"
      unfolding W_def by (rule seg_loop_step [OF cap less.prems(1) less.prems(3) [THEN mp, OF True] True less.prems(2)])
    show ?thesis
    proof (cases "unat cap < unat pw + 2 + n")
      case True
      then have "emitted pkt 0 (unat pw) (unat cap) ?hd pkt None" using len by (simp add: emitted_full)
      with True show ?thesis unfolding unfold accs Let_def
        by (simp add: emitted_stop del: enc_access.simps)
    next
      case False
      let ?pkt = "store pkt (unat pw) ?hd"
      have hd: "emitted pkt 0 (unat pw) (unat cap) ?hd ?pkt (Some (unat (pw + (2 + nw))))"
        using False len emitted_store [of _ "unat pw" ?hd _ pkt 0] by (simp only: turn(4)) simp
      have dv: "16 dvd unat (off + 16)" using less.prems(2) by (simp add: turn(3))
      have m: "unat filesz - unat (off + 16) < unat filesz - unat off" and fit: "unat (pw + (2 + nw)) \<le> unat cap"
        using False True turn(3,4) by (simp_all add: word_less32)
      have bal: "off + 16 < filesz \<longrightarrow> 3 * unat (off + 16) \<le> 8 * unat (pw + (2 + nw))"
        using less.prems(2,3) True len by (auto simp: word_less32 turn(3,4) W_def elim!: dvdE)
      obtain pkt' r where L: "cpe_seg_loop sid src filesz ta ?pkt cap (pw + (2 + nw)) (acc + 1) (off + 16) nw ws = Some (pkt', r)"
        and e: "emitted ?pkt 0 (unat (pw + (2 + nw))) (unat cap) (enc_all sid ?tl) pkt' (map_option (\<lambda>s. unat (fst s)) r)"
        and R: "\<And>pw' acc' off' nw' ws'. r = Some (pw', acc', off', nw', ws') \<Longrightarrow> acc' = acc + 1 + of_nat (length ?tl) \<and>
           (if off + 16 < filesz then last_chunk ta W off' nw' ws' else (off', nw', ws') = (off + 16, nw, ws))"
        using less.hyps [where pkt = ?pkt and acc = "acc + 1" and nwords = nw and words = ws, OF m fit dv bal]
        unfolding Let_def by blast
      have lst: "last_chunk ta W (off + 16) nw ws" if "\<not> off + 16 < filesz"
      proof (rule last_chunk_turn [OF turn(2,1) _ less.prems(2)])
        from that have "unat filesz \<le> unat off + 16" by (simp add: word_less32 turn(3))
        then have "(unat filesz + 3) div 4 \<le> unat off div 4 + 4" using less.prems(2) by (auto elim!: dvdE)
        with len turn(1) show "length W = unat off div 4 + n" by (auto simp: W_def)
        with tk len show "take n ws = drop (unat off div 4) W" by simp
      qed
      have "acc' = acc + of_nat (length (chunk4 (ta + off) ?rest)) \<and> last_chunk ta W off' nw' ws'"
        if "r = Some (pw', acc', off', nw', ws')" for pw' acc' off' nw' ws'
        using R [OF that] lst by (auto simp: accs add.assoc split: if_splits)
      with emitted_trans [OF hd e] True L False show ?thesis
        unfolding unfold Let_def by (simp add: accs del: enc_access.simps)
    qed
  qed
qed

lemma chunk4_eq_Nil [simp]: "(chunk4 a ws = []) = (ws = [])"
  by (cases "ws = []") (simp_all add: chunk4_step)

lemma last_write_chunk4: "ws \<noteq> [] \<Longrightarrow> last_write (chunk4 a ws) = (a + 4 * of_nat (length ws - 1), last ws)"
proof (induction a ws rule: chunk4.induct)
  case (1 a ws)
  show ?case
  proof (cases "length ws \<le> 4")
    case True
    with "1.prems" show ?thesis by (simp add: chunk4_step last_write_def)
  next
    case False
    then have ne: "drop 4 ws \<noteq> []" by simp
    have "last_write (chunk4 a ws) = last_write (chunk4 (a + 16) (drop 4 ws))"
      using ne "1.prems" by (simp add: chunk4_step last_write_def)
    also have "\<dots> = (a + 16 + 4 * of_nat (length ws - 4 - 1), last ws)"
      using "1.IH" [OF "1.prems" ne] ne by simp
    also have "a + 16 + 4 * of_nat (length ws - 4 - 1) = a + 4 * (of_nat (4 + (length ws - 5)) :: u32)"
      by (simp add: algebra_simps)
    also have "4 + (length ws - 5) = length ws - 1" using False by simp
    finally show ?thesis .
  qed
qed

lemma append_last_write: "ys \<noteq> [] \<Longrightarrow> last_write (xs @ ys) = last_write ys"
  by (simp add: last_write_def)

text \<open>\<open>cpe_seg\<close> appends the words of its segment and remembers the last one.\<close>

lemma seg_run:
  fixes cap filesz ta :: u32 and src :: "u8 mem"
  assumes cap: "unat cap \<le> 2 ^ 30" and pw: "unat pw \<le> unat cap"
  defines "accs \<equiv> chunk4 ta (seg_words src (unat filesz))"
  obtains pkt' r where "cpe_seg sid src filesz ta pkt cap (pw, acc, lw) = Some (pkt', r)"
    "emitted pkt 0 (unat pw) (unat cap) (enc_all sid accs) pkt' (map_option (\<lambda>s. unat (fst s)) r)"
    "\<forall>s'. r = Some s' \<longrightarrow>
       fst (snd s') = acc + of_nat (length accs) \<and> snd (snd s') = (if accs = [] then lw else last_write accs)"
proof -
  let ?W = "seg_words src (unat filesz)"
  obtain pkt' q where L: "cpe_seg_loop sid src filesz ta pkt cap pw acc 0 0 [] = Some (pkt', q)"
    and e: "emitted pkt 0 (unat pw) (unat cap) (enc_all sid accs) pkt' (map_option (\<lambda>s. unat (fst s)) q)"
    and R: "\<And>pw' acc' off' nw' ws'. q = Some (pw', acc', off', nw', ws') \<Longrightarrow> acc' = acc + of_nat (length accs) \<and>
           (if 0 < filesz then last_chunk ta ?W off' nw' ws' else (off', nw', ws') = (0, 0, []))"
    using seg_loop [OF cap pw, where off = 0 and filesz = filesz and src = src and sid = sid and ta = ta and pkt = pkt
        and acc = acc and nwords = 0 and words = "[]"]
    by (auto simp: accs_def Let_def)
  have W: "(?W = []) = (filesz = 0)"
    by (cases "unat filesz") (auto simp: length_0_conv [symmetric] unat_eq_0 simp del: length_0_conv)
  define r where "r = map_option (\<lambda>(pw', acc', off', nw', ws').
    (pw', acc', if nw' \<noteq> 0 then (ta + (off' - 16) + (nw' - 1) * 4, ws' ! unat (nw' - 1)) else lw)) q"
  have "cpe_seg sid src filesz ta pkt cap (pw, acc, lw) = Some (pkt', r)"
    by (cases lw) (auto simp: cpe_seg_def L r_def split: option.splits)
  moreover have "map_option (\<lambda>s. unat (fst s)) r = map_option (\<lambda>s. unat (fst s)) q"
    by (auto simp: r_def map_option_case split: option.splits)
  moreover have "\<forall>s'. r = Some s' \<longrightarrow>
       fst (snd s') = acc + of_nat (length accs) \<and> snd (snd s') = (if accs = [] then lw else last_write accs)"
    using R W by (cases "filesz = 0") (auto simp: r_def accs_def last_write_chunk4 last_chunk_def word_gt_0)
  ultimately show thesis using that e by metis
qed

interpretation seg: tracking_emitter "\<lambda>pkt cap st. cpe_seg sid src filesz ta pkt cap st" fst "\<lambda>s. fst (snd s)" sid
  "chunk4 ta (seg_words src (unat filesz))" "\<lambda>s. snd (snd s)" for sid src filesz ta
proof
  let ?accs = "chunk4 ta (seg_words src (unat filesz))"
  fix cap :: u32 and s :: "u32 \<times> u32 \<times> u32 \<times> u32" and pkt
  obtain pw acc lw where s: "s = (pw, acc, lw)" by (cases s)
  assume "unat cap \<le> 2 ^ 30" "unat (fst s) \<le> unat cap"
  then have cap: "unat cap \<le> 2 ^ 30" and pw: "unat pw \<le> unat cap" by (simp_all add: s)
  obtain pkt' r where R: "cpe_seg sid src filesz ta pkt cap (pw, acc, lw) = Some (pkt', r)"
    "emitted pkt 0 (unat pw) (unat cap) (enc_all sid ?accs) pkt' (map_option (\<lambda>s. unat (fst s)) r)"
    "\<forall>s'. r = Some s' \<longrightarrow>
       fst (snd s') = acc + of_nat (length ?accs) \<and> snd (snd s') = (if ?accs = [] then lw else last_write ?accs)"
    by (rule seg_run [OF cap pw])
  then show "\<exists>pkt' r. cpe_seg sid src filesz ta pkt cap s = Some (pkt', r) \<and>
      emitted pkt 0 (unat (fst s)) (unat cap) (enc_all sid ?accs) pkt' (map_option (\<lambda>s'. unat (fst s')) r) \<and>
      (\<forall>s'. r = Some s' \<longrightarrow> fst (snd s') = fst (snd s) + of_nat (length ?accs))"
    by (auto simp: s)
  fix pkt' s'
  assume "cpe_seg sid src filesz ta pkt cap s = Some (pkt', Some s')"
  with R show "snd (snd s') = (if ?accs = [] then snd (snd s) else last_write ?accs)"
    by (cases s') (auto simp: s split: if_splits)
qed

section \<open>The body of a kernel\<close>

lemma tracking_done: "tracking_emitter (\<lambda>pkt cap s. Some (pkt, Some s)) pos cnt sid [] lw"
  unfolding tracking_emitter_def tracking_emitter_axioms_def by (simp add: emitter_done)

lemma tracking_seq:
  assumes "tracking_emitter f pos cnt sid a1 lw" "tracking_emitter g pos cnt sid a2 lw"
  shows "tracking_emitter (seq_run f g) pos cnt sid (a1 @ a2) lw"
proof -
  have em: "emitter f pos cnt sid a1" "emitter g pos cnt sid a2"
    using assms by (auto simp: tracking_emitter_def)
  have "lw s' = (if a1 @ a2 = [] then lw s else last_write (a1 @ a2))"
    if cap: "unat cap \<le> 2 ^ 30" and s: "unat (pos s) \<le> unat cap" and run: "seq_run f g pkt cap s = Some (pkt', Some s')"
    for cap s pkt pkt' s'
  proof -
    obtain p1 s1 where f: "f pkt cap s = Some (p1, Some s1)" and g: "g p1 cap s1 = Some (pkt', Some s')"
      using run by (auto simp: seq_run_def split: option.splits)
    have "unat (pos s1) \<le> unat cap"
      using emitter.run_emits [OF em(1) cap s, of pkt] f by (auto simp: emitted_def)
    with tracking_emitter.run_last [OF assms(1) cap s f] tracking_emitter.run_last [OF assms(2) cap _ g]
    show ?thesis by (auto simp: append_last_write)
  qed
  then show ?thesis
    using emitter_seq [OF em] by (auto simp: tracking_emitter_def tracking_emitter_axioms_def)
qed

lemma phdrs_emitter:
  assumes "list_all (phdr_ok d col row) phs"
  shows "tracking_emitter (\<lambda>pkt cap st. cpe_encode_phdrs d elf col row sid cap phs pkt st) fst (\<lambda>s. fst (snd s)) sid
     (concat (map (phdr_accesses d elf col row) phs)) (\<lambda>s. snd (snd s))"
  using assms
proof (induction phs)
  case Nil
  show ?case using tracking_done by simp
next
  case (Cons ph phs)
  then have IH: "tracking_emitter (\<lambda>pkt cap st. cpe_encode_phdrs d elf col row sid cap phs pkt st) fst (\<lambda>s. fst (snd s)) sid
     (concat (map (phdr_accesses d elf col row) phs)) (\<lambda>s. snd (snd s))" by simp
  show ?case
  proof (cases "p_type ph \<noteq> PT_LOAD \<or> p_filesz ph = 0 \<or> rt_cpe_target d col row (p_paddr ph) = Some RT_CPE_SKIP_ADDR")
    case True
    then have "phdr_accesses d elf col row ph = []"
      "\<And>pkt cap st. cpe_encode_phdrs d elf col row sid cap (ph # phs) pkt st = cpe_encode_phdrs d elf col row sid cap phs pkt st"
      by (auto simp: phdr_accesses_def)
    with IH show ?thesis by simp
  next
    case False
    then obtain ta where ta: "rt_cpe_target d col row (p_paddr ph) = Some ta" "ta \<noteq> RT_CPE_SKIP_ADDR"
       "p_type ph = PT_LOAD" "p_filesz ph \<noteq> 0"
      using Cons.prems by (auto simp: phdr_ok_def)
    have run: "(\<lambda>pkt cap st. cpe_encode_phdrs d elf col row sid cap (ph # phs) pkt st) =
      seq_run (\<lambda>pkt cap st. cpe_seg sid (\<lambda>k. elf (unat (p_offset ph) + k)) (p_filesz ph) ta pkt cap st)
        (\<lambda>pkt cap st. cpe_encode_phdrs d elf col row sid cap phs pkt st)"
      by (intro ext) (simp add: seq_run_def ta)
    have accs: "concat (map (phdr_accesses d elf col row) (ph # phs)) =
        chunk4 ta (seg_words (\<lambda>k. elf (unat (p_offset ph) + k)) (unat (p_filesz ph))) @
        concat (map (phdr_accesses d elf col row) phs)"
      using ta by (simp add: phdr_accesses_def)
    show ?thesis unfolding run accs by (rule tracking_seq [OF seg.tracking_emitter_axioms IH])
  qed
qed

lemma encode_body_front:
  "rt_cpe_encode_body d elf col row sid want_reset pkt cap =
     (case body_front d elf col row sid want_reset pkt cap of
        None \<Rightarrow> None
      | Some (pkt2, None) \<Rightarrow> Some (pkt2, None)
      | Some (pkt2, Some (pw', acc', last_addr, last_val)) \<Rightarrow>
          if acc' = 0 \<or> pw' = 0 then Some (pkt2, None)
          else (case cpe_pktize pkt2 (unat pw') (cap - pw') sid last_addr (Some (\<lambda>_. last_val)) 1 True 0 of
                  None \<Rightarrow> None
                | Some (pkt3, g) \<Rightarrow> if g = 0 then Some (pkt3, None) else Some (pkt3, Some (pw' + g, acc'))))"
  unfolding rt_cpe_encode_body_def body_front_def by (auto split: option.splits)

lemma body_front_emits:
  fixes cap :: u32
  assumes cap: "unat cap \<le> 2 ^ 30" and ok: "list_all (phdr_ok d col row) (elf32_phdrs elf)"
  obtains pkt' r where "body_front d elf col row sid want_reset pkt cap = Some (pkt', r)"
    "emitted pkt 0 0 (unat cap) (enc_all sid (body_accesses d elf col row want_reset)) pkt' (map_option (\<lambda>s. unat (fst s)) r)"
    "\<forall>s'. r = Some s' \<longrightarrow> fst (snd s') = of_nat (length (body_accesses d elf col row want_reset)) \<and>
        body_last d elf col row = (fst (snd (snd s')), [snd (snd (snd s'))], Some 0)"
proof -
  let ?segs = "concat (map (phdr_accesses d elf col row) (elf32_phdrs elf))"
  let ?f = "\<lambda>pkt cap s. if want_reset then cpe_reset d sid pkt cap s else Some (pkt, Some s)"
  let ?a1 = "if want_reset then map (\<lambda>(a, v). (a, [v], None)) (cpe_reset_writes d) else [] :: access list"
  have em: "emitter ?f fst snd sid ?a1"
    by (cases want_reset) (simp_all add: reset.emitter_axioms emitter_done)
  obtain p1 r1 where f: "?f pkt cap (0, 0) = Some (p1, r1)"
    and e1: "emitted pkt 0 0 (unat cap) (enc_all sid ?a1) p1 (map_option (\<lambda>s. unat (fst s)) r1)"
    and n1: "\<forall>s'. r1 = Some s' \<longrightarrow> snd s' = of_nat (length ?a1)"
    using emitter.run_emits [OF em cap, of "(0, 0)" pkt] by auto
  show thesis
  proof (cases r1)
    case None
    with f have "body_front d elf col row sid want_reset pkt cap = Some (p1, None)"
      by (simp add: body_front_def)
    moreover from e1 None have "emitted pkt 0 0 (unat cap) (enc_all sid (body_accesses d elf col row want_reset)) p1 None"
      by (simp add: body_accesses_def emitted_stop)
    ultimately show thesis using that by simp
  next
    case (Some s1)
    obtain pw acc where s1: "s1 = (pw, acc)" by (cases s1)
    note tr = phdrs_emitter [OF ok, of elf sid]
    have fit: "unat (fst (pw, acc, 0 :: u32, 0 :: u32)) \<le> unat cap" using e1 Some s1 by (simp add: emitted_def)
    obtain p2 r2 where g: "cpe_encode_phdrs d elf col row sid cap (elf32_phdrs elf) p1 (pw, acc, 0, 0) = Some (p2, r2)"
      and e2: "emitted p1 0 (unat pw) (unat cap) (enc_all sid ?segs) p2 (map_option (\<lambda>s. unat (fst s)) r2)"
      and n2: "\<forall>s'. r2 = Some s' \<longrightarrow> fst (snd s') = acc + of_nat (length ?segs)"
      using emitter.run_emits [OF tracking_emitter.axioms(1) [OF tr] cap fit, of p1] by auto
    have "body_front d elf col row sid want_reset pkt cap = Some (p2, r2)"
      using f g Some s1 by (simp add: body_front_def)
    moreover have "emitted pkt 0 0 (unat cap) (enc_all sid (body_accesses d elf col row want_reset)) p2 (map_option (\<lambda>s. unat (fst s)) r2)"
      using emitted_trans [OF _ e2] e1 Some s1 by (simp add: body_accesses_def)
    moreover have "body_last d elf col row = (fst (snd (snd s')), [snd (snd (snd s'))], Some 0)" if "r2 = Some s'" for s'
      using tracking_emitter.run_last [OF tr cap fit] g that by (simp add: body_last_def Let_def)
    ultimately show thesis using that n1 n2 Some s1 by (simp add: body_accesses_def)
  qed
qed

lemma length_enc_access: "access_ok x \<Longrightarrow> 3 \<le> length (enc_access sid x) \<and> length (enc_access sid x) \<le> 6"
  by (cases x) auto

lemma length_enc_all: "list_all access_ok accs \<Longrightarrow> 3 * length accs \<le> length (enc_all sid accs) \<and> length (enc_all sid accs) \<le> 6 * length accs"
proof (induction accs)
  case (Cons x accs)
  then show ?case using length_enc_access [of x sid] by (simp del: access_ok.simps enc_access.simps)
qed simp

lemma body_accesses_ok: "list_all access_ok (body_accesses d elf col row want_reset)"
  by (auto simp: body_accesses_def list_all_iff phdr_accesses_def simp del: access_ok.simps
      dest: chunk4_ok [unfolded list_all_iff, THEN bspec] split: if_splits option.splits) auto

lemma encode_body_emits:
  fixes cap sid :: u32
  assumes cap: "unat cap \<le> 2 ^ 30" and ok: "list_all (phdr_ok d col row) (elf32_phdrs elf)"
    and ne: "body_accesses d elf col row want_reset \<noteq> []"
  defines "enc \<equiv> enc_all sid (body_accesses d elf col row want_reset @ [body_last d elf col row])"
  obtains pkt' r where "rt_cpe_encode_body d elf col row sid want_reset pkt cap = Some (pkt', r)"
    "if length enc \<le> unat cap
     then r = Some (of_nat (length enc), of_nat (length (body_accesses d elf col row want_reset))) \<and> pkt' = store pkt 0 enc
     else r = None \<and> same_outside 0 (unat cap) pkt pkt'"
proof -
  let ?accs = "body_accesses d elf col row want_reset"
  obtain p1 r1 where f: "body_front d elf col row sid want_reset pkt cap = Some (p1, r1)"
    and e1: "emitted pkt 0 0 (unat cap) (enc_all sid ?accs) p1 (map_option (\<lambda>s. unat (fst s)) r1)"
    and R: "\<forall>s'. r1 = Some s' \<longrightarrow> fst (snd s') = of_nat (length ?accs) \<and>
        body_last d elf col row = (fst (snd (snd s')), [snd (snd (snd s'))], Some 0)"
    by (rule body_front_emits [OF cap ok])
  show thesis
  proof (cases r1)
    case None
    with e1 f show thesis
      by (intro that [of p1 None]) (auto simp: encode_body_front enc_def emitted_def)
  next
    case (Some s1)
    obtain pw acc la lv where s1: "s1 = (pw, acc, la, lv)" by (cases s1)
    have acc: "acc = of_nat (length ?accs)" and bl: "body_last d elf col row = (la, [lv], Some 0)"
      using R Some s1 by auto
    have pw: "unat pw = length (enc_all sid ?accs)" "unat pw \<le> unat cap"
      using e1 Some s1 by (auto simp: emitted_def)
    have n: "0 < length ?accs" "3 * length ?accs \<le> unat pw"
      using ne length_enc_all [OF body_accesses_ok, where sid = sid] by (auto simp: pw(1))
    then have "unat acc = length ?accs" using pw(2) cap by (simp add: acc)
    then have nz: "acc \<noteq> 0" "pw \<noteq> 0" using n by (auto simp: unat_eq_0)
    obtain p2 g where g: "cpe_pktize p1 (unat pw) (cap - pw) sid la (Some (\<lambda>_. lv)) 1 True 0 = Some (p2, g)"
      and e2: "emitted p1 0 (unat pw) (unat cap) (enc_access sid (la, [lv], if True then Some 0 else None)) p2
         (if g = 0 then None else Some (unat (pw + g)))"
      by (rule pktize_word [OF cap pw(2), where ack = True])
    have "emitted pkt 0 0 (unat cap) enc p2 (if g = 0 then None else Some (unat (pw + g)))"
      using emitted_trans [OF _ e2] e1 Some s1 by (simp add: enc_def bl)
    moreover have "rt_cpe_encode_body d elf col row sid want_reset pkt cap =
        Some (p2, if g = 0 then None else Some (pw + g, acc))"
      using f Some s1 nz g by (simp add: encode_body_front)
    ultimately show thesis
      by (intro that [of p2 "if g = 0 then None else Some (pw + g, acc)"])
        (auto simp: emitted_def acc of_nat_unat32 dest: arg_cong [where f = "of_nat :: nat \<Rightarrow> u32"] split: if_splits)
  qed
qed

lemma phdr_accesses_writes: "concat (map access_writes (phdr_accesses d elf col row ph)) = phdr_writes d elf col row ph"
  by (simp add: phdr_accesses_def phdr_writes_def chunk4_writes split: option.split) (simp add: seg_words_def)

lemma segs_writes:
  "concat (map access_writes (concat (map (phdr_accesses d elf col row) phs))) = concat (map (phdr_writes d elf col row) phs)"
  by (induction phs) (auto simp: phdr_accesses_writes)

lemma body_accesses_writes:
  "concat (map access_writes (body_accesses d elf col row want_reset)) = body_writes d elf col row want_reset"
proof -
  have "concat (map access_writes (map (\<lambda>(a, v). (a, [v], None)) avs)) = map (\<lambda>(a, v). (a AND 0xFFFFF, v)) avs" for avs
    by (induction avs) auto
  then show ?thesis
    by (cases want_reset) (simp_all only: body_accesses_def body_writes_def map_append concat_append segs_writes if_True if_False
        list.map concat.simps)
qed

lemma last_write_writes:
  assumes "accs \<noteq> []" "list_all access_ok accs"
  shows "last (concat (map access_writes accs)) = (fst (last_write accs) AND 0xFFFFF, snd (last_write accs))"
proof -
  obtain a ws ack where l: "last accs = (a, ws, ack)" by (cases "last accs")
  have "access_ok (last accs)" using assms by (simp add: list_all_iff)
  then have ws: "ws \<noteq> []" by (auto simp: l)
  obtain xs where "accs = xs @ [(a, ws, ack)]" using assms(1) l by (metis append_butlast_last_id)
  then have "last (concat (map access_writes accs)) = last (access_writes (a, ws, ack))"
    using ws by (simp add: last_append)
  with ws show ?thesis by (simp add: last_write_def l last_conv_nth)
qed

lemma body_accesses_ne:
  "concat (map (phdr_accesses d elf col row) (elf32_phdrs elf)) \<noteq> [] \<Longrightarrow> body_accesses d elf col row want_reset \<noteq> []"
  by (simp only: body_accesses_def append_is_Nil_conv simp_thms not_False_eq_True)

lemma segs_ok: "list_all access_ok (concat (map (phdr_accesses d elf col row) phs))"
  by (auto simp: list_all_iff phdr_accesses_def simp del: access_ok.simps
      dest: chunk4_ok [unfolded list_all_iff, THEN bspec] split: if_splits option.splits)

lemma body_last_write:
  assumes "concat (map (phdr_accesses d elf col row) (elf32_phdrs elf)) \<noteq> []"
  shows "concat (map access_writes [body_last d elf col row]) = [last (body_writes d elf col row want_reset)]"
proof -
  let ?segs = "concat (map (phdr_accesses d elf col row) (elf32_phdrs elf))"
  have "last (body_writes d elf col row want_reset) = last (concat (map access_writes ?segs))"
  proof -
    have "concat (map access_writes ?segs) \<noteq> []"
      using assms segs_ok [of d elf col row "elf32_phdrs elf"]
      by (cases ?segs) (auto simp: list_all_iff)
    then show ?thesis unfolding body_writes_def segs_writes by (rule last_appendR)
  qed
  also have "\<dots> = (fst (last_write ?segs) AND 0xFFFFF, snd (last_write ?segs))"
    by (rule last_write_writes [OF assms segs_ok])
  finally show ?thesis using assms by (simp add: body_last_def Let_def del: concat_eq_Nil_conv)
qed

lemma body_accesses_plain:
  "map (\<lambda>(a, ws, ack). if ack = None then z else w) (body_accesses d elf col row want_reset) =
     replicate (length (body_accesses d elf col row want_reset)) z"
proof -
  have "ack = None" if "(a, ws, ack) \<in> set (body_accesses d elf col row want_reset)" for a ws ack
    using that by (auto simp: body_accesses_def phdr_accesses_def dest: chunk4_plain split: if_splits option.splits)
  then show ?thesis by (intro map_replicate_const [THEN trans [rotated]]) auto
qed

text \<open>
  C3. The body encoded for a kernel ELF, read back, is the load image: when every loadable segment has a target, at
  least one segment is sent to this tile and the buffer is large enough, \<open>rt_cpe_encode_body\<close> returns 0, reports
  the number of words it wrote and the number of accesses before the final one, and the decoded register writes are the
  reset sequence (when wanted), then every word of every segment at its tile address in file order, then the very
  last write once more, as the only access that asks for an acknowledgement. Parity and packet id are right throughout.
\<close>

theorem encode_body_image:
  fixes cap :: u32
  assumes "unat cap \<le> 2 ^ 30" and "list_all (phdr_ok d col row) (elf32_phdrs elf)"
    and "concat (map (phdr_accesses d elf col row) (elf32_phdrs elf)) \<noteq> []"
    and "6 * length (body_accesses d elf col row want_reset) + 3 \<le> unat cap"
  shows "\<exists>pkt' w n. rt_cpe_encode_body d elf col row sid want_reset pkt cap = Some (pkt', Some (w, n)) \<and>
     unat w \<le> unat cap \<and> same_outside 0 (unat w) pkt pkt' \<and>
     (let accs = cpd_array 0 (load pkt' 0 (unat w)); ws = body_writes d elf col row want_reset in
        decoded_writes accs = ws @ [last ws] \<and>
        map acc_op accs = replicate (unat n) 0 @ [2] \<and>
        list_all (\<lambda>x. \<not> acc_bad x \<and> acc_id x = sid AND 0x1F) accs)"
    (is "\<exists>pkt' w n. ?goal pkt' w n")
proof -
  let ?accs = "body_accesses d elf col row want_reset" and ?l = "body_last d elf col row"
  let ?enc = "enc_all sid (?accs @ [?l])"
  obtain pkt' r where P: "rt_cpe_encode_body d elf col row sid want_reset pkt cap = Some (pkt', r)"
    and R: "if length ?enc \<le> unat cap
     then r = Some (of_nat (length ?enc), of_nat (length ?accs)) \<and> pkt' = store pkt 0 ?enc
     else r = None \<and> same_outside 0 (unat cap) pkt pkt'"
    by (rule encode_body_emits [OF assms(1,2) body_accesses_ne [OF assms(3)]])
  have len: "length ?enc \<le> unat cap"
    using length_enc_all [OF body_accesses_ok [of d elf col row want_reset], where sid = sid] assms(4)
    by (simp add: body_last_def Let_def)
  have w: "unat (of_nat (length ?enc) :: u32) = length ?enc"
    using le_less_trans [OF len unat32_less] by (intro unat_of_nat32) simp
  have n: "unat (of_nat (length ?accs) :: u32) = length ?accs"
    using assms(1,4) by (intro unat_of_nat32) simp
  have ok: "list_all access_ok (?accs @ [?l])"
    using body_accesses_ok by (simp add: body_last_def Let_def del: access_ok.simps) simp
  have pkt': "pkt' = store pkt 0 ?enc" and r: "r = Some (of_nat (length ?enc), of_nat (length ?accs))" using R len by auto
  have rd: "load pkt' 0 (length ?enc) = ?enc" by (simp only: pkt' load_store)
  have "decoded_writes (cpd_array 0 ?enc) = body_writes d elf col row want_reset @ [last (body_writes d elf col row want_reset)]"
    unfolding decoded_writes_enc [OF ok] map_append concat_append body_accesses_writes body_last_write [OF assms(3), of want_reset] ..
  moreover have "map acc_op (cpd_array 0 ?enc) = replicate (length ?accs) 0 @ [2]"
    unfolding cpd_array_enc_fields(1) [OF ok] map_append body_accesses_plain by (simp add: body_last_def Let_def)
  moreover have "same_outside 0 (length ?enc) pkt pkt'"
    unfolding pkt' by (rule same_outside_store) simp_all
  ultimately have "?goal pkt' (of_nat (length ?enc)) (of_nat (length ?accs))"
    using P [unfolded r] len cpd_array_enc_fields(2) [OF ok, where i = 0 and sid = sid]
    unfolding Let_def w n rd by blast
  then show ?thesis by blast
qed

lemma sample_phdrs: "elf32_phdrs sample_elf = [\<lparr>p_type = 1, p_offset = 84, p_paddr = 0, p_filesz = 5\<rparr>]"
  by code_simp

lemma sample_accesses:
  "phdr_accesses aie_dev5 sample_elf 0 2 \<lparr>p_type = 1, p_offset = 84, p_paddr = 0, p_filesz = 5\<rparr> =
     [(0x20000, [0x44332211, 0x55], None)]"
  by code_simp

lemma sample_writes: "body_writes aie_dev5 sample_elf 0 2 False = [(0x20000, 0x44332211), (0x20004, 0x55)]"
  by code_simp

theorem encode_body_image_witness:
  "\<exists>pkt' w n. rt_cpe_encode_body aie_dev5 sample_elf 0 2 3 False (\<lambda>_. 0) 100 = Some (pkt', Some (w, n)) \<and>
     decoded_writes (cpd_array 0 (load pkt' 0 (unat w))) = [(0x20000, 0x44332211), (0x20004, 0x55), (0x20004, 0x55)]"
proof -
  have "body_accesses aie_dev5 sample_elf 0 2 False = [(0x20000, [0x44332211, 0x55], None)]"
    by (simp add: body_accesses_def sample_phdrs sample_accesses)
  moreover have "phdr_ok aie_dev5 0 2 \<lparr>p_type = 1, p_offset = 84, p_paddr = 0, p_filesz = 5\<rparr>"
    by (simp add: phdr_ok_def aie_dev5_def rt_cpe_dev_for_gen_def rt_cpe_target_def)
  ultimately show ?thesis
    using encode_body_image [of 100 aie_dev5 0 2 sample_elf False 3 "\<lambda>_. 0"]
    by (auto simp: sample_phdrs sample_accesses sample_writes Let_def)
qed

lemma chunk4_count: "length (chunk4 a ws) = (length ws + 3) div 4"
proof (induction a ws rule: chunk4.induct)
  case (1 a ws)
  show ?case
  proof (cases "length ws \<le> 4")
    case True
    then have "length (chunk4 a ws) = (if ws = [] then 0 else 1)" by (simp add: chunk4_step)
    also have "\<dots> = (length ws + 3) div 4" using True by (cases ws) auto
    finally show ?thesis .
  next
    case False
    then obtain m where "length ws = m + 4" by (metis add.commute le_add_diff_inverse nat_le_linear)
    moreover from this have "ws \<noteq> []" by auto
    moreover have "(7 + m) div 4 = Suc ((m + 3) div 4)" by simp
    ultimately show ?thesis using "1.IH" by (simp add: chunk4_step)
  qed
qed

text \<open>\<open>rt_cpe_count_pkts\<close> counts the accesses \<open>rt_cpe_encode_body\<close> makes for the segments, as long as
  the number fits a machine word.\<close>

lemma count_step_accesses:
  assumes "length (phdr_accesses d elf col row ph) < 2 ^ 28"
  shows "cpe_count_step d col row npkt ph = npkt + of_nat (length (phdr_accesses d elf col row ph))"
proof (cases "p_type ph \<noteq> PT_LOAD \<or> p_filesz ph = 0 \<or> rt_cpe_target d col row (p_paddr ph) = None \<or>
    rt_cpe_target d col row (p_paddr ph) = Some RT_CPE_SKIP_ADDR")
  case True
  then show ?thesis by (auto simp: cpe_count_step_def phdr_accesses_def)
next
  case False
  then obtain ta where ta: "rt_cpe_target d col row (p_paddr ph) = Some ta" "ta \<noteq> RT_CPE_SKIP_ADDR" by auto
  have "((k + 3) div 4 + 3) div 4 = (k + 15) div 16" for k :: nat
  proof -
    have "(k + 3) div 4 + 3 = (k + 15) div 4" by simp
    then show ?thesis by (simp add: div_mult2_eq [symmetric])
  qed
  then have n: "length (phdr_accesses d elf col row ph) = (unat (p_filesz ph) + 15) div 16"
    using False ta by (simp add: phdr_accesses_def chunk4_count)
  with assms have fs: "unat (p_filesz ph) + 15 < 2 ^ 32" by simp
  have "unat (p_filesz ph + 15) = unat (p_filesz ph) + 15" using fs by (subst unat_add_no_wrap) auto
  then have "unat ((p_filesz ph + 15) div 16) = (unat (p_filesz ph) + 15) div 16" by (simp add: unat_div)
  then have "(p_filesz ph + 15) div 16 = of_nat ((unat (p_filesz ph) + 15) div 16)" by (metis of_nat_unat32)
  then show ?thesis using False ta n by (simp add: cpe_count_step_def RT_CPE_CHUNK_WORDS_def add.commute)
qed

lemma count_pkts_accesses:
  assumes "length (concat (map (phdr_accesses d elf col row) (elf32_phdrs elf))) < 2 ^ 28"
  shows "rt_cpe_count_pkts d elf col row = of_nat (length (concat (map (phdr_accesses d elf col row) (elf32_phdrs elf))))"
proof -
  have "length (concat (map (phdr_accesses d elf col row) phs)) < 2 ^ 28 \<Longrightarrow>
      foldl (cpe_count_step d col row) npkt phs = npkt + of_nat (length (concat (map (phdr_accesses d elf col row) phs)))" for npkt phs
  proof (induction phs arbitrary: npkt)
    case (Cons ph phs)
    then show ?case by (simp add: count_step_accesses add.assoc)
  qed simp
  then show ?thesis using assms by (simp add: rt_cpe_count_pkts_def)
qed

lemma target_dir:
  fixes p :: u32
  assumes "0x40000 \<le> p" "p < 0x80000"
  shows "ucast (p div 0x10000) = (of_nat (unat p div 0x10000) :: u8)" "unat p div 0x10000 \<in> {4, 5, 6, 7}"
proof -
  have "unat (p div 0x10000) = unat p div 0x10000" by (simp add: unat_div)
  then have "p div 0x10000 = of_nat (unat p div 0x10000)" by (metis of_nat_unat32)
  moreover have b: "0x40000 \<le> unat p" "unat p < 0x80000" using assms by (simp_all add: word_le32 word_less32)
  ultimately show "ucast (p div 0x10000) = (of_nat (unat p div 0x10000) :: u8)"
    by (simp add: unsigned_of_nat take_bit_nat_eq_self)
  have "4 \<le> unat p div 0x10000" "unat p div 0x10000 < 8" using b by (simp_all add: less_mult_imp_div_less)
  then show "unat p div 0x10000 \<in> {4, 5, 6, 7}" by auto
qed

text \<open>
  C9. Address translation on generation-5 devices: an address in the 16 KiB program window goes to the host view of
  program memory, the window of the tile's own data memory (the fourth) goes to offset 0 on, the three windows
  of neighbour memories are skipped, and everything else is rejected.
\<close>

theorem target_gen5:
  "rt_cpe_target aie_dev5 col row paddr =
     (if paddr < 0x4000 then Some (0x20000 + paddr)
      else if paddr < 0x40000 \<or> 0x80000 \<le> paddr then None
      else if paddr < 0x70000 then Some RT_CPE_SKIP_ADDR
      else Some (paddr - 0x70000))"
proof (cases "paddr < 0x40000 \<or> 0x80000 \<le> paddr")
  case True
  then show ?thesis by (auto simp: rt_cpe_target_def aie_dev5_def rt_cpe_dev_for_gen_def)
next
  case False
  then have b: "0x40000 \<le> paddr" "paddr < 0x80000" by auto
  have nlo: "\<not> paddr < 0x4000" using b by (auto simp: word_less32 word_le32)
  have hi: "(paddr < 0x70000) = (unat paddr div 0x10000 < 7)"
    by (simp add: word_less32 div_less_iff_less_mult)
  have own: "paddr AND 0xFFFF = paddr - 0x70000" if "unat paddr div 0x10000 = 7"
  proof (rule u32_eqI)
    have "unat (paddr - 0x70000) = unat paddr - 0x70000"
      using that by (subst unat_diff32) (auto simp: word_le32)
    moreover have "unat paddr mod 0x10000 = unat paddr - 0x70000"
      using that by (simp add: minus_div_mult_eq_mod [symmetric])
    moreover have "paddr AND 0xFFFF = take_bit 16 paddr" by (simp add: take_bit_eq_mask mask_eq_exp_minus_1)
    ultimately show "unat (paddr AND 0xFFFF) = unat (paddr - 0x70000)"
      by (simp add: unsigned_take_bit_eq take_bit_eq_mod unat_mod)
  qed
  note dir = target_dir [OF b]
  show ?thesis
    using dir(2) b nlo hi own
    by (auto simp: rt_cpe_target_def aie_dev5_def rt_cpe_dev_for_gen_def dir(1) Let_def)
qed

end
