(* ===== verification/CtrlpktTool.thy ===== *)
theory CtrlpktTool
  imports CtrlpktElf "HOL-Library.Sublist"
begin

text \<open>
  The offline encoder \<open>src/tool/ctrlpkt/aiehlc_ctrlpkt.c\<close>: the manifest lookup, the list of segments, the walk
  over an encoded body that writes the generated header, and the sequence of \<open>main\<close> for one kernel. Opening, reading
  and formatting files is not modelled: the manifest text and the ELF are arguments and the result is the blob
  header, the body words and the segment list that \<open>write_header\<close> and \<open>write_bin\<close> are given. The C strings end
  at their terminator, so a string is the list of its characters; \<^const>\<open>None\<close> is a run that does not return.
\<close>

section \<open>Manifest lookup\<close>

fun strstr :: "string \<Rightarrow> string \<Rightarrow> string option" where
  "strstr hay needle =
     (if prefix needle hay then Some hay
      else case hay of [] \<Rightarrow> None | c # cs \<Rightarrow> strstr cs needle)"

definition isspace :: "char \<Rightarrow> bool" where
  "isspace c = (c \<in> {CHR '' '', CHR 0x09, CHR 0x0A, CHR 0x0B, CHR 0x0C, CHR 0x0D})"

definition digit :: "char \<Rightarrow> int option" where
  "digit c = (let v = int (of_char c) in if 48 \<le> v \<and> v \<le> 57 then Some (v - 48) else None)"

fun digits :: "int \<Rightarrow> string \<Rightarrow> int" where
  "digits n [] = n"
| "digits n (c # cs) = (case digit c of None \<Rightarrow> n | Some d \<Rightarrow> digits (10 * n + d) cs)"

text \<open>\<open>strtol\<close> in base 10, with a 64-bit \<open>long\<close>.\<close>

definition strtol :: "string \<Rightarrow> int" where
  "strtol s =
     (let s1 = dropWhile isspace s;
          v = (case s1 of
                 [] \<Rightarrow> 0
               | c # cs \<Rightarrow> if c = CHR ''-'' then - digits 0 cs
                            else if c = CHR ''+'' then digits 0 cs
                            else digits 0 (c # cs))
      in max (- (2 ^ 63)) (min (2 ^ 63 - 1) v))"

definition manifest_int :: "string \<Rightarrow> string \<Rightarrow> string \<Rightarrow> int \<Rightarrow> int" where
  "manifest_int json func key def =
     (let needle = take 255 (''\"func\":\"'' @ func @ ''\"'') in
      case strstr json needle of
        None \<Rightarrow> def
      | Some p \<Rightarrow>
          (case strstr p key of
             None \<Rightarrow> def
           | Some k \<Rightarrow> strtol (dropWhile (\<lambda>c. c = CHR '':'' \<or> c = CHR '' '' \<or> c = CHR ''\"'') (drop (length key) k))))"

section \<open>Segments\<close>

definition CPE_ENC_COL :: int where "CPE_ENC_COL = 0"
definition CPE_ENC_ROW :: int where "CPE_ENC_ROW = 2"
definition CPE_MAX_SEGS :: nat where "CPE_MAX_SEGS = 64"

record cpe_seg_info =
  phdr_idx :: nat
  si_paddr :: u32
  si_filesz :: u32
  si_tile_addr :: u32

primrec collect_segs_from :: "rt_cpe_dev \<Rightarrow> nat \<Rightarrow> Elf32_Phdr list \<Rightarrow> cpe_seg_info list \<Rightarrow> cpe_seg_info list" where
  "collect_segs_from d i [] segs = segs"
| "collect_segs_from d i (ph # phs) segs =
     (if length segs < CPE_MAX_SEGS then
        (if p_type ph \<noteq> PT_LOAD \<or> p_filesz ph = 0 then collect_segs_from d (Suc i) phs segs
         else case rt_cpe_target d CPE_ENC_COL CPE_ENC_ROW (p_paddr ph) of
                None \<Rightarrow> collect_segs_from d (Suc i) phs segs
              | Some ta \<Rightarrow>
                  if ta = RT_CPE_SKIP_ADDR then collect_segs_from d (Suc i) phs segs
                  else collect_segs_from d (Suc i) phs
                         (segs @ [\<lparr>phdr_idx = i, si_paddr = p_paddr ph, si_filesz = p_filesz ph, si_tile_addr = ta\<rparr>]))
      else segs)"

definition collect_segs :: "rt_cpe_dev \<Rightarrow> u8 mem \<Rightarrow> cpe_seg_info list" where
  "collect_segs d elf = collect_segs_from d 0 (elf32_phdrs elf) []"

section \<open>The walk over an encoded body\<close>

definition is_dma_ch_ctrl :: "rt_cpe_dev \<Rightarrow> u32 \<Rightarrow> bool" where
  "is_dma_ch_ctrl d addr =
     (addr \<ge> dma_ch_ctrl_off d \<and> addr < dma_ch_ctrl_off d + 2 * dma_nch d * dma_ch_stride d \<and>
      (addr - dma_ch_ctrl_off d) mod dma_ch_stride d = 0)"

text \<open>
  What the walk reports through its sink and on standard error. The kind of a banner is its text: the completion
  barrier, the core reset or release, the DMA reset, or a segment.
\<close>

datatype walk_kind = Barrier | CoreCtrl u32 | DmaCtrl u32 u32 | SegWrite int

datatype walk_event =
    Banner nat walk_kind
  | Access nat nat walk_kind
  | Warn nat u32

text \<open>The locals of \<open>walk_body\<close>: \<open>cur\<close> and \<open>seg\<close> are \<open>int\<close> there, \<open>seg_left\<close> is \<open>uint32_t\<close>.\<close>

record walk_state =
  cur :: int
  wseg :: int
  seg_left :: u32

definition walk_start :: walk_state where
  "walk_start = \<lparr>cur = -2, wseg = -1, seg_left = 0\<rparr>"

text \<open>One access at word \<open>i\<close>, whose first data word is \<open>w0\<close>.\<close>

definition walk_access ::
  "rt_cpe_dev \<Rightarrow> cpe_seg_info list \<Rightarrow> nat \<Rightarrow> nat \<Rightarrow> u32 \<Rightarrow> u32 \<Rightarrow> nat \<Rightarrow> walk_state \<Rightarrow> walk_event list \<times> walk_state"
where
  "walk_access d segs acc i ctrl w0 len st =
     (let addr = ctrl AND 0xFFFFF; op = drop_bit 22 ctrl AND 0x3 in
      if op = 2 then ([Banner i Barrier, Access i len Barrier], st)
      else if addr = core_ctrl_off d then
        ((if cur st \<noteq> -1 then [Banner i (CoreCtrl w0)] else []) @ [Access i len (CoreCtrl w0)], st\<lparr>cur := -1\<rparr>)
      else if is_dma_ch_ctrl d addr then
        let c = (addr - dma_ch_ctrl_off d) div dma_ch_stride d in
        ((if cur st \<noteq> -3 then [Banner i (DmaCtrl 0 0)] else []) @ [Access i len (DmaCtrl c w0)], st\<lparr>cur := -3\<rparr>)
      else
        let new = (seg_left st = 0 \<and> wseg st + 1 < int (length segs));
            seg = (if new then wseg st + 1 else wseg st);
            left0 = (if new then (si_filesz (segs ! nat seg) + 4 * RT_CPE_CHUNK_WORDS - 1) div (4 * RT_CPE_CHUNK_WORDS)
                     else seg_left st);
            left1 = (if left0 \<noteq> 0 then left0 - 1 else left0);
            s = segs ! nat seg;
            warn = (seg < 0 \<or> addr < si_tile_addr s \<or> addr \<ge> si_tile_addr s + si_filesz s)
        in ((if new then [Banner i (SegWrite seg)] else []) @ (if warn then [Warn acc addr] else []) @
              [Access i len (SegWrite seg)],
            \<lparr>cur = seg, wseg = seg, seg_left = left1\<rparr>))"

fun walk_body ::
  "rt_cpe_dev \<Rightarrow> cpe_seg_info list \<Rightarrow> nat \<Rightarrow> nat \<Rightarrow> u32 list \<Rightarrow> walk_state \<Rightarrow> walk_event list"
where
  "walk_body d segs acc i (hdr # ctrl # rest) st =
     (let beats = unat (drop_bit 20 ctrl AND 0x3) + 1 in
      if length rest < beats then []
      else case walk_access d segs acc i ctrl (hd rest) (2 + beats) st of
             (evs, st') \<Rightarrow> evs @ walk_body d segs (Suc acc) (i + 2 + beats) (drop beats rest) st')"
| "walk_body d segs acc i _ st = []"

text \<open>The words \<open>hdr_access\<close> prints into the generated array.\<close>

primrec event_words :: "u32 list \<Rightarrow> walk_event \<Rightarrow> u32 list" where
  "event_words body (Banner at k) = []"
| "event_words body (Access at len k) = take len (drop at body)"
| "event_words body (Warn a addr) = []"

definition emit_body :: "rt_cpe_dev \<Rightarrow> u32 list \<Rightarrow> cpe_seg_info list \<Rightarrow> u32 list" where
  "emit_body d body segs = concat (map (event_words body) (walk_body d segs 0 0 body walk_start))"

section \<open>Encoding one kernel\<close>

definition RT_CPE_MAGIC :: u32 where "RT_CPE_MAGIC = 0x43504B31"
definition RT_CPE_VERSION :: u32 where "RT_CPE_VERSION = 2"

record rt_cpe_blob_hdr =
  magic :: u32
  version :: u32
  aie_gen :: u32
  fingerprint :: u32
  stream_id :: u32
  nresp :: u32
  body_words :: u32
  enc_tile :: u32

text \<open>
  \<open>main\<close> from the device parameters to the files it writes. \<open>buf\<close> is what the buffer from \<open>malloc\<close> holds;
  \<open>Inl\<close> is the exit status of a failure.
\<close>

definition ctrlpkt_main ::
  "int \<Rightarrow> string \<Rightarrow> string \<Rightarrow> u8 mem \<Rightarrow> u32 mem \<Rightarrow> (nat + rt_cpe_blob_hdr \<times> u32 list \<times> cpe_seg_info list) option"
where
  "ctrlpkt_main gen json func elf buf =
     (case rt_cpe_dev_for_gen gen of
        None \<Rightarrow> Some (Inl 2)
      | Some dev \<Rightarrow>
          let nresp = manifest_int json func ''\"nresp\"'' (-1);
              stream_id = manifest_int json func ''\"stream_id\"'' (-1);
              reset = manifest_int json func ''\"reset\"'' 1
          in if nresp < 0 \<or> stream_id < 0 then Some (Inl 1)
             else
               let npkt = rt_cpe_count_pkts dev elf CPE_ENC_COL CPE_ENC_ROW;
                   cap = (npkt + rt_cpe_reset_accesses dev + 1) * (2 + RT_CPE_CHUNK_WORDS) + 16
               in case rt_cpe_encode_body dev elf CPE_ENC_COL CPE_ENC_ROW (word_of_int stream_id) (reset \<noteq> 0) buf cap of
                    None \<Rightarrow> None
                  | Some (body, None) \<Rightarrow> Some (Inl 1)
                  | Some (body, Some (bw, nacc)) \<Rightarrow>
                      Some (Inr (\<lparr>magic = RT_CPE_MAGIC, version = RT_CPE_VERSION, aie_gen = word_of_int gen,
                                  fingerprint = rt_cpe_fingerprint dev (word_of_int stream_id),
                                  stream_id = word_of_int stream_id, nresp = word_of_int nresp, body_words = bw,
                                  enc_tile = push_bit 16 (word_of_int CPE_ENC_COL) OR word_of_int CPE_ENC_ROW\<rparr>,
                                 load body 0 (unat bw), collect_segs dev elf)))"

section \<open>The generated array holds the body\<close>

lemma enc_ctrl_beats:
  assumes "1 \<le> n" "n \<le> 4" "ack \<noteq> None \<longrightarrow> n = 1"
  shows "unat (drop_bit 20 (cpe_ctrl_word (enc_ctrl a n ack)) AND 0x3) + 1 = n"
proof -
  have "drop_bit 20 (cpe_ctrl_word (enc_ctrl a n ack)) AND 0x3 = (if ack = None then take_bit 2 (of_nat (n - 1)) else 0)"
    by (simp add: field_simps32 ctrl_word_mid)
  moreover have "unat (take_bit 2 (of_nat (n - 1)) :: u32) = n - 1"
  proof -
    have "n = 1 \<or> n = 2 \<or> n = 3 \<or> n = 4" using assms(1,2) by auto
    then show ?thesis by (elim disjE) simp_all
  qed
  ultimately show ?thesis using assms by (cases ack) auto
qed

lemma walk_access_words:
  "concat (map (event_words body) (fst (walk_access d segs acc i ctrl w0 len st))) = take len (drop i body)"
  by (simp add: walk_access_def Let_def)

lemma walk_body_words:
  assumes "list_all access_ok accs" and "body = pre @ enc_all sid accs"
  shows "concat (map (event_words body) (walk_body d segs acc (length pre) (enc_all sid accs) st)) = enc_all sid accs"
  using assms
proof (induction accs arbitrary: acc pre st)
  case (Cons x accs)
  obtain a ws ack where x: "x = (a, ws, ack)" by (cases x)
  define c where "c = cpe_ctrl_word (enc_ctrl a (length ws) ack)"
  have ok: "1 \<le> length ws" "length ws \<le> 4" "ack \<noteq> None \<longrightarrow> length ws = 1" using Cons.prems x by auto
  note beats = enc_ctrl_beats [OF ok, of a, folded c_def]
  obtain evs st' where w: "walk_access d segs acc (length pre) c (hd ws) (2 + length ws) st = (evs, st')"
    by (cases "walk_access d segs acc (length pre) c (hd ws) (2 + length ws) st")
  have enc: "enc_all sid (x # accs) = cpe_stream_hdr sid # c # ws @ enc_all sid accs" by (simp add: x c_def)
  have hd: "hd (ws @ enc_all sid accs) = hd ws" using ok by (cases ws) auto
  have "walk_body d segs acc (length pre) (enc_all sid (x # accs)) st =
      evs @ walk_body d segs (Suc acc) (length (pre @ enc_access sid x)) (enc_all sid accs) st'"
    unfolding enc by (simp add: Let_def beats [simplified] w [simplified] hd x)
  moreover have "concat (map (event_words body) evs) = enc_access sid x"
    using walk_access_words [of body d segs acc "length pre" c "hd ws" "2 + length ws" st] Cons.prems(2)
    unfolding w fst_conv enc by (simp add: x c_def)
  moreover have "concat (map (event_words body) (walk_body d segs (Suc acc) (length (pre @ enc_access sid x)) (enc_all sid accs) st')) =
      enc_all sid accs"
    using Cons.prems by (intro Cons.IH) simp_all
  ultimately show ?case by simp
qed simp

section \<open>The tool end to end\<close>

lemma encode_body_words:
  fixes cap sid :: u32
  assumes "unat cap \<le> 2 ^ 30" "list_all (phdr_ok d col row) (elf32_phdrs elf)"
    "concat (map (phdr_accesses d elf col row) (elf32_phdrs elf)) \<noteq> []"
    "6 * length (body_accesses d elf col row want_reset) + 3 \<le> unat cap"
  defines "enc \<equiv> enc_all sid (body_accesses d elf col row want_reset @ [body_last d elf col row])"
  obtains pkt' where "rt_cpe_encode_body d elf col row sid want_reset pkt cap =
      Some (pkt', Some (of_nat (length enc), of_nat (length (body_accesses d elf col row want_reset))))"
    "load pkt' 0 (unat (of_nat (length enc) :: u32)) = enc"
proof -
  have len: "length enc \<le> unat cap"
    using length_enc_all [OF body_accesses_ok [of d elf col row want_reset], where sid = sid] assms(4)
    by (simp add: enc_def body_last_def Let_def)
  obtain pkt' r where P: "rt_cpe_encode_body d elf col row sid want_reset pkt cap = Some (pkt', r)"
    and R: "if length enc \<le> unat cap
     then r = Some (of_nat (length enc), of_nat (length (body_accesses d elf col row want_reset))) \<and> pkt' = store pkt 0 enc
     else r = None \<and> same_outside 0 (unat cap) pkt pkt'"
    unfolding enc_def by (rule encode_body_emits [OF assms(1,2) body_accesses_ne [OF assms(3)]])
  have "unat (of_nat (length enc) :: u32) = length enc"
    using le_less_trans [OF len unat32_less] by (intro unat_of_nat32) simp
  with P R len load_store show thesis by (intro that [of pkt']) auto
qed

text \<open>The capacity \<open>main\<close> computes is enough for the body and is far from wrapping.\<close>

lemma main_capacity:
  defines "d \<equiv> aie_dev5"
  assumes "length (concat (map (phdr_accesses d elf CPE_ENC_COL CPE_ENC_ROW) (elf32_phdrs elf))) < 2 ^ 26"
  defines "cap \<equiv> (rt_cpe_count_pkts d elf CPE_ENC_COL CPE_ENC_ROW + rt_cpe_reset_accesses d + 1) * (2 + RT_CPE_CHUNK_WORDS) + 16"
  shows "unat cap \<le> 2 ^ 30" "6 * length (body_accesses d elf CPE_ENC_COL CPE_ENC_ROW want_reset) + 3 \<le> unat cap"
proof -
  define n where "n = length (concat (map (phdr_accesses d elf CPE_ENC_COL CPE_ENC_ROW) (elf32_phdrs elf)))"
  have n: "n < 2 ^ 26" using assms(2) by (simp add: n_def)
  have rst: "rt_cpe_reset_accesses d = 10" unfolding d_def by code_simp
  have "rt_cpe_count_pkts d elf CPE_ENC_COL CPE_ENC_ROW = of_nat n"
    unfolding n_def by (rule count_pkts_accesses) (use n in \<open>simp add: n_def\<close>)
  then have "cap = of_nat (6 * n + 82)" by (simp add: cap_def rst RT_CPE_CHUNK_WORDS_def)
  moreover have "unat (of_nat (6 * n + 82) :: u32) = 6 * n + 82" using n by (intro unat_of_nat32) simp
  ultimately have cap: "unat cap = 6 * n + 82" by simp
  with n show "unat cap \<le> 2 ^ 30" by simp
  have "length (cpe_reset_writes d) = 10" unfolding d_def by code_simp
  then have "length (body_accesses d elf CPE_ENC_COL CPE_ENC_ROW want_reset) \<le> 10 + n"
    by (simp add: body_accesses_def n_def)
  with cap show "6 * length (body_accesses d elf CPE_ENC_COL CPE_ENC_ROW want_reset) + 3 \<le> unat cap" by simp
qed

text \<open>
  C4. End to end: for a generation-5 device, a manifest with the entry of the kernel and an ELF whose loadable
  segments all have a target (one of them on this tile, below 1 GiB in all), the tool succeeds with the capacity it
  computed itself; the header's word count is the length of the body; the body decodes to the load image followed by
  the acknowledged repetition of its last write; and the generated array, printed access by access, holds exactly
  the body.
\<close>

theorem ctrlpkt_main_image:
  assumes "manifest_int json func ''\"nresp\"'' (-1) \<ge> 0" "manifest_int json func ''\"stream_id\"'' (-1) \<ge> 0"
    and "list_all (phdr_ok aie_dev5 CPE_ENC_COL CPE_ENC_ROW) (elf32_phdrs elf)"
    and "concat (map (phdr_accesses aie_dev5 elf CPE_ENC_COL CPE_ENC_ROW) (elf32_phdrs elf)) \<noteq> []"
    and "length (concat (map (phdr_accesses aie_dev5 elf CPE_ENC_COL CPE_ENC_ROW) (elf32_phdrs elf))) < 2 ^ 26"
  shows "\<exists>hdr body segs. ctrlpkt_main 5 json func elf buf = Some (Inr (hdr, body, segs)) \<and>
     unat (body_words hdr) = length body \<and>
     (let ws = body_writes aie_dev5 elf CPE_ENC_COL CPE_ENC_ROW (manifest_int json func ''\"reset\"'' 1 \<noteq> 0) in
        decoded_writes (cpd_array 0 body) = ws @ [last ws]) \<and>
     emit_body aie_dev5 body segs = body"
proof -
  define wr where "wr = (manifest_int json func ''\"reset\"'' 1 \<noteq> 0)"
  define sid :: u32 where "sid = word_of_int (manifest_int json func ''\"stream_id\"'' (-1))"
  let ?d = aie_dev5 and ?c = CPE_ENC_COL and ?r = CPE_ENC_ROW
  let ?accs = "body_accesses ?d elf ?c ?r wr @ [body_last ?d elf ?c ?r]"
  define enc where "enc = enc_all sid ?accs"
  note cap = main_capacity [OF assms(5)]
  obtain pkt' where P: "rt_cpe_encode_body ?d elf ?c ?r sid wr buf
      ((rt_cpe_count_pkts ?d elf ?c ?r + rt_cpe_reset_accesses ?d + 1) * (2 + RT_CPE_CHUNK_WORDS) + 16) =
      Some (pkt', Some (of_nat (length enc), of_nat (length (body_accesses ?d elf ?c ?r wr))))"
    and L: "load pkt' 0 (unat (of_nat (length enc) :: u32)) = enc"
    unfolding enc_def by (rule encode_body_words [OF cap(1) assms(3,4) cap(2)])
  have ok: "list_all access_ok ?accs"
    using body_accesses_ok by (simp add: body_last_def Let_def del: access_ok.simps) simp
  have "decoded_writes (cpd_array 0 enc) = body_writes ?d elf ?c ?r wr @ [last (body_writes ?d elf ?c ?r wr)]"
    unfolding enc_def decoded_writes_enc [OF ok] map_append concat_append body_accesses_writes
      body_last_write [OF assms(4), of wr] ..
  moreover have "emit_body ?d enc segs = enc" for segs
    using walk_body_words [OF ok, of enc "[]" sid ?d segs 0 walk_start] by (simp add: emit_body_def enc_def)
  moreover have "unat (of_nat (length enc) :: u32) = length enc"
    using L by (metis length_load)
  moreover have "rt_cpe_dev_for_gen 5 = Some ?d" by (simp add: aie_dev5_def rt_cpe_dev_for_gen_def)
  ultimately show ?thesis
    using assms(1,2) P L by (simp add: ctrlpkt_main_def sid_def [symmetric] wr_def [symmetric])
qed

theorem ctrlpkt_main_image_witness:
  "\<exists>hdr body segs. ctrlpkt_main 5 ''{\"entries\":[{\"func\":\"k\",\"nresp\":4,\"stream_id\":16,\"reset\":0}]}'' ''k''
       sample_elf (\<lambda>_. 0) = Some (Inr (hdr, body, segs)) \<and>
     decoded_writes (cpd_array 0 body) = [(0x20000, 0x44332211), (0x20004, 0x55), (0x20004, 0x55)]"
proof -
  let ?j = "''{\"entries\":[{\"func\":\"k\",\"nresp\":4,\"stream_id\":16,\"reset\":0}]}''"
  have j: "manifest_int ?j ''k'' ''\"nresp\"'' (-1) = 4" "manifest_int ?j ''k'' ''\"stream_id\"'' (-1) = 16"
    "manifest_int ?j ''k'' ''\"reset\"'' 1 = 0"
    by code_simp+
  have ok: "phdr_ok aie_dev5 0 2 \<lparr>p_type = 1, p_offset = 84, p_paddr = 0, p_filesz = 5\<rparr>" by code_simp
  show ?thesis
    using ctrlpkt_main_image [of ?j "''k''" sample_elf "\<lambda>_. 0"] ok sample_accesses sample_writes
    by (auto simp: j sample_phdrs CPE_ENC_COL_def CPE_ENC_ROW_def Let_def)
qed

end
