(* ===== verification/CtrlpktSeg.thy ===== *)
theory CtrlpktSeg
  imports CtrlpktEncode
begin

text \<open>
  The segment builder of \<open>src/mlir/runtime/aie_ctrlpkt_encode.c\<close> (\<open>rt_cpe_seg_*\<close>): register writes are appended
  one word at a time, a word that continues the last access joins it, and \<open>rt_cpe_seg_finish\<close> turns the last
  word into a write with acknowledgement. \<open>seg_inv\<close> relates the builder to the list of accesses the buffer
  holds; every operation is shown to implement an operation on that list.
\<close>

section \<open>Building a segment word by word\<close>

definition RT_CPE_NONE :: u32 where "RT_CPE_NONE = 0xFFFFFFFF"

record rt_cpe_seg =
  seg_pw :: u32
  seg_last :: u32
  seg_last_ctrl :: u32

definition cpe_words_to_boundary :: "u32 \<Rightarrow> u32" where
  "cpe_words_to_boundary byte_addr =
     (let left = (16 - (byte_addr AND 0xF)) div 4 in if left \<noteq> 0 then left else 1)"

definition rt_cpe_seg_reset :: "rt_cpe_seg \<Rightarrow> rt_cpe_seg" where
  "rt_cpe_seg_reset s = s\<lparr>seg_pw := 0, seg_last := RT_CPE_NONE\<rparr>"

definition hdr_addr :: "u32 \<Rightarrow> u32" where "hdr_addr w = w AND 0xFFFFF"
definition hdr_nw :: "u32 \<Rightarrow> u32" where "hdr_nw w = (drop_bit 20 w AND 0x3) + 1"

text \<open>One iteration of \<open>rt_cpe_seg_write\<close> past its capacity check.\<close>

definition cpe_seg_write1 :: "u32 \<Rightarrow> u32 \<Rightarrow> u32 \<Rightarrow> rt_cpe_seg \<Rightarrow> u32 mem \<Rightarrow> rt_cpe_seg \<times> u32 mem" where
  "cpe_seg_write1 hdr off w s p =
     (let aoff = hdr_addr (p (unat (seg_last s))); nw = hdr_nw (p (unat (seg_last s))) in
      if seg_last s \<noteq> RT_CPE_NONE \<and> off = aoff + 4 * nw \<and> nw < cpe_words_to_boundary aoff then
        (s\<lparr>seg_pw := seg_pw s + 1\<rparr>,
         (p(unat (seg_last s) := cpe_ctrl_word (aoff OR push_bit 20 nw)))(unat (seg_pw s) := w))
      else
        (s\<lparr>seg_pw := seg_pw s + 3, seg_last := seg_pw s + 1\<rparr>,
         ((p(unat (seg_pw s) := hdr))(unat (seg_pw s + 1) := cpe_ctrl_word (off AND 0xFFFFF)))
           (unat (seg_pw s + 2) := w)))"

primrec cpe_seg_write_words ::
  "u32 \<Rightarrow> u32 \<Rightarrow> u32 \<Rightarrow> u32 list \<Rightarrow> rt_cpe_seg \<Rightarrow> u32 mem \<Rightarrow> bool \<times> rt_cpe_seg \<times> u32 mem"
where
  "cpe_seg_write_words cap hdr off [] s p = (True, s, p)"
| "cpe_seg_write_words cap hdr off (w # ws) s p =
     (if seg_pw s + 5 > cap then (False, s, p)
      else case cpe_seg_write1 hdr off w s p of
             (s', p') \<Rightarrow> cpe_seg_write_words cap hdr (off + 4) ws s' p')"

text \<open>\<open>rt_cpe_seg_write\<close>: the flag is \<open>True\<close> for the return value \<open>0\<close> and \<open>False\<close> for \<open>-1\<close>.\<close>

definition rt_cpe_seg_write ::
  "rt_cpe_seg \<Rightarrow> u32 mem \<Rightarrow> u32 \<Rightarrow> u32 \<Rightarrow> u32 \<Rightarrow> u32 mem \<Rightarrow> u32 \<Rightarrow> bool \<times> rt_cpe_seg \<times> u32 mem"
where
  "rt_cpe_seg_write s p cap stream_id off data nwords =
     cpe_seg_write_words cap (cpe_stream_hdr stream_id) off (load data 0 (unat nwords)) s p"

definition rt_cpe_seg_finish :: "rt_cpe_seg \<Rightarrow> u32 mem \<Rightarrow> u32 \<times> rt_cpe_seg \<times> u32 mem" where
  "rt_cpe_seg_finish s p =
     (if seg_last s = RT_CPE_NONE then (0, s, p)
      else
        let aoff = hdr_addr (p (unat (seg_last s))); nw = hdr_nw (p (unat (seg_last s))) in
        if nw > 1 then
          let d = p (unat (seg_pw s - 1));
              p1 = p(unat (seg_last s) := cpe_ctrl_word (aoff OR push_bit 20 (nw - 2)));
              p2 = p1(unat (seg_pw s - 1) := p1 (unat (seg_last s - 1)));
              last' = seg_pw s;
              aoff' = (aoff + 4 * (nw - 1)) AND 0xFFFFF;
              p3 = (p2(unat (seg_pw s) := 0))(unat (seg_pw s + 1) := d);
              p4 = p3(unat last' := cpe_ctrl_word (aoff' OR push_bit 22 0x2))
          in (seg_pw s + 2, s\<lparr>seg_pw := seg_pw s + 2, seg_last := last'\<rparr>, p4)
        else
          (seg_pw s, s, p(unat (seg_last s) := cpe_ctrl_word (aoff OR push_bit 22 0x2))))"


section \<open>The accesses a segment holds\<close>

fun seg_access_ok :: "access \<Rightarrow> bool" where
  "seg_access_ok (a, ws, ack) =
     (ack = None \<and> a AND 0xFFFFF = a \<and> 1 \<le> length ws \<and> length ws \<le> unat (cpe_words_to_boundary a))"

definition seg_inv :: "u32 \<Rightarrow> rt_cpe_seg \<Rightarrow> u32 mem \<Rightarrow> access list \<Rightarrow> bool" where
  "seg_inv sid s p accs =
     (list_all seg_access_ok accs \<and> load p 0 (unat (seg_pw s)) = enc_all sid accs \<and>
      (if accs = [] then seg_last s = RT_CPE_NONE
       else seg_last s \<noteq> RT_CPE_NONE \<and> unat (seg_last s) + 1 + length (fst (snd (last accs))) = unat (seg_pw s)))"

text \<open>A new word joins the last access when it is next to it and stays inside its 16-byte line.\<close>

definition joins :: "u32 \<Rightarrow> access list \<Rightarrow> bool" where
  "joins off accs =
     (accs \<noteq> [] \<and> (case last accs of (a, ws, _) \<Rightarrow>
        off = a + 4 * of_nat (length ws) \<and> length ws < unat (cpe_words_to_boundary a)))"

definition add_word :: "u32 \<Rightarrow> u32 \<Rightarrow> access list \<Rightarrow> access list" where
  "add_word off w accs =
     (if joins off accs then
        (case last accs of (a, ws, _) \<Rightarrow> butlast accs @ [(a, ws @ [w], None)])
      else accs @ [(off AND 0xFFFFF, [w], None)])"

primrec add_words :: "u32 \<Rightarrow> u32 list \<Rightarrow> access list \<Rightarrow> access list" where
  "add_words off [] accs = accs"
| "add_words off (w # ws) accs = add_words (off + 4) ws (add_word off w accs)"

text \<open>The last word alone, with an acknowledgement.\<close>

definition ack_last :: "access list \<Rightarrow> access list" where
  "ack_last accs =
     (if accs = [] then []
      else case last accs of (a, ws, _) \<Rightarrow>
        butlast accs @
        (if length ws = 1 then [(a, ws, Some 0)]
         else [(a, butlast ws, None), (a + 4 * of_nat (length ws - 1), [last ws], Some 0)]))"

text \<open>A sequence of calls of \<open>rt_cpe_seg_write\<close>, stopped at the first failure.\<close>

primrec seg_session ::
  "u32 \<Rightarrow> u32 \<Rightarrow> (u32 \<times> u32 mem \<times> u32) list \<Rightarrow> rt_cpe_seg \<Rightarrow> u32 mem \<Rightarrow> (rt_cpe_seg \<times> u32 mem) option"
where
  "seg_session cap sid [] s p = Some (s, p)"
| "seg_session cap sid (req # reqs) s p =
     (case req of (off, data, n) \<Rightarrow>
        (case rt_cpe_seg_write s p cap sid off data n of
           (ok, s', p') \<Rightarrow> if ok then seg_session cap sid reqs s' p' else None))"

fun request_writes :: "u32 \<times> u32 mem \<times> u32 \<Rightarrow> (u32 \<times> u32) list" where
  "request_writes (off, data, n) = map (\<lambda>k. ((off + 4 * of_nat k) AND 0xFFFFF, data k)) [0..<unat n]"

definition session_accesses :: "(u32 \<times> u32 mem \<times> u32) list \<Rightarrow> access list \<Rightarrow> access list" where
  "session_accesses reqs accs = fold (\<lambda>(off, data, n). add_words off (load data 0 (unat n))) reqs accs"

text \<open>An access stays inside one 16-byte line.\<close>

fun one_line :: "access \<Rightarrow> bool" where
  "one_line (a, ws, ack) = (unat (a AND 0xFFFFF) mod 16 + 4 * length ws \<le> 16)"

text \<open>A concrete session.\<close>

definition sample_requests :: "(u32 \<times> u32 mem \<times> u32) list" where
  "sample_requests = [(0x1D000, of_nat, 3), (0x1D00C, \<lambda>_. 7, 1), (0x1D010, \<lambda>_. 9, 2)]"

definition sample_segment :: "rt_cpe_seg \<times> u32 mem" where
  "sample_segment = the (seg_session 64 5 sample_requests (rt_cpe_seg_reset \<lparr>seg_pw = 1, seg_last = 2, seg_last_ctrl = 0\<rparr>) (\<lambda>_. 0))"

section \<open>Header words of the builder\<close>

lemma words_to_boundary: "1 \<le> unat (cpe_words_to_boundary a)" "unat (cpe_words_to_boundary a) \<le> 4"
proof -
  have m: "unat (a AND 0xF) < 16"
    by (simp add: field_simps32 unsigned_take_bit_eq take_bit_eq_mod unat_mod)
  then have "unat (16 - (a AND 0xF)) = 16 - unat (a AND 0xF)"
    by (subst unat_diff32) (simp_all add: word_le32)
  then have "unat ((16 - (a AND 0xF)) div 4) = (16 - unat (a AND 0xF)) div 4" by (simp add: unat_div)
  then show "1 \<le> unat (cpe_words_to_boundary a)" "unat (cpe_words_to_boundary a) \<le> 4"
    by (auto simp: cpe_words_to_boundary_def Let_def unat_eq_0 Suc_le_eq word_gt_0 unat_gt_0)
qed

lemma seg_access_ok_access_ok: "seg_access_ok x \<Longrightarrow> access_ok x"
  using words_to_boundary(2) [of "fst x"] by (cases x) auto

lemma hdr_fields:
  assumes "seg_access_ok (a, ws, ack)"
  shows "hdr_addr (cpe_ctrl_word (enc_ctrl a (length ws) ack)) = a"
    "unat (hdr_nw (cpe_ctrl_word (enc_ctrl a (length ws) ack))) = length ws"
    "hdr_nw (cpe_ctrl_word (enc_ctrl a (length ws) ack)) = of_nat (length ws)"
proof -
  let ?c = "cpe_ctrl_word (enc_ctrl a (length ws) ack)"
  have ok: "ack = None" "a AND 0xFFFFF = a" "1 \<le> length ws" "length ws \<le> 4"
    using assms words_to_boundary(2) [of a] by auto
  show "hdr_addr ?c = a"
    using ok(2) by (simp add: hdr_addr_def field_simps32 ctrl_word_low)
  have "hdr_nw ?c = take_bit 2 (of_nat (length ws - 1)) + 1"
    using ok(1) by (simp add: hdr_nw_def field_simps32 ctrl_word_mid)
  then show "unat (hdr_nw ?c) = length ws"
    using take_bit_2_small [OF ok(4)] ok(3) by simp
  then show "hdr_nw ?c = of_nat (length ws)" by (metis of_nat_unat32)
qed

lemma take_bit_2_of_nat: "n \<le> 3 \<Longrightarrow> take_bit 2 (of_nat n) = (of_nat n :: u32)"
proof -
  assume "n \<le> 3"
  then have "n = 0 \<or> n = 1 \<or> n = 2 \<or> n = 3" by auto
  then show ?thesis by (elim disjE) simp_all
qed

lemma enc_ctrl_plain: "a AND 0xFFFFF = a \<Longrightarrow> 1 \<le> n \<Longrightarrow> n \<le> 4 \<Longrightarrow> enc_ctrl a n None = a OR push_bit 20 (of_nat (n - 1))"
  using take_bit_2_of_nat [of "n - 1"] by (simp only: enc_ctrl_def option.case and_take_bit32(1) or.commute)

lemma enc_ctrl_ack: "a AND 0xFFFFF = a \<Longrightarrow> enc_ctrl a n (Some 0) = a OR push_bit 22 0x2"
  by (simp add: enc_ctrl_def)

section \<open>Appending a word\<close>

lemma seg_inv_last:
  assumes "seg_inv sid s p (xs @ [(a, ws, ack)])"
  defines "m \<equiv> length (enc_all sid xs)"
  shows "unat (seg_last s) = m + 1" "unat (seg_pw s) = m + 2 + length ws" "seg_last s \<noteq> RT_CPE_NONE"
    "p (unat (seg_last s)) = cpe_ctrl_word (enc_ctrl a (length ws) ack)" "p m = cpe_stream_hdr sid"
    "seg_access_ok (a, ws, ack)"
proof -
  have L: "load p 0 (unat (seg_pw s)) = enc_all sid (xs @ [(a, ws, ack)])"
    using assms(1) by (simp add: seg_inv_def)
  from arg_cong [OF L, of length] show pw: "unat (seg_pw s) = m + 2 + length ws" by (simp add: m_def)
  with assms(1) show lst: "unat (seg_last s) = m + 1" and "seg_last s \<noteq> RT_CPE_NONE" and "seg_access_ok (a, ws, ack)"
    by (auto simp: seg_inv_def simp del: seg_access_ok.simps)
  show "p (unat (seg_last s)) = cpe_ctrl_word (enc_ctrl a (length ws) ack)" "p m = cpe_stream_hdr sid"
    using load_nth [OF L, of "m + 1"] load_nth [OF L, of m] pw lst by (simp_all add: nth_append m_def)
qed

lemma seg_write1_join:
  assumes inv: "seg_inv sid s p (xs @ [(a, ws, ack)])" and room: "unat (seg_pw s) + 5 \<le> 2 ^ 31"
    and j: "off = a + 4 * of_nat (length ws)" "length ws < unat (cpe_words_to_boundary a)"
  shows "cpe_seg_write1 hdr off w s p =
      (s\<lparr>seg_pw := seg_pw s + 1\<rparr>,
       (p(unat (seg_last s) := cpe_ctrl_word (enc_ctrl a (length ws + 1) None)))(unat (seg_pw s) := w))"
    "seg_inv sid (s\<lparr>seg_pw := seg_pw s + 1\<rparr>)
       ((p(unat (seg_last s) := cpe_ctrl_word (enc_ctrl a (length ws + 1) None)))(unat (seg_pw s) := w)) (xs @ [(a, ws @ [w], None)])"
    "unat (seg_pw s + 1) = unat (seg_pw s) + 1"
proof -
  note L = seg_inv_last [OF inv]
  note hf = hdr_fields [OF L(6)]
  have ok: "a AND 0xFFFFF = a" "1 \<le> length ws" "length ws \<le> 3" "ack = None"
    using L(6) j(2) words_to_boundary(2) [of a] by auto
  have "(of_nat (length ws) < cpe_words_to_boundary a) = (length ws < unat (cpe_words_to_boundary a))"
    using ok(3) by (simp add: word_less32)
  with L hf j ok show "cpe_seg_write1 hdr off w s p =
      (s\<lparr>seg_pw := seg_pw s + 1\<rparr>,
       (p(unat (seg_last s) := cpe_ctrl_word (enc_ctrl a (length ws + 1) None)))(unat (seg_pw s) := w))"
    by (simp add: cpe_seg_write1_def Let_def enc_ctrl_plain)
  show pw: "unat (seg_pw s + 1) = unat (seg_pw s) + 1" using room by (subst unat_add_no_wrap) auto
  have ld: "load p 0 (unat (seg_pw s)) = enc_all sid xs @ cpe_stream_hdr sid # cpe_ctrl_word (enc_ctrl a (length ws) None) # ws"
    using inv ok(4) by (simp add: seg_inv_def)
  show "seg_inv sid (s\<lparr>seg_pw := seg_pw s + 1\<rparr>)
       ((p(unat (seg_last s) := cpe_ctrl_word (enc_ctrl a (length ws + 1) None)))(unat (seg_pw s) := w)) (xs @ [(a, ws @ [w], None)])"
  proof -
    let ?p' = "(p(unat (seg_last s) := cpe_ctrl_word (enc_ctrl a (length ws + 1) None)))(unat (seg_pw s) := w)"
    have "load ?p' 0 (unat (seg_pw s) + 1) =
        (load p 0 (unat (seg_pw s)))[unat (seg_last s) := cpe_ctrl_word (enc_ctrl a (length ws + 1) None)] @ [w]"
      using L by (intro load_patch_snoc) simp
    also have "\<dots> = enc_all sid (xs @ [(a, ws @ [w], None)])"
      unfolding ld by (simp add: L(1) list_update_append)
    finally show ?thesis using inv L ok j(2) pw by (simp add: seg_inv_def)
  qed
qed

lemma seg_write1_new:
  fixes w off :: u32
  assumes inv: "seg_inv sid s p accs" and room: "unat (seg_pw s) + 5 \<le> 2 ^ 31" and j: "\<not> joins off accs"
  defines "p' \<equiv> ((p(unat (seg_pw s) := cpe_stream_hdr sid))(unat (seg_pw s + 1) := cpe_ctrl_word (off AND 0xFFFFF)))
           (unat (seg_pw s + 2) := w)"
  shows "cpe_seg_write1 (cpe_stream_hdr sid) off w s p = (s\<lparr>seg_pw := seg_pw s + 3, seg_last := seg_pw s + 1\<rparr>, p')"
    "seg_inv sid (s\<lparr>seg_pw := seg_pw s + 3, seg_last := seg_pw s + 1\<rparr>) p' (accs @ [(off AND 0xFFFFF, [w], None)])"
    "unat (seg_pw s + 3) = unat (seg_pw s) + 3" "unat (seg_pw s + 2) = unat (seg_pw s) + 2" "unat (seg_pw s + 1) = unat (seg_pw s) + 1"
proof -
  show pw: "unat (seg_pw s + 3) = unat (seg_pw s) + 3" "unat (seg_pw s + 2) = unat (seg_pw s) + 2"
      "unat (seg_pw s + 1) = unat (seg_pw s) + 1"
    using room by (subst unat_add_no_wrap; simp)+
  have "\<not> (seg_last s \<noteq> RT_CPE_NONE \<and> off = hdr_addr (p (unat (seg_last s))) + 4 * hdr_nw (p (unat (seg_last s))) \<and>
      hdr_nw (p (unat (seg_last s))) < cpe_words_to_boundary (hdr_addr (p (unat (seg_last s)))))"
  proof (cases accs rule: rev_cases)
    case Nil
    with inv show ?thesis by (simp add: seg_inv_def)
  next
    case (snoc xs x)
    obtain a ws ack where x: "x = (a, ws, ack)" by (cases x)
    note L = seg_inv_last [OF inv [unfolded snoc x]]
    from L(6) words_to_boundary(2) [of a] have "unat (of_nat (length ws) :: u32) = length ws" by simp
    with j show ?thesis
      by (simp add: joins_def snoc x L(4) hdr_fields [OF L(6)] word_less32)
  qed
  then show "cpe_seg_write1 (cpe_stream_hdr sid) off w s p = (s\<lparr>seg_pw := seg_pw s + 3, seg_last := seg_pw s + 1\<rparr>, p')"
    by (auto simp: cpe_seg_write1_def Let_def p'_def)
  have "seg_pw s + 1 \<noteq> RT_CPE_NONE"
  proof
    assume "seg_pw s + 1 = RT_CPE_NONE"
    then have "unat (seg_pw s + 1) = 2 ^ 32 - 1" by (simp add: RT_CPE_NONE_def)
    with pw(3) room show False by simp
  qed
  moreover have "load p' 0 (unat (seg_pw s) + 3) = load p 0 (unat (seg_pw s)) @ [cpe_stream_hdr sid, cpe_ctrl_word (off AND 0xFFFFF), w]"
    by (simp add: p'_def pw numeral_3_eq_3 load_Suc_snoc load_upd_out del: fun_upd_apply) simp
  moreover have "seg_access_ok (off AND 0xFFFFF, [w], None)"
    using words_to_boundary(1) by (simp add: field_simps32)
  moreover have "enc_ctrl (off AND 0xFFFFF) 1 None = off AND 0xFFFFF"
    by (simp add: enc_ctrl_def field_simps32)
  ultimately show "seg_inv sid (s\<lparr>seg_pw := seg_pw s + 3, seg_last := seg_pw s + 1\<rparr>) p' (accs @ [(off AND 0xFFFFF, [w], None)])"
    using inv pw by (simp add: seg_inv_def)
qed

lemma seg_write1_refines:
  assumes inv: "seg_inv sid s p accs" and room: "unat (seg_pw s) + 5 \<le> 2 ^ 31"
  obtains s' p' where "cpe_seg_write1 (cpe_stream_hdr sid) off w s p = (s', p')"
    "seg_inv sid s' p' (add_word off w accs)" "unat (seg_pw s) \<le> unat (seg_pw s')" "unat (seg_pw s') \<le> unat (seg_pw s) + 3"
    "same_outside 0 (unat (seg_pw s')) p p'"
proof (cases "joins off accs")
  case True
  then obtain xs a ws ack where accs: "accs = xs @ [(a, ws, ack)]"
    and j: "off = a + 4 * of_nat (length ws)" "length ws < unat (cpe_words_to_boundary a)"
    unfolding joins_def by (metis (mono_tags, lifting) append_butlast_last_id case_prod_unfold prod.collapse)
  note J = seg_write1_join(1,2) [OF inv [unfolded accs] room j] seg_write1_join(3) [OF inv [unfolded accs] room j]
  have "same_outside 0 (unat (seg_pw s) + 1) p
      ((p(unat (seg_last s) := cpe_ctrl_word (enc_ctrl a (length ws + 1) None)))(unat (seg_pw s) := w))"
    using seg_inv_last(1,2) [OF inv [unfolded accs]] by (auto simp: same_outside_def)
  with True J show thesis by (intro that) (auto simp: accs add_word_def)
next
  case False
  note N = seg_write1_new [OF inv room False]
  have "same_outside 0 (unat (seg_pw s) + 3) p
      (((p(unat (seg_pw s) := cpe_stream_hdr sid))(unat (seg_pw s + 1) := cpe_ctrl_word (off AND 0xFFFFF)))(unat (seg_pw s + 2) := w))"
    by (auto simp: same_outside_def N)
  with False N show thesis by (intro that) (auto simp: add_word_def)
qed

lemma seg_write_words_refines:
  assumes "unat cap \<le> 2 ^ 31" "seg_inv sid s p accs" "unat (seg_pw s) + 2 \<le> unat cap"
  shows "\<exists>ok s' p' k. cpe_seg_write_words cap (cpe_stream_hdr sid) off ws s p = (ok, s', p') \<and>
     k \<le> length ws \<and> ok = (k = length ws) \<and> seg_inv sid s' p' (add_words off (take k ws) accs) \<and>
     unat (seg_pw s') + 2 \<le> unat cap \<and> same_outside 0 (unat cap) p p' \<and>
     unat (seg_pw s') \<le> unat (seg_pw s) + 3 * k \<and> (unat (seg_pw s) + 3 * length ws + 2 \<le> unat cap \<longrightarrow> ok)"
  using assms(2,3)
proof (induction ws arbitrary: off s p accs)
  case Nil
  then show ?case by auto
next
  case (Cons w ws)
  have c: "(seg_pw s + 5 > cap) = (unat cap < unat (seg_pw s) + 5)"
    using Cons.prems(2) assms(1) by (simp add: word_less32) (subst unat_add_no_wrap; simp)
  show ?case
  proof (cases "unat cap < unat (seg_pw s) + 5")
    case True
    with Cons.prems show ?thesis by (auto simp: c intro!: exI [of _ 0])
  next
    case False
    then have room: "unat (seg_pw s) + 5 \<le> 2 ^ 31" using assms(1) by simp
    obtain s1 p1 where w1: "cpe_seg_write1 (cpe_stream_hdr sid) off w s p = (s1, p1)"
      and inv1: "seg_inv sid s1 p1 (add_word off w accs)"
      and le: "unat (seg_pw s1) \<le> unat (seg_pw s) + 3" and fr: "same_outside 0 (unat (seg_pw s1)) p p1"
      by (rule seg_write1_refines [OF Cons.prems(1) room])
    have fit: "unat (seg_pw s1) + 2 \<le> unat cap" using le False by simp
    obtain ok s' p' k where "cpe_seg_write_words cap (cpe_stream_hdr sid) (off + 4) ws s1 p1 = (ok, s', p')"
      "k \<le> length ws" "ok = (k = length ws)" "seg_inv sid s' p' (add_words (off + 4) (take k ws) (add_word off w accs))"
      "unat (seg_pw s') + 2 \<le> unat cap" "same_outside 0 (unat cap) p1 p'"
      "unat (seg_pw s') \<le> unat (seg_pw s1) + 3 * k" "unat (seg_pw s1) + 3 * length ws + 2 \<le> unat cap \<longrightarrow> ok"
      using Cons.IH [OF inv1 fit, of "off + 4"] by blast
    moreover have "same_outside 0 (unat cap) p p1" using fr fit by (auto elim: same_outside_mono)
    ultimately show ?thesis
      using False le by (intro exI [of _ ok] exI [of _ s'] exI [of _ p'] exI [of _ "Suc k"])
        (auto simp: c w1 intro: same_outside_trans)
  qed
qed

lemma add_word_writes:
  "concat (map access_writes (add_word off w accs)) = concat (map access_writes accs) @ [(off AND 0xFFFFF, w)]"
proof (cases "joins off accs")
  case True
  then obtain xs a ws ack where accs: "accs = xs @ [(a, ws, ack)]" and j: "off = a + 4 * of_nat (length ws)"
    unfolding joins_def by (metis (mono_tags, lifting) append_butlast_last_id case_prod_unfold prod.collapse)
  have "map (\<lambda>k. ((a + 4 * of_nat k) AND 0xFFFFF, (ws @ [w]) ! k)) [0..<length ws] =
      map (\<lambda>k. ((a + 4 * of_nat k) AND 0xFFFFF, ws ! k)) [0..<length ws]"
    by (simp add: nth_append)
  with True show ?thesis by (simp add: add_word_def accs j nth_append)
next
  case False
  then show ?thesis by (simp add: add_word_def field_simps32)
qed

lemma add_words_writes:
  "concat (map access_writes (add_words off ws accs)) =
     concat (map access_writes accs) @ map (\<lambda>k. ((off + 4 * of_nat k) AND 0xFFFFF, ws ! k)) [0..<length ws]"
proof (induction ws arbitrary: off accs)
  case (Cons w ws)
  show ?case
    by (simp add: Cons.IH add_word_writes map_upt_Suc add.assoc del: upt_Suc)
qed simp

lemma add_word_nonempty: "add_word off w accs \<noteq> []"
  by (simp add: add_word_def split: prod.split)

section \<open>Finishing\<close>

lemma ack_last_writes:
  assumes "list_all seg_access_ok accs"
  shows "concat (map access_writes (ack_last accs)) = concat (map access_writes accs)"
proof (cases accs rule: rev_cases)
  case (snoc xs x)
  obtain a ws ack where x: "x = (a, ws, ack)" by (cases x)
  show ?thesis
  proof (cases "length ws = 1")
    case True
    then show ?thesis by (simp add: ack_last_def snoc x)
  next
    case False
    then obtain vs v where ws: "ws = vs @ [v]" "vs \<noteq> []"
      using assms by (cases ws rule: rev_cases) (auto simp: snoc x)
    have "map (\<lambda>k. ((a + 4 * of_nat k) AND 0xFFFFF, (vs @ [v]) ! k)) [0..<length vs] =
        map (\<lambda>k. ((a + 4 * of_nat k) AND 0xFFFFF, vs ! k)) [0..<length vs]"
      by (simp add: nth_append)
    with ws show ?thesis by (simp add: ack_last_def snoc x nth_append)
  qed
qed (simp add: ack_last_def)

lemma ack_last_ok:
  assumes "list_all seg_access_ok accs"
  shows "list_all access_ok (ack_last accs)"
proof (cases accs rule: rev_cases)
  case (snoc xs x)
  obtain a ws ack where x: "x = (a, ws, ack)" by (cases x)
  have "list_all access_ok xs" "access_ok (a, ws, ack)"
    using assms seg_access_ok_access_ok unfolding snoc x list_all_iff by auto
  moreover from this(2) have "ws \<noteq> []" by auto
  then have "length ws = 1 \<or> 1 \<le> length (butlast ws)" by (cases ws rule: rev_cases) (auto simp: Suc_le_eq)
  ultimately show ?thesis by (auto simp: ack_last_def snoc x)
qed (simp add: ack_last_def)

text \<open>The buffer after splitting the last word off an access of several words.\<close>

lemma split_last_load:
  fixes p :: "u32 mem"
  assumes "load p 0 n = E @ h # c # vs @ [v]" and "n = length E + 3 + length vs"
  shows "load (p(length E + 1 := c1, n - 1 := h, n := c2, n + 1 := v)) 0 (n + 2) = E @ h # c1 # vs @ [h, c2, v]"
proof -
  have "load (p(length E + 1 := c1, n - 1 := h, n := c2, n + 1 := v)) 0 (n + 2) =
      load (p(length E + 1 := c1, n - 1 := h)) 0 n @ [c2, v]"
    by (simp add: load_Suc_snoc load_upd_out del: fun_upd_apply) simp
  also have "load (p(length E + 1 := c1, n - 1 := h)) 0 n = (load p 0 n)[length E + 1 := c1, n - 1 := h]"
    using assms(2) by (simp add: load_upd_in del: fun_upd_apply)
  also have "\<dots> = E @ h # c1 # vs @ [h]"
    unfolding assms(1) by (simp add: assms(2) list_update_append)
  finally show ?thesis by (simp del: fun_upd_apply)
qed

lemma seg_finish_refines:
  assumes inv: "seg_inv sid s p accs" and room: "unat (seg_pw s) + 2 \<le> 2 ^ 31"
  obtains r s' p' where "rt_cpe_seg_finish s p = (r, s', p')" "load p' 0 (unat r) = enc_all sid (ack_last accs)"
    "unat r \<le> unat (seg_pw s) + 2" "same_outside 0 (unat (seg_pw s) + 2) p p'"
proof (cases accs rule: rev_cases)
  case Nil
  with inv show thesis by (intro that [of 0 s p]) (simp_all add: rt_cpe_seg_finish_def seg_inv_def ack_last_def)
next
  case (snoc xs x)
  obtain a ws ack where x: "x = (a, ws, ack)" by (cases x)
  note L = seg_inv_last [OF inv [unfolded snoc x]]
  note hf = hdr_fields [OF L(6)]
  have ok: "a AND 0xFFFFF = a" "1 \<le> length ws" "length ws \<le> 4" "ack = None"
    using L(6) words_to_boundary(2) [of a] by auto
  have ld: "load p 0 (unat (seg_pw s)) = enc_all sid xs @ cpe_stream_hdr sid # cpe_ctrl_word (enc_ctrl a (length ws) None) # ws"
    using inv ok(4) by (simp add: seg_inv_def snoc x)
  show thesis
  proof (cases "length ws = 1")
    case True
    let ?p' = "p(unat (seg_last s) := cpe_ctrl_word (a OR push_bit 22 0x2))"
    have "rt_cpe_seg_finish s p = (seg_pw s, s, ?p')"
      using L(3,4) hf True by (simp add: rt_cpe_seg_finish_def Let_def)
    moreover have "load ?p' 0 (unat (seg_pw s)) = enc_all sid (ack_last accs)"
    proof -
      have "load ?p' 0 (unat (seg_pw s)) = (load p 0 (unat (seg_pw s)))[unat (seg_last s) := cpe_ctrl_word (a OR push_bit 22 0x2)]"
        using L(1,2) by (intro load_upd_in) simp
      then show ?thesis
        unfolding ld using True by (simp add: L(1) list_update_append ack_last_def snoc x enc_ctrl_ack [OF ok(1)])
    qed
    moreover have "same_outside 0 (unat (seg_pw s) + 2) p ?p'"
      using L(1,2) by (simp add: same_outside_def)
    ultimately show thesis by (intro that) auto
  next
    case False
    then obtain vs v where ws: "ws = vs @ [v]" "1 \<le> length vs" "length vs \<le> 3"
      using ok(2,3) by (cases ws rule: rev_cases) (auto simp: Suc_le_eq)
    let ?n = "unat (seg_pw s)" and ?E = "enc_all sid xs" and ?h = "cpe_stream_hdr sid"
    let ?c1 = "cpe_ctrl_word (enc_ctrl a (length vs) None)"
      and ?c2 = "cpe_ctrl_word (enc_ctrl (a + 4 * of_nat (length vs)) 1 (Some 0))"
    let ?p' = "p(length ?E + 1 := ?c1, ?n - 1 := ?h, ?n := ?c2, ?n + 1 := v)"
    have n: "?n = length ?E + 3 + length vs" using L(2) ws(1) by simp
    have idx: "unat (seg_pw s - 1) = ?n - 1" "unat (seg_last s - 1) = length ?E" "unat (seg_pw s + 1) = ?n + 1"
        "unat (seg_pw s + 2) = ?n + 2"
      using n L(1) room unat_diff32 [of 1 "seg_pw s"] unat_diff32 [of 1 "seg_last s"]
        unat_add_no_wrap [of "seg_pw s" 1] unat_add_no_wrap [of "seg_pw s" 2]
      by (auto simp: word_le32)
    have nw: "hdr_nw (p (unat (seg_last s))) = of_nat (length vs + 1)" "hdr_addr (p (unat (seg_last s))) = a"
      using hf L(4) ws(1) by simp_all
    have "unat (of_nat (length vs + 1) :: u32) = length vs + 1" using ws(3) by (intro unat_of_nat32) simp
    then have gt: "1 < (of_nat (length vs + 1) :: u32)" using ws(2) by (simp only: word_less32) auto
    have c1: "cpe_ctrl_word (a OR push_bit 20 (of_nat (length vs + 1) - 2)) = ?c1"
    proof -
      have "(of_nat (length vs + 1) :: u32) - 2 = of_nat (length vs - 1)" using ws(2) by (simp add: of_nat_diff)
      then show ?thesis using enc_ctrl_plain [OF ok(1) ws(2)] ws(3) by simp
    qed
    have c2: "cpe_ctrl_word (((a + 4 * (of_nat (length vs + 1) - 1)) AND 0xFFFFF) OR push_bit 22 0x2) = ?c2"
      by (simp add: enc_ctrl_def)
    have d: "p (?n - 1) = v" using load_nth [OF ld, of "?n - 1"] n by (simp add: ws(1) nth_append)
    have "rt_cpe_seg_finish s p = (seg_pw s + 2, s\<lparr>seg_pw := seg_pw s + 2, seg_last := seg_pw s\<rparr>, ?p')"
      unfolding rt_cpe_seg_finish_def Let_def nw idx c1 c2 d
      using gt L(1,3,5) n by (auto simp: fun_eq_iff simp del: of_nat_add of_nat_Suc)
    moreover have "load ?p' 0 (unat (seg_pw s + 2)) = enc_all sid (ack_last accs)"
      unfolding idx split_last_load [OF ld [unfolded ws(1)] n]
      using ws by (auto simp: ack_last_def snoc x)
    moreover have "same_outside 0 (?n + 2) p ?p'" using n by (simp add: same_outside_def)
    ultimately show thesis using idx(4) by (intro that) auto
  qed
qed

section \<open>A whole segment\<close>

lemma seg_inv_reset: "seg_inv sid (rt_cpe_seg_reset s) p []"
  by (simp add: seg_inv_def rt_cpe_seg_reset_def)

lemma session_accesses_Cons:
  "session_accesses ((off, data, n) # reqs) accs = session_accesses reqs (add_words off (load data 0 (unat n)) accs)"
  by (simp add: session_accesses_def)

lemma seg_session_refines:
  assumes "unat cap \<le> 2 ^ 31" "seg_inv sid s p accs" "unat (seg_pw s) + 2 \<le> unat cap"
    and "seg_session cap sid reqs s p = Some (s', p')"
  shows "seg_inv sid s' p' (session_accesses reqs accs) \<and> unat (seg_pw s') + 2 \<le> unat cap \<and> same_outside 0 (unat cap) p p'"
  using assms(2-4)
proof (induction reqs arbitrary: s p accs)
  case (Cons req reqs)
  obtain off data n where req: "req = (off, data, n)" by (cases req)
  let ?ws = "load data 0 (unat n)"
  obtain ok s1 p1 k where w: "rt_cpe_seg_write s p cap sid off data n = (ok, s1, p1)"
    and k: "ok = (k = length ?ws)" and inv: "seg_inv sid s1 p1 (add_words off (take k ?ws) accs)"
    and fit: "unat (seg_pw s1) + 2 \<le> unat cap" and fr: "same_outside 0 (unat cap) p p1"
    using seg_write_words_refines [OF assms(1) Cons.prems(1,2)] unfolding rt_cpe_seg_write_def by metis
  have ok: ok and rest: "seg_session cap sid reqs s1 p1 = Some (s', p')"
    using Cons.prems(3) w by (auto simp: req split: if_splits)
  from Cons.IH [OF inv fit rest] ok k fr show ?case
    by (auto simp: req session_accesses_Cons intro: same_outside_trans)
qed (simp add: session_accesses_def)

lemma session_writes:
  "concat (map access_writes (session_accesses reqs accs)) = concat (map access_writes accs) @ concat (map request_writes reqs)"
proof (induction reqs arbitrary: accs)
  case (Cons req reqs)
  obtain off data n where req: "req = (off, data, n)" by (cases req)
  show ?case by (simp add: req session_accesses_Cons Cons.IH add_words_writes mem_simps)
qed (simp add: session_accesses_def)

lemma seg_session_enough:
  assumes "unat cap \<le> 2 ^ 31" "seg_inv sid s p accs"
    and "unat (seg_pw s) + 3 * sum_list (map (\<lambda>(_, _, n). unat n) reqs) + 2 \<le> unat cap"
  shows "seg_session cap sid reqs s p \<noteq> None"
  using assms(2,3)
proof (induction reqs arbitrary: s p accs)
  case (Cons req reqs)
  obtain off data n where req: "req = (off, data, n)" by (cases req)
  let ?ws = "load data 0 (unat n)"
  have fit: "unat (seg_pw s) + 2 \<le> unat cap" and fit1: "unat (seg_pw s) + 3 * length ?ws + 2 \<le> unat cap"
    using Cons.prems(2) by (simp_all add: req)
  obtain s1 p1 k where "rt_cpe_seg_write s p cap sid off data n = (True, s1, p1)"
    "seg_inv sid s1 p1 (add_words off (take k ?ws) accs)" "k \<le> length ?ws" "unat (seg_pw s1) \<le> unat (seg_pw s) + 3 * k"
    using seg_write_words_refines [OF assms(1) Cons.prems(1) fit, of off ?ws] fit1 unfolding rt_cpe_seg_write_def by metis
  with Cons.IH [of s1 p1] Cons.prems(2) show ?case by (simp add: req)
qed simp

text \<open>The packets of a finished segment.\<close>

lemma seg_session_packets:
  fixes cap :: u32
  assumes "2 \<le> unat cap" "unat cap \<le> 2 ^ 31"
    and "seg_session cap sid reqs (rt_cpe_seg_reset s0) p0 = Some (s, p)"
    and "rt_cpe_seg_finish s p = (r, s', p')"
  shows "load p' 0 (unat r) = enc_all sid (ack_last (session_accesses reqs []))" "list_all seg_access_ok (session_accesses reqs [])"
    "unat r \<le> unat cap" "same_outside 0 (unat cap) p0 p'"
proof -
  have inv: "seg_inv sid s p (session_accesses reqs [])"
    and fit: "unat (seg_pw s) + 2 \<le> unat cap" and fr: "same_outside 0 (unat cap) p0 p"
    using seg_session_refines [OF assms(2) seg_inv_reset _ assms(3)] assms(1) by (auto simp: rt_cpe_seg_reset_def)
  then show "list_all seg_access_ok (session_accesses reqs [])" by (simp add: seg_inv_def)
  have room: "unat (seg_pw s) + 2 \<le> 2 ^ 31" using fit assms(2) by simp
  have F: "load p' 0 (unat r) = enc_all sid (ack_last (session_accesses reqs []))" "unat r \<le> unat (seg_pw s) + 2"
    "same_outside 0 (unat (seg_pw s) + 2) p p'"
    using seg_finish_refines [OF inv room] assms(4) by auto
  then show "load p' 0 (unat r) = enc_all sid (ack_last (session_accesses reqs []))" by simp
  show "unat r \<le> unat cap" using F(2) fit by simp
  show "same_outside 0 (unat cap) p0 p'"
    using fr F(3) fit by (auto elim: same_outside_mono intro: same_outside_trans)
qed

lemma aligned_add: "unat a mod 4 = 0 \<Longrightarrow> unat (a + 4 * of_nat n :: u32) mod 4 = 0"
proof -
  assume "unat a mod 4 = 0"
  then have "(unat a + 4 * n) mod 4 = 0" by presburger
  moreover have "unat (a + 4 * of_nat n :: u32) mod 4 = (unat a + 4 * n) mod 4"
    by (simp add: unat_word_ariths unat_of_nat mod_mod_cancel mod_simps take_bit_eq_mod)
  ultimately show ?thesis by simp
qed

lemma aligned_mask: "unat a mod 4 = 0 \<Longrightarrow> unat (a AND 0xFFFFF :: u32) mod 4 = 0"
  by (simp add: field_simps32 unsigned_take_bit_eq take_bit_eq_mod unat_mod mod_mod_cancel)

lemma mod16_mask: "unat (a AND 0xFFFFF :: u32) mod 16 = unat a mod 16"
  by (simp add: field_simps32 unsigned_take_bit_eq take_bit_eq_mod unat_mod mod_mod_cancel)

lemma aligned_add_words:
  assumes "unat off mod 4 = 0" "list_all (\<lambda>(a, _). unat a mod 4 = 0) accs"
  shows "list_all (\<lambda>(a, _). unat a mod 4 = 0) (add_words off ws accs)"
  using assms
proof (induction ws arbitrary: off accs)
  case (Cons w ws)
  have "list_all (\<lambda>(a, _). unat a mod 4 = 0) (add_word off w accs)"
  proof (cases "joins off accs")
    case True
    then have "accs \<noteq> []" by (simp add: joins_def)
    with Cons.prems(2) have "\<forall>x\<in>set (butlast accs). case x of (a, _) \<Rightarrow> unat a mod 4 = 0" "case last accs of (a, _) \<Rightarrow> unat a mod 4 = 0"
      by (auto simp: list_all_iff dest: in_set_butlastD)
    with True show ?thesis by (auto simp: add_word_def list_all_iff split: prod.splits)
  next
    case False
    with Cons.prems aligned_mask show ?thesis by (simp add: add_word_def)
  qed
  moreover have "unat (off + 4) mod 4 = 0" using aligned_add [OF Cons.prems(1), of 1] by simp
  ultimately show ?case using Cons.IH by simp
qed simp

lemma aligned_session:
  assumes "list_all (\<lambda>(off, _). unat off mod 4 = 0) reqs" "list_all (\<lambda>(a, _). unat a mod 4 = 0) accs"
  shows "list_all (\<lambda>(a, _). unat a mod 4 = 0) (session_accesses reqs accs)"
  using assms
proof (induction reqs arbitrary: accs)
  case (Cons req reqs)
  obtain off data n where req: "req = (off, data, n)" by (cases req)
  with Cons show ?case by (auto simp: session_accesses_Cons intro!: Cons.IH aligned_add_words)
qed (simp add: session_accesses_def)

lemma words_to_boundary_aligned:
  assumes "unat a mod 4 = 0" "n \<le> unat (cpe_words_to_boundary a)"
  shows "unat a mod 16 + 4 * n \<le> 16"
proof -
  have m: "unat (a AND 0xF) = unat a mod 16"
    by (simp add: field_simps32 unsigned_take_bit_eq take_bit_eq_mod unat_mod)
  then have "unat (16 - (a AND 0xF)) = 16 - unat a mod 16"
    by (subst unat_diff32) (simp_all add: word_le32)
  then have w: "unat ((16 - (a AND 0xF)) div 4) = (16 - unat a mod 16) div 4" by (simp add: unat_div)
  have "unat a mod 16 < 16" "unat a mod 16 mod 4 = 0" using assms(1) by (simp_all add: mod_mod_cancel)
  then have "unat a mod 16 \<le> 12" by presburger
  with w have "unat (cpe_words_to_boundary a) = (16 - unat a mod 16) div 4"
    by (auto simp: cpe_words_to_boundary_def Let_def)
  with assms(2) \<open>unat a mod 16 \<le> 12\<close> show ?thesis by simp
qed

lemma ack_last_lines:
  assumes "list_all seg_access_ok accs" "list_all (\<lambda>(a, _). unat a mod 4 = 0) accs"
  shows "list_all one_line (ack_last accs)"
proof (cases accs rule: rev_cases)
  case (snoc xs x)
  have line: "one_line y" if "y \<in> set accs" for y
  proof -
    obtain a ws ack where y: "y = (a, ws, ack)" by (cases y)
    have "unat a mod 4 = 0" "length ws \<le> unat (cpe_words_to_boundary a)"
      using that assms y by (auto simp: list_all_iff)
    from words_to_boundary_aligned [OF this] show ?thesis by (simp add: y mod16_mask)
  qed
  obtain a ws ack where x: "x = (a, ws, ack)" by (cases x)
  have lx: "unat a mod 16 + 4 * length ws \<le> 16" using line [of x] by (simp add: snoc x mod16_mask)
  have "one_line (a + 4 * of_nat (length ws - 1), [last ws], Some 0)" if "2 \<le> length ws"
  proof -
    have "unat (a + 4 * of_nat (length ws - 1) :: u32) mod 16 = (unat a + 4 * (length ws - 1)) mod 16"
      by (simp add: unat_word_ariths unat_of_nat mod_mod_cancel mod_simps take_bit_eq_mod del: of_nat_diff)
    also have "\<dots> = (unat a mod 16 + 4 * (length ws - 1)) mod 16" by (simp add: mod_simps)
    also have "\<dots> = unat a mod 16 + 4 * (length ws - 1)" using lx that by (intro mod_less) linarith
    finally show ?thesis using lx that by (simp add: mod16_mask)
  qed
  moreover have "one_line (a, butlast ws, None)" "one_line (a, ws, Some 0)" using lx by (simp_all add: mod16_mask)
  moreover have "2 \<le> length ws" if "length ws \<noteq> 1"
    using that assms(1) by (cases ws; cases "tl ws") (auto simp: snoc x)
  ultimately show ?thesis
    using line by (auto simp: ack_last_def snoc x list_all_iff simp del: one_line.simps)
qed (simp add: ack_last_def)

lemma decoded_lines:
  assumes "list_all access_ok accs" "list_all one_line accs"
  shows "list_all (\<lambda>x. unat (acc_addr x) mod 16 + 4 * length (acc_words x) \<le> 16) (cpd_array i (enc_all sid accs))"
proof -
  let ?P = "\<lambda>(id, op, a, ws, bad). unat (a :: u32) mod 16 + 4 * length (ws :: u32 list) \<le> 16"
  have "list_all ?P (map acc_view (cpd_array i (enc_all sid accs)))"
    unfolding cpd_array_enc [OF assms(1)] using assms(2) by (auto simp: list_all_iff)
  then show ?thesis by (simp add: list_all_iff acc_view_def)
qed

text \<open>
  C5. Building a segment: after a reset, any sequence of successful \<open>rt_cpe_seg_write\<close> calls followed by
  \<open>rt_cpe_seg_finish\<close> leaves packets that decode to exactly the requested register writes, in order, with good parity
  and the right packet id, however the words were merged into accesses and whatever the last one was split into. The
  builder and the final split stay inside the \<open>cap\<close> words of the buffer.
\<close>

theorem seg_session_roundtrip:
  fixes cap :: u32
  assumes "2 \<le> unat cap" "unat cap \<le> 2 ^ 31"
    and "seg_session cap sid reqs (rt_cpe_seg_reset s0) p0 = Some (s, p)"
    and "rt_cpe_seg_finish s p = (r, s', p')"
  shows "unat r \<le> unat cap \<and> same_outside 0 (unat cap) p0 p' \<and>
     decoded_writes (cpd_array 0 (load p' 0 (unat r))) = concat (map request_writes reqs) \<and>
     list_all (\<lambda>x. \<not> acc_bad x \<and> acc_id x = sid AND 0x1F) (cpd_array 0 (load p' 0 (unat r)))"
proof -
  note P = seg_session_packets [OF assms]
  note ok = ack_last_ok [OF P(2)]
  have "decoded_writes (cpd_array 0 (load p' 0 (unat r))) = concat (map request_writes reqs)"
    by (simp only: P(1) decoded_writes_enc [OF ok] ack_last_writes [OF P(2)] session_writes list.map concat.simps append_Nil)
  moreover have "list_all (\<lambda>x. \<not> acc_bad x \<and> acc_id x = sid AND 0x1F) (cpd_array 0 (load p' 0 (unat r)))"
    unfolding P(1) by (rule cpd_array_enc_fields(2) [OF ok])
  ultimately show ?thesis using P(3,4) by simp
qed

lemma sample_segment_ok:
  "seg_session 64 5 sample_requests (rt_cpe_seg_reset \<lparr>seg_pw = 1, seg_last = 2, seg_last_ctrl = 0\<rparr>) (\<lambda>_. 0) =
     Some (fst sample_segment, snd sample_segment)"
proof -
  have "seg_session 64 5 sample_requests (rt_cpe_seg_reset \<lparr>seg_pw = 1, seg_last = 2, seg_last_ctrl = 0\<rparr>) (\<lambda>_. 0) \<noteq> None"
    by (rule seg_session_enough [OF _ seg_inv_reset]) (simp_all add: sample_requests_def rt_cpe_seg_reset_def)
  then show ?thesis by (auto simp: sample_segment_def)
qed

theorem seg_session_roundtrip_witness:
  "\<exists>r s' p'. rt_cpe_seg_finish (fst sample_segment) (snd sample_segment) = (r, s', p') \<and>
     decoded_writes (cpd_array 0 (load p' 0 (unat r))) =
       [(0x1D000, 0), (0x1D004, 1), (0x1D008, 2), (0x1D00C, 7), (0x1D010, 9), (0x1D014, 9)]"
proof -
  obtain r s' p' where f: "rt_cpe_seg_finish (fst sample_segment) (snd sample_segment) = (r, s', p')"
    by (cases "rt_cpe_seg_finish (fst sample_segment) (snd sample_segment)")
  have "concat (map request_writes sample_requests) =
      [(0x1D000, 0), (0x1D004, 1), (0x1D008, 2), (0x1D00C, 7), (0x1D010, 9), (0x1D014, 9)]" by (simp add: sample_requests_def upt_rec)
  with seg_session_roundtrip [OF _ _ sample_segment_ok f] f show ?thesis by simp
qed

text \<open>
  C6. When every request starts at a word address, no access of a finished segment crosses a 16-byte line: the
  decoded address within its line plus the bytes it carries is at most 16.
\<close>

theorem seg_session_lines:
  fixes cap :: u32
  assumes "2 \<le> unat cap" "unat cap \<le> 2 ^ 31"
    and "seg_session cap sid reqs (rt_cpe_seg_reset s0) p0 = Some (s, p)"
    and "rt_cpe_seg_finish s p = (r, s', p')"
    and "list_all (\<lambda>(off, _). unat off mod 4 = 0) reqs"
  shows "list_all (\<lambda>x. unat (acc_addr x) mod 16 + 4 * length (acc_words x) \<le> 16) (cpd_array 0 (load p' 0 (unat r)))"
proof -
  note P = seg_session_packets [OF assms(1-4)]
  have "list_all (\<lambda>(a, _). unat a mod 4 = 0) (session_accesses reqs [])"
    by (rule aligned_session [OF assms(5)]) simp
  from decoded_lines [OF ack_last_ok [OF P(2)] ack_last_lines [OF P(2) this]] show ?thesis
    unfolding P(1) .
qed

theorem seg_session_lines_witness:
  "\<exists>r s' p'. rt_cpe_seg_finish (fst sample_segment) (snd sample_segment) = (r, s', p') \<and>
     list_all (\<lambda>x. unat (acc_addr x) mod 16 + 4 * length (acc_words x) \<le> 16) (cpd_array 0 (load p' 0 (unat r)))"
proof -
  obtain r s' p' where f: "rt_cpe_seg_finish (fst sample_segment) (snd sample_segment) = (r, s', p')"
    by (cases "rt_cpe_seg_finish (fst sample_segment) (snd sample_segment)")
  have "list_all (\<lambda>(off, _). unat off mod 4 = 0) sample_requests" by (simp add: sample_requests_def)
  with seg_session_lines [OF _ _ sample_segment_ok f] f show ?thesis by simp
qed

text \<open>
  C7. A segment whose buffer has three words for every data word, plus two, never runs out of space: all the
  calls of \<open>rt_cpe_seg_write\<close> return 0.
\<close>

theorem seg_session_succeeds:
  fixes cap :: u32
  assumes "3 * sum_list (map (\<lambda>(_, _, n). unat n) reqs) + 2 \<le> unat cap" "unat cap \<le> 2 ^ 31"
  shows "\<exists>s p. seg_session cap sid reqs (rt_cpe_seg_reset s0) p0 = Some (s, p)"
proof -
  have "seg_session cap sid reqs (rt_cpe_seg_reset s0) p0 \<noteq> None"
    by (rule seg_session_enough [OF assms(2) seg_inv_reset]) (use assms(1) in \<open>simp add: rt_cpe_seg_reset_def\<close>)
  then show ?thesis by auto
qed

theorem seg_session_succeeds_witness:
  "\<exists>s p. seg_session 20 5 sample_requests (rt_cpe_seg_reset \<lparr>seg_pw = 1, seg_last = 2, seg_last_ctrl = 0\<rparr>) (\<lambda>_. 0) = Some (s, p)"
  by (rule seg_session_succeeds) (simp_all add: sample_requests_def)

end
