(* ===== verification/CtrlpktSplit.thy ===== *)
theory CtrlpktSplit
  imports AiePrelude
begin

text \<open>
  Splitting return-route register writes into broadcast and per-tile ones, \<open>rt_cpe_ret_split\<close> of
  \<open>src/mlir/runtime/aie_ctrlpkt_encode.c\<close>. The array of writes is a list, whose length is below \<open>2^32\<close> as the
  counter \<open>n\<close> is 32 bits wide.
\<close>

section \<open>Splitting return-route writes\<close>

definition RT_CPE_WR_UNDECIDED :: u8 where "RT_CPE_WR_UNDECIDED = 0"
definition RT_CPE_WR_BCAST :: u8 where "RT_CPE_WR_BCAST = 1"
definition RT_CPE_WR_MMIO :: u8 where "RT_CPE_WR_MMIO = 2"
definition CPE_RET_MAX_ROWS :: u8 where "CPE_RET_MAX_ROWS = 16"
definition CPE_RET_MAX_COLS :: u8 where "CPE_RET_MAX_COLS = 64"

record rt_cpe_wr =
  wr_col :: u8
  wr_row :: u8
  wr_off :: u32
  wr_val :: u32
  wr_state :: u8

text \<open>The loop of \<open>cpe_ret_uniform\<close>: \<^const>\<open>None\<close> is its \<open>return 0\<close>.\<close>

primrec cpe_ret_hits :: "rt_cpe_wr \<Rightarrow> rt_cpe_wr list \<Rightarrow> (u8 \<Rightarrow> u64) \<Rightarrow> u32 \<Rightarrow> u32 option" where
  "cpe_ret_hits a [] seen hits = Some hits"
| "cpe_ret_hits a (b # bs) seen hits =
     (if wr_off b \<noteq> wr_off a then cpe_ret_hits a bs seen hits
      else if wr_val b \<noteq> wr_val a \<or> wr_row b > CPE_RET_MAX_ROWS \<or> wr_col b \<ge> CPE_RET_MAX_COLS \<or>
              drop_bit (unat (wr_col b)) (seen (wr_row b)) AND 1 \<noteq> 0 then None
      else cpe_ret_hits a bs
             (seen(wr_row b := seen (wr_row b) OR push_bit (unat (wr_col b)) 1)) (hits + 1))"

definition cpe_ret_uniform :: "rt_cpe_wr list \<Rightarrow> nat \<Rightarrow> u32 \<Rightarrow> bool" where
  "cpe_ret_uniform wr i ntiles =
     (cpe_ret_hits (wr ! i) (drop i wr) (\<lambda>_. 0) 0 = Some ntiles)"

text \<open>
  One iteration of \<open>rt_cpe_ret_split\<close>; the pairs are \<open>bc_off\<close> and \<open>bc_val\<close>, whose length is
  \<open>nb\<close>.
\<close>

definition ret_split_step ::
  "u32 \<Rightarrow> u32 \<Rightarrow> nat \<Rightarrow> rt_cpe_wr list \<times> (u32 \<times> u32) list \<Rightarrow> rt_cpe_wr list \<times> (u32 \<times> u32) list"
where
  "ret_split_step ntiles mx i st =
     (case st of (wr, bc) \<Rightarrow>
        if wr_state (wr ! i) \<noteq> RT_CPE_WR_UNDECIDED then (wr, bc)
        else
          let ok = (length bc < unat mx \<and> cpe_ret_uniform wr i ntiles);
              kind = (if ok then RT_CPE_WR_BCAST else RT_CPE_WR_MMIO);
              bc' = (if ok then bc @ [(wr_off (wr ! i), wr_val (wr ! i))] else bc);
              wr' = take i wr @ map (\<lambda>w. if wr_off w = wr_off (wr ! i) then w\<lparr>wr_state := kind\<rparr> else w) (drop i wr)
          in (wr', bc'))"

definition rt_cpe_ret_split :: "rt_cpe_wr list \<Rightarrow> u32 \<Rightarrow> u32 \<Rightarrow> rt_cpe_wr list \<times> (u32 \<times> u32) list" where
  "rt_cpe_ret_split wr ntiles mx = fold (ret_split_step ntiles mx) [0..<length wr] (wr, [])"


section \<open>Broadcast-safe offsets\<close>

text \<open>
  The condition the header file states: every write to the offset carries the same value and each of the
  \<open>ntiles\<close> consumer tiles receives it exactly once (with tile coordinates inside the bitmap).
\<close>

definition writes_to :: "u32 \<Rightarrow> rt_cpe_wr list \<Rightarrow> rt_cpe_wr list" where
  "writes_to off wr = filter (\<lambda>w. wr_off w = off) wr"

definition in_bitmap :: "rt_cpe_wr \<Rightarrow> bool" where
  "in_bitmap w = (wr_row w \<le> CPE_RET_MAX_ROWS \<and> wr_col w < CPE_RET_MAX_COLS)"

definition broadcast_safe :: "rt_cpe_wr list \<Rightarrow> u32 \<Rightarrow> u32 \<Rightarrow> u32 \<Rightarrow> bool" where
  "broadcast_safe wr ntiles off val =
     (list_all (\<lambda>w. wr_val w = val \<and> in_bitmap w) (writes_to off wr) \<and>
      distinct (map (\<lambda>w. (wr_col w, wr_row w)) (writes_to off wr)) \<and>
      length (writes_to off wr) = unat ntiles)"

definition seen_is :: "(u8 \<Rightarrow> u64) \<Rightarrow> (u8 \<times> u8) set \<Rightarrow> bool" where
  "seen_is seen S = (\<forall>r c. unat c < 64 \<longrightarrow> bit (seen r) (unat c) = ((c, r) \<in> S))"

definition split_state :: "rt_cpe_wr list \<Rightarrow> nat \<Rightarrow> (u32 \<times> u32) list \<Rightarrow> rt_cpe_wr \<Rightarrow> u8" where
  "split_state wr i bc w =
     (if wr_off w \<in> fst ` set bc then RT_CPE_WR_BCAST
      else if wr_off w \<in> wr_off ` set (take i wr) then RT_CPE_WR_MMIO else RT_CPE_WR_UNDECIDED)"

definition split_inv :: "rt_cpe_wr list \<Rightarrow> u32 \<Rightarrow> u32 \<Rightarrow> nat \<Rightarrow> rt_cpe_wr list \<times> (u32 \<times> u32) list \<Rightarrow> bool" where
  "split_inv wr ntiles mx i st =
     (case st of (wr', bc) \<Rightarrow>
        wr' = map (\<lambda>w. w\<lparr>wr_state := split_state wr i bc w\<rparr>) wr \<and>
        fst ` set bc \<subseteq> wr_off ` set (take i wr) \<and> distinct (map fst bc) \<and> length bc \<le> unat mx \<and>
        (\<forall>(off, val)\<in>set bc. broadcast_safe wr ntiles off val) \<and>
        (length bc < unat mx \<longrightarrow>
           (\<forall>w\<in>set (take i wr). broadcast_safe wr ntiles (wr_off w) (wr_val w) \<longrightarrow> wr_off w \<in> fst ` set bc)))"

definition sample_wr :: "rt_cpe_wr list" where
  "sample_wr = [\<lparr>wr_col = 1, wr_row = 3, wr_off = 0x3F000, wr_val = 7, wr_state = 0\<rparr>,
                \<lparr>wr_col = 2, wr_row = 3, wr_off = 0x3F000, wr_val = 7, wr_state = 0\<rparr>,
                \<lparr>wr_col = 1, wr_row = 3, wr_off = 0x3F004, wr_val = 1, wr_state = 0\<rparr>,
                \<lparr>wr_col = 2, wr_row = 3, wr_off = 0x3F004, wr_val = 2, wr_state = 0\<rparr>]"

lemma seen_test: "(drop_bit n (x :: u64) AND 1 \<noteq> 0) = bit x n"
  by (simp add: and_one_eq bit_iff_odd_drop_bit odd_iff_mod_2_eq_one)

lemma max_cols: "(c < CPE_RET_MAX_COLS) = (unat c < 64)" "(c \<ge> CPE_RET_MAX_COLS) = (\<not> unat c < 64)"
  by (simp_all add: CPE_RET_MAX_COLS_def word_less_nat_alt word_le_nat_alt not_less)

lemma seen_upd:
  assumes "seen_is seen S" "unat c < 64"
  shows "seen_is (seen(r := seen r OR push_bit (unat c) 1)) (insert (c, r) S)"
  using assms by (auto simp: seen_is_def bit_simps dest: unsigned_word_eqI)

lemma ret_hits_spec:
  fixes a :: rt_cpe_wr
  assumes "seen_is seen S"
  defines "T \<equiv> \<lambda>bs. map (\<lambda>w. (wr_col w, wr_row w)) (writes_to (wr_off a) bs)"
  shows "cpe_ret_hits a bs seen hits =
     (if list_all (\<lambda>w. wr_val w = wr_val a \<and> in_bitmap w) (writes_to (wr_off a) bs) \<and> distinct (T bs) \<and> set (T bs) \<inter> S = {}
      then Some (hits + of_nat (length (writes_to (wr_off a) bs))) else None)"
  using assms(1)
proof (induction bs arbitrary: seen S hits)
  case (Cons b bs)
  show ?case
  proof (cases "wr_off b = wr_off a \<and> wr_val b = wr_val a \<and> in_bitmap b")
    case False
    then show ?thesis using Cons.IH [OF Cons.prems]
      by (auto simp: T_def writes_to_def in_bitmap_def)
  next
    case True
    then have c: "unat (wr_col b) < 64" by (simp add: in_bitmap_def max_cols)
    have seen: "(drop_bit (unat (wr_col b)) (seen (wr_row b)) AND 1 \<noteq> 0) = ((wr_col b, wr_row b) \<in> S)"
      unfolding seen_test using Cons.prems c by (simp add: seen_is_def)
    have T: "T (b # bs) = (wr_col b, wr_row b) # T bs" using True by (simp add: T_def writes_to_def)
    show ?thesis
    proof (cases "(wr_col b, wr_row b) \<in> S")
      case True
      then show ?thesis using \<open>_ \<and> _ \<and> in_bitmap b\<close> seen by (simp add: T)
    next
      case False
      with True seen have step: "cpe_ret_hits a (b # bs) seen hits = cpe_ret_hits a bs
          (seen(wr_row b := seen (wr_row b) OR push_bit (unat (wr_col b)) 1)) (hits + 1)"
        by (auto simp: in_bitmap_def max_cols)
      show ?thesis unfolding step Cons.IH [OF seen_upd [OF Cons.prems c]] T
        using True False by (auto simp: writes_to_def)
    qed
  qed
qed (simp add: T_def writes_to_def)

lemma seen_empty: "seen_is (\<lambda>_. 0) {}"
  by (simp add: seen_is_def)

text \<open>Changing states does not change what is written where.\<close>

lemma writes_to_state:
  "list_all P (writes_to off (map (\<lambda>w. w\<lparr>wr_state := f w\<rparr>) wr)) = list_all (\<lambda>w. P (w\<lparr>wr_state := f w\<rparr>)) (writes_to off wr)"
  "map (\<lambda>w. (wr_col w, wr_row w)) (writes_to off (map (\<lambda>w. w\<lparr>wr_state := f w\<rparr>) wr)) = map (\<lambda>w. (wr_col w, wr_row w)) (writes_to off wr)"
  "length (writes_to off (map (\<lambda>w. w\<lparr>wr_state := f w\<rparr>) wr)) = length (writes_to off wr)"
  by (induction wr) (auto simp: writes_to_def)

lemma broadcast_safe_state:
  "broadcast_safe (map (\<lambda>w. w\<lparr>wr_state := f w\<rparr>) wr) ntiles off val = broadcast_safe wr ntiles off val"
  by (simp only: broadcast_safe_def writes_to_state) (simp add: in_bitmap_def)

lemma ret_uniform_safe:
  assumes "i < length wr" "length wr < 2 ^ 32" "wr_off (wr ! i) \<notin> wr_off ` set (take i wr)"
  shows "cpe_ret_uniform wr i ntiles = broadcast_safe wr ntiles (wr_off (wr ! i)) (wr_val (wr ! i))"
proof -
  have "writes_to (wr_off (wr ! i)) wr = writes_to (wr_off (wr ! i)) (take i wr) @ writes_to (wr_off (wr ! i)) (drop i wr)"
    by (metis append_take_drop_id filter_append writes_to_def)
  moreover have "writes_to (wr_off (wr ! i)) (take i wr) = []"
    using assms(3) by (auto simp: writes_to_def filter_empty_conv intro: rev_image_eqI)
  ultimately have w: "writes_to (wr_off (wr ! i)) (drop i wr) = writes_to (wr_off (wr ! i)) wr" by simp
  have "length (writes_to (wr_off (wr ! i)) wr) < 2 ^ 32"
    using le_less_trans [OF length_filter_le assms(2)] by (simp add: writes_to_def)
  then have "(of_nat (length (writes_to (wr_off (wr ! i)) wr)) = ntiles) = (length (writes_to (wr_off (wr ! i)) wr) = unat ntiles)"
    by (metis of_nat_unat32 unat_of_nat32)
  then show ?thesis
    by (auto simp: cpe_ret_uniform_def ret_hits_spec [OF seen_empty] w broadcast_safe_def)
qed

lemma split_step_inv:
  assumes inv: "split_inv wr ntiles mx i (wr1, bc)" and i: "i < length wr" and n: "length wr < 2 ^ 32"
  shows "split_inv wr ntiles mx (Suc i) (ret_split_step ntiles mx i (wr1, bc))"
proof -
  have wr1: "wr1 = map (\<lambda>w. w\<lparr>wr_state := split_state wr i bc w\<rparr>) wr" using inv by (simp add: split_inv_def)
  have at: "wr1 ! i = (wr ! i)\<lparr>wr_state := split_state wr i bc (wr ! i)\<rparr>" using i by (simp add: wr1)
  have tk: "set (take (Suc i) wr) = insert (wr ! i) (set (take i wr))" using i by (auto simp: take_Suc_conv_app_nth)
  show ?thesis
  proof (cases "wr_off (wr ! i) \<in> wr_off ` set (take i wr)")
    case True
    then have st: "split_state wr i bc (wr ! i) \<noteq> RT_CPE_WR_UNDECIDED"
      by (auto simp: split_state_def RT_CPE_WR_BCAST_def RT_CPE_WR_MMIO_def RT_CPE_WR_UNDECIDED_def)
    have same: "split_state wr (Suc i) bc = split_state wr i bc"
      using True by (auto simp: split_state_def tk fun_eq_iff)
    have "wr_off (wr ! i) \<in> fst ` set bc"
      if "length bc < unat mx" "broadcast_safe wr ntiles (wr_off (wr ! i)) (wr_val (wr ! i))"
    proof -
      obtain w where w: "w \<in> set (take i wr)" "wr_off w = wr_off (wr ! i)" using True by auto
      then have v: "wr_val w = wr_val (wr ! i)"
        using that(2) by (auto simp: broadcast_safe_def list_all_iff writes_to_def dest: in_set_takeD)
      have "\<forall>w\<in>set (take i wr). broadcast_safe wr ntiles (wr_off w) (wr_val w) \<longrightarrow> wr_off w \<in> fst ` set bc"
        using inv that(1) by (simp add: split_inv_def)
      with w v that(2) show ?thesis by metis
    qed
    moreover have "ret_split_step ntiles mx i (wr1, bc) = (wr1, bc)" using st by (simp add: ret_split_step_def at)
    ultimately show ?thesis
      using inv by (auto simp: split_inv_def same tk)
  next
    case False
    let ?o = "wr_off (wr ! i)" and ?v = "wr_val (wr ! i)"
    have nbc: "?o \<notin> fst ` set bc" using False inv by (auto simp: split_inv_def)
    then have st: "split_state wr i bc (wr ! i) = RT_CPE_WR_UNDECIDED" using False by (simp add: split_state_def)
    have off1: "wr_off ` set (take i wr1) = wr_off ` set (take i wr)" by (simp add: wr1 take_map image_image)
    have uni: "cpe_ret_uniform wr1 i ntiles = broadcast_safe wr ntiles ?o ?v"
      using ret_uniform_safe [of i wr1] False i n off1 by (simp add: at broadcast_safe_state wr1)
    define ok where "ok = (length bc < unat mx \<and> broadcast_safe wr ntiles ?o ?v)"
    define bc' where "bc' = (if ok then bc @ [(?o, ?v)] else bc)"
    let ?g = "\<lambda>w. if wr_off w = ?o then w\<lparr>wr_state := if ok then RT_CPE_WR_BCAST else RT_CPE_WR_MMIO\<rparr> else w"
    have "wr_off w \<noteq> ?o" if "w \<in> set (take i wr1)" for w
      using that False off1 by (metis imageI)
    then have "map ?g (take i wr1) = take i wr1" by (intro map_idI) simp
    moreover have "map ?g wr1 = map ?g (take i wr1) @ map ?g (drop i wr1)" by (simp flip: map_append)
    ultimately have patch: "take i wr1 @ map ?g (drop i wr1) = map ?g wr1" by (simp only:)
    have "?g (w\<lparr>wr_state := split_state wr i bc w\<rparr>) = w\<lparr>wr_state := split_state wr (Suc i) bc' w\<rparr>" for w
      using nbc by (auto simp: split_state_def tk bc'_def)
    then have "map ?g wr1 = map (\<lambda>w. w\<lparr>wr_state := split_state wr (Suc i) bc' w\<rparr>) wr"
      unfolding wr1 map_map comp_def by (rule map_cong [OF refl])
    moreover have "ret_split_step ntiles mx i (wr1, bc) = (map ?g wr1, bc')"
      using patch by (simp only: ret_split_step_def prod.case at st uni ok_def [symmetric] bc'_def Let_def rt_cpe_wr.select_convs
        rt_cpe_wr.update_convs rt_cpe_wr.surjective simp_thms if_False) simp
    ultimately have "ret_split_step ntiles mx i (wr1, bc) = (map (\<lambda>w. w\<lparr>wr_state := split_state wr (Suc i) bc' w\<rparr>) wr, bc')"
      by simp
    with inv nbc show ?thesis
      by (auto simp: split_inv_def tk bc'_def ok_def)
  qed
qed

lemma split_fold_inv:
  assumes "length wr < 2 ^ 32" "k \<le> length wr" "split_inv wr ntiles mx 0 st"
  shows "split_inv wr ntiles mx k (fold (ret_split_step ntiles mx) [0..<k] st)"
  using assms(2)
proof (induction k)
  case (Suc k)
  then show ?case
    using split_step_inv [of wr ntiles mx k] assms(1) by (cases "fold (ret_split_step ntiles mx) [0..<k] st") simp
qed (simp add: assms(3))

text \<open>
  C8. \<open>rt_cpe_ret_split\<close> on undecided writes: only the state of an entry changes and every entry is decided; the
  offsets listed for broadcast are distinct, at most \<open>max\<close>, and exactly their entries are marked \<open>BCAST\<close>, all others
  \<open>MMIO\<close>; every listed pair is broadcast-safe (all writes to the offset carry that value and each of the \<open>ntiles\<close> tiles
  receives it exactly once); and if the list is not full, no broadcast-safe offset was left out.
\<close>

theorem ret_split_sound:
  assumes "length wr < 2 ^ 32" "list_all (\<lambda>w. wr_state w = RT_CPE_WR_UNDECIDED) wr"
    and "rt_cpe_ret_split wr ntiles mx = (wr', bc)"
  shows "wr' = map (\<lambda>w. w\<lparr>wr_state := if wr_off w \<in> fst ` set bc then RT_CPE_WR_BCAST else RT_CPE_WR_MMIO\<rparr>) wr \<and>
     distinct (map fst bc) \<and> length bc \<le> unat mx \<and>
     (\<forall>(off, val)\<in>set bc. broadcast_safe wr ntiles off val) \<and>
     (length bc < unat mx \<longrightarrow>
        (\<forall>w\<in>set wr. broadcast_safe wr ntiles (wr_off w) (wr_val w) \<longrightarrow> wr_off w \<in> fst ` set bc))"
proof -
  have "split_inv wr ntiles mx 0 (wr, [])"
    using assms(2) by (auto simp: split_inv_def split_state_def list_all_iff intro!: map_idI [symmetric])
  from split_fold_inv [OF assms(1) le_refl this] assms(3)
  have "split_inv wr ntiles mx (length wr) (wr', bc)" by (simp add: rt_cpe_ret_split_def)
  then show ?thesis by (auto simp: split_inv_def split_state_def)
qed

lemma sample_split:
  "rt_cpe_ret_split sample_wr 2 8 =
     (map (\<lambda>w. w\<lparr>wr_state := if wr_off w = 0x3F000 then 1 else 2\<rparr>) sample_wr, [(0x3F000, 7)])"
  by code_simp

theorem ret_split_sound_witness:
  "broadcast_safe sample_wr 2 0x3F000 7 \<and> \<not> broadcast_safe sample_wr 2 0x3F004 1"
proof -
  have "length sample_wr < 2 ^ 32" "list_all (\<lambda>w. wr_state w = RT_CPE_WR_UNDECIDED) sample_wr"
    by (simp_all add: sample_wr_def RT_CPE_WR_UNDECIDED_def)
  from ret_split_sound [OF this sample_split] show ?thesis
    by (auto simp: sample_wr_def)
qed

end
