(* ===== verification/CtrlResource.thy ===== *)
theory CtrlResource
  imports AiePrelude
begin

text \<open>
  The reservation table of the control plane, \<open>src/mlir/runtime/aie_runtime_resource.c\<close> and its header: the
  stream-switch slots, arbiters and packet ids the control fabric owns, the queries over the table and the masks the
  compiler excludes from its own routing. The lemmas show that the masks cover everything the validation query
  accepts, so that nothing the planner may emit is handed to user traffic.
\<close>

section \<open>Constants\<close>

datatype rt_res_gen = RT_RES_GEN1 | RT_RES_GEN2 | RT_RES_GEN5

definition RT_RES_PORT_WEST :: u8 where "RT_RES_PORT_WEST = 0"
definition RT_RES_PORT_EAST :: u8 where "RT_RES_PORT_EAST = 1"
definition RT_RES_PORT_NORTH :: u8 where "RT_RES_PORT_NORTH = 2"
definition RT_RES_PORT_SOUTH :: u8 where "RT_RES_PORT_SOUTH = 3"
definition RT_RES_PORT_CTRL :: u8 where "RT_RES_PORT_CTRL = 4"
definition RT_RES_ARB_CTRL :: u8 where "RT_RES_ARB_CTRL = 0"
definition RT_RES_ARB_RET :: u8 where "RT_RES_ARB_RET = 1"
definition RT_RES_NUM_SLOTS :: nat where "RT_RES_NUM_SLOTS = 4"
definition RT_RES_MAX_ROW_IDX :: nat where "RT_RES_MAX_ROW_IDX = 3"
definition RT_RES_SLOT_CONSUME :: u8 where "RT_RES_SLOT_CONSUME = 0"
definition RT_RES_SLOT_BCAST :: u8 where "RT_RES_SLOT_BCAST = 1"
definition RT_RES_SLOT_TRANSIT_N :: u8 where "RT_RES_SLOT_TRANSIT_N = 2"
definition RT_RES_SLOT_RET_LOCAL :: u8 where "RT_RES_SLOT_RET_LOCAL = 0"
definition RT_RES_SLOT_RET_TRANSIT :: u8 where "RT_RES_SLOT_RET_TRANSIT = 1"
definition RT_RES_SLOT_RET_NORTH :: u8 where "RT_RES_SLOT_RET_NORTH = 2"
definition RT_RES_MSEL_CONSUME :: nat where "RT_RES_MSEL_CONSUME = 0"
definition RT_RES_MSEL_BCAST :: nat where "RT_RES_MSEL_BCAST = 1"
definition RT_RES_MSEL_TRANSIT_N :: nat where "RT_RES_MSEL_TRANSIT_N = 2"
definition RT_RES_MSEL_RET_LOCAL :: nat where "RT_RES_MSEL_RET_LOCAL = 0"
definition RT_RES_MSEL_RET_TRANSIT :: nat where "RT_RES_MSEL_RET_TRANSIT = 1"
definition RT_RES_MSEL_RET_NORTH :: nat where "RT_RES_MSEL_RET_NORTH = 2"
definition RT_RES_ID_BCAST :: u8 where "RT_RES_ID_BCAST = 0x10"
definition RT_RES_MASK_BCAST :: u8 where "RT_RES_MASK_BCAST = 0x10"
definition RT_RES_ID_TRANSIT :: u8 where "RT_RES_ID_TRANSIT = 0"
definition RT_RES_MASK_CLASS :: u8 where "RT_RES_MASK_CLASS = 0x10"
definition RT_RES_MASK_CONSUME :: u8 where "RT_RES_MASK_CONSUME = 0x17"
definition RT_RES_SHIMROW_BD_LO :: nat where "RT_RES_SHIMROW_BD_LO = 7"
definition RT_RES_SHIMROW_BD_HI :: nat where "RT_RES_SHIMROW_BD_HI = 11"
definition RT_RES_SHIMROW_MAX_COLS :: nat where
  "RT_RES_SHIMROW_MAX_COLS = RT_RES_SHIMROW_BD_HI - RT_RES_SHIMROW_BD_LO + 1"
definition RT_RES_NA :: u8 where "RT_RES_NA = 0xFF"
definition RT_RES_TABLE_MAX :: nat where "RT_RES_TABLE_MAX = 32"

definition RT_MSELEN_CTRL :: u8 where
  "RT_MSELEN_CTRL = push_bit RT_RES_MSEL_CONSUME 1 OR push_bit RT_RES_MSEL_BCAST 1"
definition RT_MSELEN_EAST :: u8 where
  "RT_MSELEN_EAST = push_bit RT_RES_MSEL_CONSUME 1 OR push_bit RT_RES_MSEL_BCAST 1 OR push_bit 3 1"
definition RT_MSELEN_NORTH :: u8 where
  "RT_MSELEN_NORTH = push_bit RT_RES_MSEL_BCAST 1 OR push_bit RT_RES_MSEL_TRANSIT_N 1"
definition RT_MSELEN_RET_HEAD :: u8 where
  "RT_MSELEN_RET_HEAD = push_bit RT_RES_MSEL_RET_LOCAL 1 OR push_bit RT_RES_MSEL_RET_TRANSIT 1 OR push_bit RT_RES_MSEL_RET_NORTH 1"

section \<open>The table\<close>

record rt_res_entry =
  re_port :: u8
  re_is_master :: u8
  re_slot :: u8
  re_arbiter :: u8
  re_msel :: u8
  re_pkt_id :: u8
  re_mask :: u8
  re_is_ret :: u8

definition rt_entry :: "u8 \<Rightarrow> u8 \<Rightarrow> u8 \<Rightarrow> u8 \<Rightarrow> u8 \<Rightarrow> u8 \<Rightarrow> u8 \<Rightarrow> u8 \<Rightarrow> rt_res_entry" where
  "rt_entry p m slot arb msel pkt msk ret =
     \<lparr>re_port = p, re_is_master = m, re_slot = slot, re_arbiter = arb, re_msel = msel, re_pkt_id = pkt,
      re_mask = msk, re_is_ret = ret\<rparr>"

definition rt_res_ingress :: "u8 \<Rightarrow> rt_res_entry list" where
  "rt_res_ingress sp =
     map (\<lambda>rowidx. rt_entry sp 0 RT_RES_SLOT_CONSUME RT_RES_ARB_CTRL (of_nat RT_RES_MSEL_CONSUME) (of_nat rowidx)
                     RT_RES_MASK_CONSUME 0) [0..<RT_RES_MAX_ROW_IDX + 1] @
     [rt_entry sp 0 RT_RES_SLOT_BCAST RT_RES_ARB_CTRL (of_nat RT_RES_MSEL_BCAST) RT_RES_ID_BCAST RT_RES_MASK_BCAST 0,
      rt_entry sp 0 RT_RES_SLOT_TRANSIT_N RT_RES_ARB_CTRL (of_nat RT_RES_MSEL_TRANSIT_N) RT_RES_ID_TRANSIT RT_RES_MASK_CLASS 0]"

text \<open>Every \<open>RT_ADD\<close> returns early at \<open>cap\<close> entries.\<close>

definition rt_res_table :: "rt_res_gen \<Rightarrow> nat \<Rightarrow> rt_res_entry list" where
  "rt_res_table gen cap = take cap
     (concat (map rt_res_ingress [RT_RES_PORT_WEST, RT_RES_PORT_SOUTH]) @
      [rt_entry RT_RES_PORT_CTRL 1 RT_RES_NA RT_RES_ARB_CTRL RT_MSELEN_CTRL RT_RES_NA RT_RES_NA 0,
       rt_entry RT_RES_PORT_EAST 1 RT_RES_NA RT_RES_ARB_CTRL RT_MSELEN_EAST RT_RES_NA RT_RES_NA 0,
       rt_entry RT_RES_PORT_NORTH 1 RT_RES_NA RT_RES_ARB_CTRL RT_MSELEN_NORTH RT_RES_NA RT_RES_NA 0,
       rt_entry RT_RES_PORT_CTRL 0 RT_RES_SLOT_RET_LOCAL RT_RES_ARB_RET (of_nat RT_RES_MSEL_RET_LOCAL) 0 0 1,
       rt_entry RT_RES_PORT_EAST 0 RT_RES_SLOT_RET_TRANSIT RT_RES_ARB_RET (of_nat RT_RES_MSEL_RET_TRANSIT) 0 0 1,
       rt_entry RT_RES_PORT_NORTH 0 RT_RES_SLOT_RET_NORTH RT_RES_ARB_RET (of_nat RT_RES_MSEL_RET_NORTH) 0 0 1,
       rt_entry RT_RES_PORT_WEST 1 RT_RES_NA RT_RES_ARB_RET RT_MSELEN_RET_HEAD RT_RES_NA RT_RES_NA 1,
       rt_entry RT_RES_PORT_SOUTH 1 RT_RES_NA RT_RES_ARB_RET RT_MSELEN_RET_HEAD RT_RES_NA RT_RES_NA 1])"

section \<open>Queries\<close>

text \<open>
  The list query. The output array is an optional pointer (\<^const>\<open>None\<close> for a null one); \<^const>\<open>None\<close> as the result is
  the return value \<open>-1\<close>.
\<close>

definition res_port_reserved ::
  "rt_res_gen \<Rightarrow> int \<Rightarrow> int \<Rightarrow> u8 \<Rightarrow> u8 \<Rightarrow> bool \<Rightarrow> int \<Rightarrow> rt_res_entry list option"
where
  "res_port_reserved gen col row port is_master out cap =
     (if \<not> out \<or> cap < 0 then None
      else Some (take (nat cap) (filter (\<lambda>e. re_port e = port \<and> re_is_master e = is_master) (rt_res_table gen RT_RES_TABLE_MAX))))"

definition res_reserved_pktid_mask :: "rt_res_gen \<Rightarrow> u32" where
  "res_reserved_pktid_mask gen =
     fold (\<lambda>e m. if re_is_master e \<noteq> 0 then m
                 else if re_pkt_id e < 32 then m OR push_bit (unat (re_pkt_id e)) 1 else m)
       (rt_res_table gen RT_RES_TABLE_MAX) 0"

definition res_reserved_arbiter_mask :: "rt_res_gen \<Rightarrow> u32" where
  "res_reserved_arbiter_mask gen =
     fold (\<lambda>e m. if re_arbiter e < 32 then m OR push_bit (unat (re_arbiter e)) 1 else m)
       (rt_res_table gen RT_RES_TABLE_MAX) 0"

definition res_reserved_slot_mask :: "rt_res_gen \<Rightarrow> u8 \<Rightarrow> u8 \<Rightarrow> u32" where
  "res_reserved_slot_mask gen port is_master =
     (if is_master \<noteq> 0 then 0
      else fold (\<lambda>e m. if re_is_master e \<noteq> 0 \<or> re_port e \<noteq> port then m
                       else if re_slot e < 31 then m OR push_bit (unat (re_slot e)) 1 else m)
             (rt_res_table gen RT_RES_TABLE_MAX) 0)"

definition res_entry_allows :: "u8 \<Rightarrow> u8 \<Rightarrow> u8 \<Rightarrow> u8 \<Rightarrow> u8 \<Rightarrow> u8 \<Rightarrow> rt_res_entry \<Rightarrow> bool" where
  "res_entry_allows port is_master slot arbiter msel pkt_id e =
     (re_port e = port \<and> re_is_master e = is_master \<and> re_arbiter e = arbiter \<and>
      (if is_master \<noteq> 0 then msel AND NOT (re_msel e) = 0
       else re_slot e = slot \<and> re_msel e = msel \<and> re_pkt_id e = pkt_id))"

definition res_is_reserved :: "rt_res_gen \<Rightarrow> u8 \<Rightarrow> u8 \<Rightarrow> u8 \<Rightarrow> u8 \<Rightarrow> u8 \<Rightarrow> u8 \<Rightarrow> bool" where
  "res_is_reserved gen port is_master slot arbiter msel pkt_id =
     list_ex (res_entry_allows port is_master slot arbiter msel pkt_id) (rt_res_table gen RT_RES_TABLE_MAX)"

text \<open>\<^const>\<open>None\<close> is the null pointer.\<close>

definition res_gen_from_name :: "string option \<Rightarrow> rt_res_gen" where
  "res_gen_from_name name =
     (case name of
        None \<Rightarrow> RT_RES_GEN2
      | Some s \<Rightarrow>
          (if s = [] then RT_RES_GEN2
           else if last s = CHR ''1'' then RT_RES_GEN1
           else if last s = CHR ''5'' then RT_RES_GEN5
           else RT_RES_GEN2))"

section \<open>Masks\<close>

text \<open>A mask accumulated over a list has exactly the bits of the entries that contribute.\<close>

lemma bit_fold_mask:
  fixes m :: "'w :: len word"
  assumes "\<And>e m. step e m = (if P e then m OR push_bit (k e) 1 else m)"
  shows "bit (fold step es m) n = (bit m n \<or> (n < LENGTH('w) \<and> (\<exists>e\<in>set es. P e \<and> k e = n)))"
  by (induction es arbitrary: m) (auto simp: assms bit_simps)

lemma pktid_mask_iff:
  "bit (res_reserved_pktid_mask gen) n =
     (n < 32 \<and> (\<exists>e\<in>set (rt_res_table gen RT_RES_TABLE_MAX). re_is_master e = 0 \<and> unat (re_pkt_id e) = n))"
proof -
  have "bit (res_reserved_pktid_mask gen) n = (bit (0 :: u32) n \<or> (n < LENGTH(32) \<and>
      (\<exists>e\<in>set (rt_res_table gen RT_RES_TABLE_MAX). (re_is_master e = 0 \<and> re_pkt_id e < 32) \<and> unat (re_pkt_id e) = n)))"
    unfolding res_reserved_pktid_mask_def by (rule bit_fold_mask) auto
  then show ?thesis by (auto simp: word_less_nat_alt)
qed

lemma arbiter_mask_iff:
  "bit (res_reserved_arbiter_mask gen) n =
     (n < 32 \<and> (\<exists>e\<in>set (rt_res_table gen RT_RES_TABLE_MAX). unat (re_arbiter e) = n))"
proof -
  have "bit (res_reserved_arbiter_mask gen) n = (bit (0 :: u32) n \<or> (n < LENGTH(32) \<and>
      (\<exists>e\<in>set (rt_res_table gen RT_RES_TABLE_MAX). re_arbiter e < 32 \<and> unat (re_arbiter e) = n)))"
    unfolding res_reserved_arbiter_mask_def by (rule bit_fold_mask) auto
  then show ?thesis by (auto simp: word_less_nat_alt)
qed

lemma slot_mask_iff:
  "bit (res_reserved_slot_mask gen port 0) n =
     (n < 31 \<and> (\<exists>e\<in>set (rt_res_table gen RT_RES_TABLE_MAX). re_is_master e = 0 \<and> re_port e = port \<and> unat (re_slot e) = n))"
proof -
  have "bit (res_reserved_slot_mask gen port 0) n = (bit (0 :: u32) n \<or> (n < LENGTH(32) \<and>
      (\<exists>e\<in>set (rt_res_table gen RT_RES_TABLE_MAX). (re_is_master e = 0 \<and> re_port e = port \<and> re_slot e < 31) \<and> unat (re_slot e) = n)))"
    unfolding res_reserved_slot_mask_def if_not_P [OF not_not [THEN iffD2, OF refl]]
    by (subst bit_fold_mask [where P = "\<lambda>e. re_is_master e = 0 \<and> re_port e = port \<and> re_slot e < 31"]) auto
  then show ?thesis by (auto simp: word_less_nat_alt)
qed

lemma table_fields:
  "list_all (\<lambda>e. unat (re_arbiter e) < 32 \<and> (re_is_master e = 0 \<longrightarrow> unat (re_pkt_id e) < 32 \<and> unat (re_slot e) < 31))
     (rt_res_table gen RT_RES_TABLE_MAX)"
  by (cases gen; code_simp)

lemma table_gen: "rt_res_table gen cap = rt_res_table RT_RES_GEN2 cap"
  by (simp add: rt_res_table_def)

lemma reserved_mask_bits:
  assumes "res_is_reserved gen port is_master slot arbiter msel pkt_id"
  shows "bit (res_reserved_arbiter_mask gen) (unat arbiter) \<and>
     (is_master = 0 \<longrightarrow>
        bit (res_reserved_pktid_mask gen) (unat pkt_id) \<and> bit (res_reserved_slot_mask gen port is_master) (unat slot))"
proof -
  obtain e where e: "e \<in> set (rt_res_table gen RT_RES_TABLE_MAX)" "res_entry_allows port is_master slot arbiter msel pkt_id e"
    using assms by (auto simp: res_is_reserved_def list_ex_iff)
  moreover have "unat (re_arbiter e) < 32 \<and> (re_is_master e = 0 \<longrightarrow> unat (re_pkt_id e) < 32 \<and> unat (re_slot e) < 31)"
    using table_fields [of gen] e(1) by (simp add: list_all_iff)
  ultimately show ?thesis
    by (auto simp: arbiter_mask_iff pktid_mask_iff slot_mask_iff res_entry_allows_def)
qed

text \<open>
  C15. Everything the validation query accepts is covered by the exclusion masks: a reserved slave slot has its
  packet id, its arbiter and its slot index set in the three masks, and a reserved master has its arbiter set.
\<close>

theorem reserved_in_masks:
  assumes "res_is_reserved gen port is_master slot arbiter msel pkt_id"
  shows "bit (res_reserved_arbiter_mask gen) (unat arbiter) \<and>
     (is_master = 0 \<longrightarrow>
        bit (res_reserved_pktid_mask gen) (unat pkt_id) \<and> bit (res_reserved_slot_mask gen port is_master) (unat slot))"
  using assms by (rule reserved_mask_bits)

theorem reserved_in_masks_witness:
  "bit (res_reserved_pktid_mask RT_RES_GEN5) 3 \<and> bit (res_reserved_slot_mask RT_RES_GEN5 RT_RES_PORT_WEST 0) 0"
proof -
  have "res_is_reserved RT_RES_GEN5 RT_RES_PORT_WEST 0 0 RT_RES_ARB_CTRL 0 3" by code_simp
  from reserved_in_masks [OF this] show ?thesis by simp
qed

end
