(* ===== verification/ControlPlan.thy ===== *)
theory ControlPlan
  imports CtrlResource
begin

text \<open>
  The row-control planner, \<open>src/mlir/runtime/aie_runtime_control_plan.c\<close>: the port book, the emission of
  stream-switch operations, the forward chain, the return chain, adding a row to the shared spine and the shim row.
  Rows and columns are numbers (the code bounds them by 16 and 64 before it uses them as indices, and a loop over
  columns ends at \<open>col_hi < 64\<close>, so its 8-bit counter does not wrap); ids, masks and select values are 8-bit words.
  An operation returns its code and the state it leaves, which a failure may have changed.
\<close>

section \<open>Data\<close>

datatype acr_port = ACR_WEST | ACR_EAST | ACR_NORTH | ACR_SOUTH | ACR_CTRL

datatype acr_op_kind = ACR_OP_SLOT | ACR_OP_SLAVE_EN | ACR_OP_MASTER_EN | ACR_OP_CCT

datatype acr_rc = ACR_OK | ACR_ERR_PORT_CONFLICT | ACR_ERR_SLOTS | ACR_ERR_BOUNDS | ACR_ERR_TILETYPE

fun acr_port_no :: "acr_port \<Rightarrow> nat" where
  "acr_port_no ACR_WEST = 0" | "acr_port_no ACR_EAST = 1" | "acr_port_no ACR_NORTH = 2"
| "acr_port_no ACR_SOUTH = 3" | "acr_port_no ACR_CTRL = 4"

record acr_op =
  op_kind :: acr_op_kind
  op_col :: nat
  op_row :: nat
  op_sport :: acr_port
  op_sidx :: u8
  op_mport :: acr_port
  op_midx :: u8
  op_slot :: u8
  op_pkt_id :: u8
  op_mask :: u8
  op_msel :: u8
  op_arbiter :: u8
  op_mselen :: u8
  op_keep_header :: u8
  op_is_ret :: u8

text \<open>Fields a designated initialiser leaves out are zero.\<close>

definition acr_op0 :: "acr_op_kind \<Rightarrow> nat \<Rightarrow> nat \<Rightarrow> acr_op" where
  "acr_op0 kind c r =
     \<lparr>op_kind = kind, op_col = c, op_row = r, op_sport = ACR_WEST, op_sidx = 0, op_mport = ACR_WEST, op_midx = 0,
      op_slot = 0, op_pkt_id = 0, op_mask = 0, op_msel = 0, op_arbiter = 0, op_mselen = 0, op_keep_header = 0,
      op_is_ret = 0\<rparr>"

definition ACR_MAX_ROWS :: nat where "ACR_MAX_ROWS = 16"
definition ACR_MAX_OPS :: nat where "ACR_MAX_OPS = 256"
definition ACR_NUM_SLOTS :: nat where "ACR_NUM_SLOTS = RT_RES_NUM_SLOTS"
definition ACR_MAX_ROW_IDX :: nat where "ACR_MAX_ROW_IDX = RT_RES_MAX_ROW_IDX"
definition ACR_CLASS_ALL_BUT_LAST :: u8 where "ACR_CLASS_ALL_BUT_LAST = 0"
definition ACR_MASK_EXACT :: u8 where "ACR_MASK_EXACT = 0x1F"
definition ACR_MSELEN_CTRL :: u8 where
  "ACR_MSELEN_CTRL = push_bit RT_RES_MSEL_CONSUME 1 OR push_bit RT_RES_MSEL_BCAST 1"
definition ACR_MSELEN_EAST :: u8 where
  "ACR_MSELEN_EAST = push_bit RT_RES_MSEL_CONSUME 1 OR push_bit RT_RES_MSEL_BCAST 1 OR push_bit 3 1"
definition ACR_MSELEN_NORTH :: u8 where
  "ACR_MSELEN_NORTH = push_bit RT_RES_MSEL_BCAST 1 OR push_bit RT_RES_MSEL_TRANSIT_N 1"

record acr_portbook =
  master_used :: "nat \<Rightarrow> nat \<Rightarrow> u16"
  slave_used :: "nat \<Rightarrow> nat \<Rightarrow> u16"

text \<open>The operation list and the port book a planner call works on.\<close>

record acr_work =
  w_ops :: "acr_op list"
  w_book :: acr_portbook

type_synonym 's acr_step = "'s \<Rightarrow> acr_rc \<times> 's"

text \<open>\<open>if ((rc = f) != ACR_OK) return rc;\<close> before the rest.\<close>

definition acr_then :: "'s acr_step \<Rightarrow> 's acr_step \<Rightarrow> 's acr_step" where
  "acr_then f g s = (case f s of (rc, s') \<Rightarrow> if rc = ACR_OK then g s' else (rc, s'))"

definition acr_ok :: "'s acr_step" where
  "acr_ok s = (ACR_OK, s)"

definition acr_when :: "bool \<Rightarrow> 's acr_step \<Rightarrow> 's acr_step" where
  "acr_when b f = (if b then f else acr_ok)"

primrec acr_each :: "('a \<Rightarrow> 's acr_step) \<Rightarrow> 'a list \<Rightarrow> 's acr_step" where
  "acr_each f [] = acr_ok"
| "acr_each f (x # xs) = acr_then (f x) (acr_each f xs)"

section \<open>Booking and emitting\<close>

definition acr_book_cell :: "acr_portbook \<Rightarrow> nat \<Rightarrow> nat \<Rightarrow> bool \<Rightarrow> u16" where
  "acr_book_cell b col row is_master = (if is_master then master_used b row col else slave_used b row col)"

definition acr_set_cell :: "acr_portbook \<Rightarrow> nat \<Rightarrow> nat \<Rightarrow> bool \<Rightarrow> u16 \<Rightarrow> acr_portbook" where
  "acr_set_cell b col row is_master v =
     (if is_master then b\<lparr>master_used := (master_used b)(row := (master_used b row)(col := v))\<rparr>
      else b\<lparr>slave_used := (slave_used b)(row := (slave_used b row)(col := v))\<rparr>)"

definition acr_book_port :: "nat \<Rightarrow> nat \<Rightarrow> acr_port \<Rightarrow> nat \<Rightarrow> bool \<Rightarrow> acr_work acr_step" where
  "acr_book_port col row p idx is_master w =
     (if row > ACR_MAX_ROWS \<or> col \<ge> 64 \<or> idx \<ge> 3 then (ACR_ERR_BOUNDS, w)
      else
        let bt = (push_bit (acr_port_no p * 3 + idx) 1 :: u16); cell = acr_book_cell (w_book w) col row is_master in
        if cell AND bt \<noteq> 0 then (ACR_ERR_PORT_CONFLICT, w)
        else (ACR_OK, w\<lparr>w_book := acr_set_cell (w_book w) col row is_master (cell OR bt)\<rparr>))"

definition acr_emit_op :: "acr_op \<Rightarrow> acr_work acr_step" where
  "acr_emit_op op w =
     (if length (w_ops w) \<ge> ACR_MAX_OPS then (ACR_ERR_BOUNDS, w) else (ACR_OK, w\<lparr>w_ops := w_ops w @ [op]\<rparr>))"

definition acr_slot_op :: "nat \<Rightarrow> nat \<Rightarrow> acr_port \<Rightarrow> u8 \<Rightarrow> u8 \<Rightarrow> u8 \<Rightarrow> nat \<Rightarrow> u8 \<Rightarrow> acr_op" where
  "acr_slot_op c row sport slot pkt msk msel arb =
     (acr_op0 ACR_OP_SLOT c row)\<lparr>op_sport := sport, op_slot := slot, op_pkt_id := pkt, op_mask := msk,
        op_msel := of_nat msel, op_arbiter := arb, op_is_ret := of_bool (arb = RT_RES_ARB_RET)\<rparr>"

definition acr_emit_slot :: "nat \<Rightarrow> nat \<Rightarrow> acr_port \<Rightarrow> u8 \<Rightarrow> u8 \<Rightarrow> u8 \<Rightarrow> nat \<Rightarrow> u8 \<Rightarrow> acr_work acr_step" where
  "acr_emit_slot c row sport slot pkt msk msel arb = acr_emit_op (acr_slot_op c row sport slot pkt msk msel arb)"

definition acr_master_op :: "nat \<Rightarrow> nat \<Rightarrow> acr_port \<Rightarrow> u8 \<Rightarrow> u8 \<Rightarrow> acr_op" where
  "acr_master_op c row mport mselen arb =
     (acr_op0 ACR_OP_MASTER_EN c row)\<lparr>op_mport := mport, op_arbiter := arb, op_mselen := mselen, op_keep_header := 1,
        op_is_ret := of_bool (arb = RT_RES_ARB_RET)\<rparr>"

definition acr_emit_master :: "nat \<Rightarrow> nat \<Rightarrow> acr_port \<Rightarrow> u8 \<Rightarrow> u8 \<Rightarrow> acr_work acr_step" where
  "acr_emit_master c row mport mselen arb =
     acr_then (acr_book_port c row mport 0 True) (acr_emit_op (acr_master_op c row mport mselen arb))"

section \<open>Forward chain\<close>

definition acr_slave_op :: "nat \<Rightarrow> nat \<Rightarrow> acr_port \<Rightarrow> u8 \<Rightarrow> u8 \<Rightarrow> acr_op" where
  "acr_slave_op c row sport pkt ret = (acr_op0 ACR_OP_SLAVE_EN c row)\<lparr>op_sport := sport, op_pkt_id := pkt, op_is_ret := ret\<rparr>"

definition acr_chain_tile ::
  "nat \<Rightarrow> nat \<Rightarrow> nat \<Rightarrow> nat \<Rightarrow> nat \<Rightarrow> u8 \<Rightarrow> int \<Rightarrow> acr_port \<Rightarrow> bool \<Rightarrow> nat \<Rightarrow> acr_work acr_step"
where
  "acr_chain_tile row rowidx col_lo target_lo col_hi ctrl_id shim_col head_ingress is_top c =
     (let sport = (if c = col_lo then head_ingress else ACR_WEST);
          has_east = (c \<noteq> col_hi);
          is_spine_head = (shim_col \<ge> 0 \<and> c = nat shim_col \<and> c = col_lo \<and> \<not> is_top);
          consume_id = push_bit 2 ACR_CLASS_ALL_BUT_LAST OR of_nat rowidx
      in acr_then (acr_book_port c row sport 0 False)
        (acr_then (acr_emit_slot c row sport RT_RES_SLOT_CONSUME consume_id RT_RES_MASK_CONSUME RT_RES_MSEL_CONSUME RT_RES_ARB_CTRL)
        (acr_then (acr_emit_slot c row sport RT_RES_SLOT_BCAST RT_RES_ID_BCAST RT_RES_MASK_BCAST RT_RES_MSEL_BCAST RT_RES_ARB_CTRL)
        (acr_then (acr_when is_spine_head
           (acr_emit_slot c row sport RT_RES_SLOT_TRANSIT_N RT_RES_ID_TRANSIT RT_RES_MASK_CLASS RT_RES_MSEL_TRANSIT_N RT_RES_ARB_CTRL))
        (acr_then (acr_emit_op (acr_slave_op c row sport ctrl_id 0))
        (acr_then (acr_when (c \<ge> target_lo) (acr_emit_master c row ACR_CTRL ACR_MSELEN_CTRL RT_RES_ARB_CTRL))
        (acr_then (acr_when has_east (acr_emit_master c row ACR_EAST ACR_MSELEN_EAST RT_RES_ARB_CTRL))
           (acr_when is_spine_head (acr_emit_master c row ACR_NORTH ACR_MSELEN_NORTH RT_RES_ARB_CTRL)))))))))"

definition acr_plan_chain_ex ::
  "nat \<Rightarrow> nat \<Rightarrow> nat \<Rightarrow> nat \<Rightarrow> nat \<Rightarrow> u8 \<Rightarrow> int \<Rightarrow> acr_port \<Rightarrow> bool \<Rightarrow> acr_work acr_step"
where
  "acr_plan_chain_ex row rowidx col_lo target_lo col_hi ctrl_id shim_col head_ingress is_top w =
     (if col_hi < col_lo \<or> col_hi \<ge> 64 \<or> target_lo < col_lo \<or> target_lo > col_hi then (ACR_ERR_BOUNDS, w)
      else if rowidx > ACR_MAX_ROW_IDX then (ACR_ERR_BOUNDS, w)
      else if ACR_NUM_SLOTS < 4 then (ACR_ERR_SLOTS, w)
      else acr_each (acr_chain_tile row rowidx col_lo target_lo col_hi ctrl_id shim_col head_ingress is_top)
             [col_lo..<Suc col_hi] w)"

section \<open>Return chain\<close>

definition acr_emit_ret_slot :: "nat \<Rightarrow> nat \<Rightarrow> acr_port \<Rightarrow> u8 \<Rightarrow> nat \<Rightarrow> acr_work acr_step" where
  "acr_emit_ret_slot c row sport slot msel =
     acr_then (acr_book_port c row sport 0 False)
     (acr_then (acr_emit_slot c row sport slot 0 0 msel RT_RES_ARB_RET)
        (acr_emit_op (acr_slave_op c row sport 0 1)))"

definition acr_return_tile :: "nat \<Rightarrow> nat \<Rightarrow> nat \<Rightarrow> nat \<Rightarrow> bool \<Rightarrow> nat \<Rightarrow> acr_work acr_step" where
  "acr_return_tile row col_lo target_lo col_hi is_top c =
     (let has_transit = (c < col_hi); has_local = (c \<ge> target_lo);
          loc = (if has_local then push_bit RT_RES_MSEL_RET_LOCAL 1 else 0);
          tra = (if has_transit then push_bit RT_RES_MSEL_RET_TRANSIT 1 else 0);
          nor = (if is_top then 0 else push_bit RT_RES_MSEL_RET_NORTH 1)
      in acr_then (acr_when has_local (acr_emit_ret_slot c row ACR_CTRL RT_RES_SLOT_RET_LOCAL RT_RES_MSEL_RET_LOCAL))
        (acr_then (acr_when has_transit (acr_emit_ret_slot c row ACR_EAST RT_RES_SLOT_RET_TRANSIT RT_RES_MSEL_RET_TRANSIT))
          (if c = col_lo then
             acr_then (acr_when (\<not> is_top) (acr_emit_ret_slot c row ACR_NORTH RT_RES_SLOT_RET_NORTH RT_RES_MSEL_RET_NORTH))
               (acr_emit_master c row ACR_SOUTH (loc OR tra OR nor) RT_RES_ARB_RET)
           else acr_emit_master c row ACR_WEST (loc OR push_bit RT_RES_MSEL_RET_TRANSIT 1) RT_RES_ARB_RET)))"

definition acr_plan_return_chain_ex :: "nat \<Rightarrow> nat \<Rightarrow> nat \<Rightarrow> nat \<Rightarrow> bool \<Rightarrow> acr_work acr_step" where
  "acr_plan_return_chain_ex row col_lo target_lo col_hi is_top w =
     (if col_hi < col_lo \<or> col_hi \<ge> 64 \<or> target_lo < col_lo \<or> target_lo > col_hi then (ACR_ERR_BOUNDS, w)
      else acr_each (acr_return_tile row col_lo target_lo col_hi is_top) [col_lo..<Suc col_hi] w)"

definition acr_plan_return_chain :: "nat \<Rightarrow> nat \<Rightarrow> nat \<Rightarrow> bool \<Rightarrow> acr_work acr_step" where
  "acr_plan_return_chain row col_lo col_hi is_top = acr_plan_return_chain_ex row col_lo col_lo col_hi is_top"

definition acr_plan_chain :: "nat \<Rightarrow> nat \<Rightarrow> nat \<Rightarrow> u8 \<Rightarrow> acr_work acr_step" where
  "acr_plan_chain row col_lo col_hi ctrl_id = acr_plan_chain_ex row 0 col_lo col_lo col_hi ctrl_id (-1) ACR_WEST True"

section \<open>Adding a row to the fabric\<close>

text \<open>The array \<open>rows\<close> with its length \<open>nrows\<close> is a list.\<close>

record acr_state =
  spine_top :: nat
  rows :: "nat list"

record acr_fabric =
  f_state :: acr_state
  f_work :: acr_work

definition acr_row_is_head :: "acr_state \<Rightarrow> nat \<Rightarrow> bool" where
  "acr_row_is_head s row = (row \<in> set (rows s))"

definition acr_cct_op :: "nat \<Rightarrow> nat \<Rightarrow> acr_port \<Rightarrow> acr_port \<Rightarrow> u8 \<Rightarrow> acr_op" where
  "acr_cct_op c r sport mport ret = (acr_op0 ACR_OP_CCT c r)\<lparr>op_sport := sport, op_mport := mport, op_is_ret := ret\<rparr>"

definition acr_spine_hop :: "acr_state \<Rightarrow> nat \<Rightarrow> nat \<Rightarrow> acr_work acr_step" where
  "acr_spine_hop s shim_col r =
     acr_when (\<not> acr_row_is_head s r)
       (acr_then (acr_emit_op (acr_cct_op shim_col r ACR_SOUTH ACR_NORTH 0))
          (acr_emit_op (acr_cct_op shim_col r ACR_NORTH ACR_SOUTH 1)))"

definition acr_plan_row_add ::
  "nat \<Rightarrow> nat \<Rightarrow> nat \<Rightarrow> nat \<Rightarrow> u8 \<Rightarrow> bool \<Rightarrow> acr_fabric acr_step"
where
  "acr_plan_row_add shim_col row col_lo col_hi ctrl_id is_top f =
     (let s = f_state f in
      if row = 0 \<or> shim_col \<ge> 64 then (ACR_ERR_BOUNDS, f)
      else if col_lo < shim_col then (ACR_ERR_BOUNDS, f)
      else if acr_row_is_head s row then (ACR_OK, f)
      else if length (rows s) \<ge> ACR_MAX_ROWS then (ACR_ERR_BOUNDS, f)
      else if length (rows s) > ACR_MAX_ROW_IDX then (ACR_ERR_BOUNDS, f)
      else
        let need_top = row - 1 in
        case (if need_top > spine_top s
              then acr_each (acr_spine_hop s shim_col) [Suc (spine_top s)..<Suc need_top] (f_work f)
              else (ACR_OK, f_work f)) of
          (rc1, w1) \<Rightarrow>
            if rc1 \<noteq> ACR_OK then (rc1, f\<lparr>f_work := w1\<rparr>)
            else
              let s1 = (if need_top > spine_top s then s\<lparr>spine_top := need_top\<rparr> else s) in
              case acr_then
                     (acr_plan_chain_ex row (length (rows s)) shim_col col_lo col_hi ctrl_id (int shim_col) ACR_SOUTH is_top)
                     (acr_plan_return_chain_ex row shim_col col_lo col_hi is_top) w1 of
                (rc2, w2) \<Rightarrow>
                  if rc2 \<noteq> ACR_OK then (rc2, \<lparr>f_state = s1, f_work = w2\<rparr>)
                  else (ACR_OK, \<lparr>f_state = s1\<lparr>rows := rows s1 @ [row]\<rparr>, f_work = w2\<rparr>))"

section \<open>Shim row\<close>

definition acr_shim_row_id :: "nat \<Rightarrow> u8" where
  "acr_shim_row_id k = push_bit k 1 - 1"

text \<open>Forward and return operations go to two lists, with one port book.\<close>

record acr_shim_work =
  sh_fwd :: "acr_op list"
  sh_ret :: "acr_op list"
  sh_book :: acr_portbook

definition on_fwd :: "acr_work acr_step \<Rightarrow> acr_shim_work acr_step" where
  "on_fwd f sh = (case f \<lparr>w_ops = sh_fwd sh, w_book = sh_book sh\<rparr> of
     (rc, w) \<Rightarrow> (rc, sh\<lparr>sh_fwd := w_ops w, sh_book := w_book w\<rparr>))"

definition on_ret :: "acr_work acr_step \<Rightarrow> acr_shim_work acr_step" where
  "on_ret f sh = (case f \<lparr>w_ops = sh_ret sh, w_book = sh_book sh\<rparr> of
     (rc, w) \<Rightarrow> (rc, sh\<lparr>sh_ret := w_ops w, sh_book := w_book w\<rparr>))"

definition acr_shim_slot_op :: "nat \<Rightarrow> u8 \<Rightarrow> u8 \<Rightarrow> u8 \<Rightarrow> u8 \<Rightarrow> acr_op" where
  "acr_shim_slot_op c slot pkt msk msel =
     (acr_op0 ACR_OP_SLOT c 0)\<lparr>op_sport := ACR_WEST, op_slot := slot, op_pkt_id := pkt, op_mask := msk, op_msel := msel,
        op_arbiter := RT_RES_ARB_CTRL\<rparr>"

definition acr_shim_master_op :: "nat \<Rightarrow> acr_port \<Rightarrow> u8 \<Rightarrow> acr_op" where
  "acr_shim_master_op c mport mselen =
     (acr_op0 ACR_OP_MASTER_EN c 0)\<lparr>op_mport := mport, op_arbiter := RT_RES_ARB_CTRL, op_mselen := mselen, op_keep_header := 1\<rparr>"

definition acr_shim_row_fwd_tile :: "nat \<Rightarrow> nat \<Rightarrow> bool \<Rightarrow> acr_work acr_step" where
  "acr_shim_row_fwd_tile c k has_east =
     acr_then (acr_book_port c 0 ACR_WEST 0 False)
     (acr_then (acr_emit_op (acr_shim_slot_op c 0 (acr_shim_row_id k) ACR_MASK_EXACT 0))
     (acr_then (acr_when has_east (acr_emit_op (acr_shim_slot_op c 1 (push_bit k 1) (push_bit k 1) 1)))
     (acr_then (acr_emit_op (acr_slave_op c 0 ACR_WEST 0 0))
        (acr_each (\<lambda>e. acr_then (acr_book_port c 0 (if e then ACR_EAST else ACR_CTRL) 0 True)
            (acr_emit_op (acr_shim_master_op c (if e then ACR_EAST else ACR_CTRL) (push_bit (if e then 1 else 0) 1))))
          (if has_east then [False, True] else [False])))))"

definition acr_shim_tile :: "nat \<Rightarrow> nat \<Rightarrow> nat \<Rightarrow> acr_shim_work acr_step" where
  "acr_shim_tile col_lo col_hi c =
     (let has_east = (c < col_hi) in
      acr_then (on_fwd (acr_shim_row_fwd_tile c (c - col_lo) has_east))
      (acr_then (on_ret (acr_emit_ret_slot c 0 ACR_CTRL RT_RES_SLOT_RET_LOCAL RT_RES_MSEL_RET_LOCAL))
      (acr_then (acr_when has_east (on_ret (acr_emit_ret_slot c 0 ACR_EAST RT_RES_SLOT_RET_TRANSIT RT_RES_MSEL_RET_TRANSIT)))
         (on_ret (acr_emit_master c 0 ACR_WEST
            (push_bit RT_RES_MSEL_RET_LOCAL 1 OR push_bit RT_RES_MSEL_RET_TRANSIT 1) RT_RES_ARB_RET)))))"

definition acr_plan_shim_row :: "nat \<Rightarrow> nat \<Rightarrow> acr_shim_work acr_step" where
  "acr_plan_shim_row col_lo col_hi sh =
     (if col_hi < col_lo \<or> col_hi \<ge> 64 \<or> col_hi - col_lo + 1 > RT_RES_SHIMROW_MAX_COLS then (ACR_ERR_BOUNDS, sh)
      else acr_each (acr_shim_tile col_lo col_hi) [col_lo..<Suc col_hi] sh)"

text \<open>A port of a tile: column, row, port and whether it is the master side.\<close>

type_synonym acr_res = "nat \<times> nat \<times> acr_port \<times> bool"

fun booked :: "acr_portbook \<Rightarrow> acr_res \<Rightarrow> bool" where
  "booked b (c, r, p, m) = bit (acr_book_cell b c r m) (acr_port_no p * 3)"

fun res_in_range :: "acr_res \<Rightarrow> bool" where
  "res_in_range (c, r, p, m) = (r \<le> ACR_MAX_ROWS \<and> c < 64)"

definition plan_fits :: "acr_res list \<Rightarrow> acr_op list \<Rightarrow> acr_work \<Rightarrow> bool" where
  "plan_fits bks ops w =
     (list_all (\<lambda>x. res_in_range x \<and> \<not> booked (w_book w) x) bks \<and> distinct bks \<and>
      (ops = [] \<or> length (w_ops w) + length ops \<le> ACR_MAX_OPS))"

definition spine_head :: "int \<Rightarrow> nat \<Rightarrow> bool \<Rightarrow> nat \<Rightarrow> bool" where
  "spine_head shim_col col_lo is_top c = (shim_col \<ge> 0 \<and> c = nat shim_col \<and> c = col_lo \<and> \<not> is_top)"

definition chain_ops ::
  "nat \<Rightarrow> nat \<Rightarrow> nat \<Rightarrow> nat \<Rightarrow> nat \<Rightarrow> u8 \<Rightarrow> int \<Rightarrow> acr_port \<Rightarrow> bool \<Rightarrow> nat \<Rightarrow> acr_op list"
where
  "chain_ops row k col_lo target_lo col_hi ctrl_id shim_col ingress is_top c =
     (let sport = (if c = col_lo then ingress else ACR_WEST); head = spine_head shim_col col_lo is_top c in
      [acr_slot_op c row sport RT_RES_SLOT_CONSUME (of_nat k) RT_RES_MASK_CONSUME RT_RES_MSEL_CONSUME RT_RES_ARB_CTRL,
       acr_slot_op c row sport RT_RES_SLOT_BCAST RT_RES_ID_BCAST RT_RES_MASK_BCAST RT_RES_MSEL_BCAST RT_RES_ARB_CTRL] @
      (if head then
        [acr_slot_op c row sport RT_RES_SLOT_TRANSIT_N RT_RES_ID_TRANSIT RT_RES_MASK_CLASS RT_RES_MSEL_TRANSIT_N RT_RES_ARB_CTRL] else []) @
      [acr_slave_op c row sport ctrl_id 0] @
      (if c \<ge> target_lo then [acr_master_op c row ACR_CTRL ACR_MSELEN_CTRL RT_RES_ARB_CTRL] else []) @
      (if c \<noteq> col_hi then [acr_master_op c row ACR_EAST ACR_MSELEN_EAST RT_RES_ARB_CTRL] else []) @
      (if head then [acr_master_op c row ACR_NORTH ACR_MSELEN_NORTH RT_RES_ARB_CTRL] else []))"

definition chain_books :: "nat \<Rightarrow> nat \<Rightarrow> nat \<Rightarrow> nat \<Rightarrow> int \<Rightarrow> acr_port \<Rightarrow> bool \<Rightarrow> nat \<Rightarrow> acr_res list" where
  "chain_books row col_lo target_lo col_hi shim_col ingress is_top c =
     [(c, row, if c = col_lo then ingress else ACR_WEST, False)] @
     (if c \<ge> target_lo then [(c, row, ACR_CTRL, True)] else []) @
     (if c \<noteq> col_hi then [(c, row, ACR_EAST, True)] else []) @
     (if spine_head shim_col col_lo is_top c then [(c, row, ACR_NORTH, True)] else [])"

definition ret_mselen :: "nat \<Rightarrow> nat \<Rightarrow> nat \<Rightarrow> bool \<Rightarrow> nat \<Rightarrow> u8" where
  "ret_mselen col_lo target_lo col_hi is_top c =
     (if c \<ge> target_lo then push_bit RT_RES_MSEL_RET_LOCAL 1 else 0) OR
     (if c = col_lo then
        (if c < col_hi then push_bit RT_RES_MSEL_RET_TRANSIT 1 else 0) OR
        (if is_top then 0 else push_bit RT_RES_MSEL_RET_NORTH 1)
      else push_bit RT_RES_MSEL_RET_TRANSIT 1)"

definition ret_slot_ops :: "nat \<Rightarrow> nat \<Rightarrow> acr_port \<Rightarrow> u8 \<Rightarrow> nat \<Rightarrow> acr_op list" where
  "ret_slot_ops c row p slot msel = [acr_slot_op c row p slot 0 0 msel RT_RES_ARB_RET, acr_slave_op c row p 0 1]"

definition ret_ops :: "nat \<Rightarrow> nat \<Rightarrow> nat \<Rightarrow> nat \<Rightarrow> bool \<Rightarrow> nat \<Rightarrow> acr_op list" where
  "ret_ops row col_lo target_lo col_hi is_top c =
     (if c \<ge> target_lo then ret_slot_ops c row ACR_CTRL RT_RES_SLOT_RET_LOCAL RT_RES_MSEL_RET_LOCAL else []) @
     (if c < col_hi then ret_slot_ops c row ACR_EAST RT_RES_SLOT_RET_TRANSIT RT_RES_MSEL_RET_TRANSIT else []) @
     (if c = col_lo \<and> \<not> is_top then ret_slot_ops c row ACR_NORTH RT_RES_SLOT_RET_NORTH RT_RES_MSEL_RET_NORTH else []) @
     [acr_master_op c row (if c = col_lo then ACR_SOUTH else ACR_WEST) (ret_mselen col_lo target_lo col_hi is_top c) RT_RES_ARB_RET]"

definition ret_books :: "nat \<Rightarrow> nat \<Rightarrow> nat \<Rightarrow> nat \<Rightarrow> bool \<Rightarrow> nat \<Rightarrow> acr_res list" where
  "ret_books row col_lo target_lo col_hi is_top c =
     (if c \<ge> target_lo then [(c, row, ACR_CTRL, False)] else []) @
     (if c < col_hi then [(c, row, ACR_EAST, False)] else []) @
     (if c = col_lo \<and> \<not> is_top then [(c, row, ACR_NORTH, False)] else []) @
     [(c, row, if c = col_lo then ACR_SOUTH else ACR_WEST, True)]"

definition chain_range :: "nat \<Rightarrow> nat \<Rightarrow> nat \<Rightarrow> bool" where
  "chain_range col_lo target_lo col_hi = (col_lo \<le> col_hi \<and> col_hi < 64 \<and> col_lo \<le> target_lo \<and> target_lo \<le> col_hi)"

text \<open>Forward chain and return chain of a row.\<close>

definition row_chain ::
  "nat \<Rightarrow> nat \<Rightarrow> nat \<Rightarrow> nat \<Rightarrow> nat \<Rightarrow> u8 \<Rightarrow> int \<Rightarrow> acr_port \<Rightarrow> bool \<Rightarrow> acr_op list"
where
  "row_chain row k col_lo target_lo col_hi ctrl_id shim_col ingress is_top =
     concat (map (chain_ops row k col_lo target_lo col_hi ctrl_id shim_col ingress is_top) [col_lo..<Suc col_hi])"

definition row_return :: "nat \<Rightarrow> nat \<Rightarrow> nat \<Rightarrow> nat \<Rightarrow> bool \<Rightarrow> acr_op list" where
  "row_return row col_lo target_lo col_hi is_top = concat (map (ret_ops row col_lo target_lo col_hi is_top) [col_lo..<Suc col_hi])"

definition row_chain_books :: "nat \<Rightarrow> nat \<Rightarrow> nat \<Rightarrow> nat \<Rightarrow> int \<Rightarrow> acr_port \<Rightarrow> bool \<Rightarrow> acr_res list" where
  "row_chain_books row col_lo target_lo col_hi shim_col ingress is_top =
     concat (map (chain_books row col_lo target_lo col_hi shim_col ingress is_top) [col_lo..<Suc col_hi])"

definition row_return_books :: "nat \<Rightarrow> nat \<Rightarrow> nat \<Rightarrow> nat \<Rightarrow> bool \<Rightarrow> acr_res list" where
  "row_return_books row col_lo target_lo col_hi is_top = concat (map (ret_books row col_lo target_lo col_hi is_top) [col_lo..<Suc col_hi])"

definition op_reserved :: "rt_res_gen \<Rightarrow> acr_op \<Rightarrow> bool" where
  "op_reserved gen op = (case op_kind op of
      ACR_OP_SLOT \<Rightarrow> res_is_reserved gen (of_nat (acr_port_no (op_sport op))) 0 (op_slot op) (op_arbiter op) (op_msel op) (op_pkt_id op)
    | ACR_OP_MASTER_EN \<Rightarrow> res_is_reserved gen (of_nat (acr_port_no (op_mport op))) 1 RT_RES_NA (op_arbiter op) (op_mselen op) RT_RES_NA
    | _ \<Rightarrow> True)"

definition spine_ops :: "acr_state \<Rightarrow> nat \<Rightarrow> nat \<Rightarrow> acr_op list" where
  "spine_ops s shim_col row =
     concat (map (\<lambda>r. if acr_row_is_head s r then []
                      else [acr_cct_op shim_col r ACR_SOUTH ACR_NORTH 0, acr_cct_op shim_col r ACR_NORTH ACR_SOUTH 1])
               [Suc (spine_top s)..<row])"

text \<open>The operations of a new row: spine hops, forward chain, return chain.\<close>

definition new_row_ops :: "acr_state \<Rightarrow> nat \<Rightarrow> nat \<Rightarrow> nat \<Rightarrow> nat \<Rightarrow> u8 \<Rightarrow> bool \<Rightarrow> acr_op list" where
  "new_row_ops s shim_col row col_lo col_hi ctrl_id is_top =
     spine_ops s shim_col row @
     row_chain row (length (rows s)) shim_col col_lo col_hi ctrl_id (int shim_col) ACR_SOUTH is_top @
     row_return row shim_col col_lo col_hi is_top"

definition new_row_books :: "nat \<Rightarrow> nat \<Rightarrow> nat \<Rightarrow> nat \<Rightarrow> bool \<Rightarrow> acr_res list" where
  "new_row_books shim_col row col_lo col_hi is_top =
     row_chain_books row shim_col col_lo col_hi (int shim_col) ACR_SOUTH is_top @ row_return_books row shim_col col_lo col_hi is_top"

definition new_state :: "acr_state \<Rightarrow> nat \<Rightarrow> acr_state" where
  "new_state s row = \<lparr>spine_top = max (spine_top s) (row - 1), rows = rows s @ [row]\<rparr>"

definition row_args_ok :: "acr_state \<Rightarrow> nat \<Rightarrow> nat \<Rightarrow> nat \<Rightarrow> nat \<Rightarrow> bool" where
  "row_args_ok s shim_col row col_lo col_hi =
     (0 < row \<and> shim_col \<le> col_lo \<and> col_lo \<le> col_hi \<and> col_hi < 64 \<and> length (rows s) \<le> ACR_MAX_ROW_IDX)"

text \<open>The work of \<open>acr_plan_row_add\<close> on a row that is not configured yet, as one planner step.\<close>

definition row_add_work :: "acr_state \<Rightarrow> nat \<Rightarrow> nat \<Rightarrow> nat \<Rightarrow> nat \<Rightarrow> u8 \<Rightarrow> bool \<Rightarrow> acr_work acr_step" where
  "row_add_work s shim_col row col_lo col_hi ctrl_id is_top =
     acr_then (acr_each (acr_spine_hop s shim_col) [Suc (spine_top s)..<row])
     (acr_then (acr_plan_chain_ex row (length (rows s)) shim_col col_lo col_hi ctrl_id (int shim_col) ACR_SOUTH is_top)
        (acr_plan_return_chain_ex row shim_col col_lo col_hi is_top))"

section \<open>The contract of a planner step\<close>

locale planner_step =
  fixes f :: "acr_work acr_step" and bks :: "acr_res list" and ops :: "acr_op list"
  assumes ok_iff: "(fst (f w) = ACR_OK) = plan_fits bks ops w"
    and ok_ops: "fst (f w) = ACR_OK \<Longrightarrow> w_ops (snd (f w)) = w_ops w @ ops"
    and ok_book: "fst (f w) = ACR_OK \<Longrightarrow> booked (w_book (snd (f w))) x = (booked (w_book w) x \<or> x \<in> set bks)"

lemma acr_then_ok: "(fst (acr_then f g w) = ACR_OK) = (fst (f w) = ACR_OK \<and> fst (g (snd (f w))) = ACR_OK)"
  by (simp add: acr_then_def split: prod.split)

lemma acr_then_snd: "fst (f w) = ACR_OK \<Longrightarrow> snd (acr_then f g w) = snd (g (snd (f w)))"
  by (auto simp: acr_then_def split: prod.split)

lemma planner_step_ok: "planner_step acr_ok [] []"
  by unfold_locales (simp_all add: acr_ok_def plan_fits_def)

lemma planner_step_then:
  assumes "planner_step f b1 o1" "planner_step g b2 o2"
  shows "planner_step (acr_then f g) (b1 @ b2) (o1 @ o2)"
proof
  fix w
  note F = planner_step.ok_iff [OF assms(1)] planner_step.ok_ops [OF assms(1)] planner_step.ok_book [OF assms(1)]
  note G = planner_step.ok_iff [OF assms(2)] planner_step.ok_ops [OF assms(2)] planner_step.ok_book [OF assms(2)]
  show "(fst (acr_then f g w) = ACR_OK) = plan_fits (b1 @ b2) (o1 @ o2) w"
  proof (cases "fst (f w) = ACR_OK")
    case True
    then show ?thesis using F(1) [of w] F(2) [OF True]
      unfolding acr_then_ok G(1) by (auto simp: plan_fits_def list_all_iff F(3) [OF True])
  next
    case False
    then show ?thesis using F(1) [of w] unfolding acr_then_ok by (auto simp: plan_fits_def)
  qed
  fix x
  assume "fst (acr_then f g w) = ACR_OK"
  then have ok: "fst (f w) = ACR_OK" "fst (g (snd (f w))) = ACR_OK" by (simp_all add: acr_then_ok)
  show "w_ops (snd (acr_then f g w)) = w_ops w @ o1 @ o2"
    by (simp add: acr_then_snd ok F(2) G(2))
  show "booked (w_book (snd (acr_then f g w))) x = (booked (w_book w) x \<or> x \<in> set (b1 @ b2))"
    by (auto simp: acr_then_snd ok F(3) G(3))
qed

lemma planner_step_when:
  "planner_step f b os \<Longrightarrow> planner_step (acr_when P f) (if P then b else []) (if P then os else [])"
  by (simp add: acr_when_def planner_step_ok)

lemma planner_step_each:
  assumes "\<And>x. x \<in> set xs \<Longrightarrow> planner_step (f x) (b x) (os x)"
  shows "planner_step (acr_each f xs) (concat (map b xs)) (concat (map os xs))"
  using assms
proof (induction xs)
  case (Cons x xs)
  then show ?case using planner_step_then [of "f x" "b x" "os x"] by simp
qed (simp add: planner_step_ok)

section \<open>The primitive steps\<close>

lemma acr_port_no_inj: "(acr_port_no p = acr_port_no q) = (p = q)"
  by (cases p; cases q) simp_all

lemma acr_port_no_le: "acr_port_no p \<le> 4"
  by (cases p) simp_all

lemma bit_test16: "((x :: u16) AND push_bit n 1 \<noteq> 0) = bit x n"
proof
  assume "x AND push_bit n 1 \<noteq> 0"
  then obtain k where "bit (x AND push_bit n 1) k" using bit_eqI [of "x AND push_bit n 1" 0] by auto
  then show "bit x n" by (auto simp: bit_simps)
next
  assume "bit x n"
  then have "bit (x AND push_bit n 1) n" using bit_imp_le_length [of x n] by (auto simp: bit_simps)
  then show "x AND push_bit n 1 \<noteq> 0" by auto
qed

lemma book_step: "planner_step (acr_book_port c r p 0 m) [(c, r, p, m)] []"
proof
  fix w :: acr_work
  let ?cell = "acr_book_cell (w_book w) c r m"
  have t: "(?cell AND push_bit (acr_port_no p * 3) 1 \<noteq> 0) = booked (w_book w) (c, r, p, m)"
    by (simp add: bit_test16 del: push_bit_of_1)
  show "(fst (acr_book_port c r p 0 m w) = ACR_OK) = plan_fits [(c, r, p, m)] [] w"
    using t by (auto simp: acr_book_port_def plan_fits_def Let_def not_le not_less simp del: push_bit_of_1 booked.simps)
  fix x :: acr_res
  assume ok: "fst (acr_book_port c r p 0 m w) = ACR_OK"
  then show "w_ops (snd (acr_book_port c r p 0 m w)) = w_ops w @ []"
    by (auto simp: acr_book_port_def Let_def split: if_splits)
  obtain c' r' q m' where x: "x = (c', r', q, m')" by (cases x)
  have upd: "bit (?cell OR push_bit (acr_port_no p * 3) 1) (acr_port_no q * 3) = (bit ?cell (acr_port_no q * 3) \<or> p = q)"
    using acr_port_no_le [of q] by (auto simp: bit_simps acr_port_no_inj simp del: push_bit_of_1)
  from ok have "snd (acr_book_port c r p 0 m w) =
      w\<lparr>w_book := acr_set_cell (w_book w) c r m (?cell OR push_bit (acr_port_no p * 3) 1)\<rparr>"
    by (auto simp: acr_book_port_def Let_def split: if_splits)
  then show "booked (w_book (snd (acr_book_port c r p 0 m w))) x = (booked (w_book w) x \<or> x \<in> set [(c, r, p, m)])"
    using upd by (cases m; cases m') (auto simp: x acr_set_cell_def acr_book_cell_def)
qed

lemma emit_step: "planner_step (acr_emit_op op) [] [op]"
  by unfold_locales (auto simp: acr_emit_op_def plan_fits_def split: if_splits)

interpretation emit_slot: planner_step "acr_emit_slot c r p slot pkt msk msel arb" "[]"
  "[acr_slot_op c r p slot pkt msk msel arb]" for c r p slot pkt msk msel arb
  unfolding acr_emit_slot_def by (rule emit_step)

interpretation emit_master: planner_step "acr_emit_master c r p mselen arb" "[(c, r, p, True)]"
  "[acr_master_op c r p mselen arb]" for c r p mselen arb
  unfolding acr_emit_master_def using planner_step_then [OF book_step emit_step] by simp

interpretation emit_ret_slot: planner_step "acr_emit_ret_slot c r p slot msel" "[(c, r, p, False)]"
  "[acr_slot_op c r p slot 0 0 msel RT_RES_ARB_RET, acr_slave_op c r p 0 1]" for c r p slot msel
  unfolding acr_emit_ret_slot_def acr_emit_slot_def
  using planner_step_then [OF book_step planner_step_then [OF emit_step emit_step]] by simp

section \<open>What each tile contributes\<close>

interpretation chain_tile: planner_step
  "acr_chain_tile row k col_lo target_lo col_hi ctrl_id shim_col ingress is_top c"
  "chain_books row col_lo target_lo col_hi shim_col ingress is_top c"
  "chain_ops row k col_lo target_lo col_hi ctrl_id shim_col ingress is_top c"
  for row k col_lo target_lo col_hi ctrl_id shim_col ingress is_top c
proof -
  let ?p = "if c = col_lo then ingress else ACR_WEST" and ?h = "spine_head shim_col col_lo is_top c"
  note steps = planner_step_then [OF book_step planner_step_then [OF emit_slot.planner_step_axioms
    planner_step_then [OF emit_slot.planner_step_axioms planner_step_then [OF planner_step_when [OF emit_slot.planner_step_axioms]
    planner_step_then [OF emit_step planner_step_then [OF planner_step_when [OF emit_master.planner_step_axioms]
    planner_step_then [OF planner_step_when [OF emit_master.planner_step_axioms] planner_step_when [OF emit_master.planner_step_axioms]]]]]]]]
  show "planner_step (acr_chain_tile row k col_lo target_lo col_hi ctrl_id shim_col ingress is_top c)
     (chain_books row col_lo target_lo col_hi shim_col ingress is_top c)
     (chain_ops row k col_lo target_lo col_hi ctrl_id shim_col ingress is_top c)"
    unfolding acr_chain_tile_def Let_def spine_head_def [symmetric] chain_books_def chain_ops_def ACR_CLASS_ALL_BUT_LAST_def
      push_bit_of_0 or.left_neutral
    using steps by (simp only: if_cancel append.simps append_assoc)
qed

interpretation return_tile: planner_step
  "acr_return_tile row col_lo target_lo col_hi is_top c"
  "ret_books row col_lo target_lo col_hi is_top c"
  "ret_ops row col_lo target_lo col_hi is_top c"
  for row col_lo target_lo col_hi is_top c
proof -
  note ret = emit_ret_slot.planner_step_axioms and mas = emit_master.planner_step_axioms
  have head: "planner_step (acr_return_tile row c target_lo col_hi is_top c) (ret_books row c target_lo col_hi is_top c)
      (ret_ops row c target_lo col_hi is_top c)"
    unfolding acr_return_tile_def Let_def ret_books_def ret_ops_def ret_mselen_def ret_slot_ops_def if_P [OF refl]
    using planner_step_then [OF planner_step_when [OF ret] planner_step_then [OF planner_step_when [OF ret]
      planner_step_then [OF planner_step_when [OF ret] mas]]]
    by (simp only: append.simps append_assoc simp_thms)
  have rest: "planner_step (acr_return_tile row col_lo target_lo col_hi is_top c) (ret_books row col_lo target_lo col_hi is_top c)
      (ret_ops row col_lo target_lo col_hi is_top c)" if "c \<noteq> col_lo"
    unfolding acr_return_tile_def Let_def ret_books_def ret_ops_def ret_mselen_def ret_slot_ops_def
    using that planner_step_then [OF planner_step_when [OF ret] planner_step_then [OF planner_step_when [OF ret] mas]]
    by (simp only: append.simps append_assoc simp_thms if_False)
  show "planner_step (acr_return_tile row col_lo target_lo col_hi is_top c) (ret_books row col_lo target_lo col_hi is_top c)
      (ret_ops row col_lo target_lo col_hi is_top c)"
    using head rest by (cases "c = col_lo") simp_all
qed

lemma plan_chain_ex_step:
  assumes "chain_range col_lo target_lo col_hi" "k \<le> ACR_MAX_ROW_IDX"
  shows "planner_step (acr_plan_chain_ex row k col_lo target_lo col_hi ctrl_id shim_col ingress is_top)
     (row_chain_books row col_lo target_lo col_hi shim_col ingress is_top)
     (row_chain row k col_lo target_lo col_hi ctrl_id shim_col ingress is_top)"
proof -
  have "acr_plan_chain_ex row k col_lo target_lo col_hi ctrl_id shim_col ingress is_top =
      acr_each (acr_chain_tile row k col_lo target_lo col_hi ctrl_id shim_col ingress is_top) [col_lo..<Suc col_hi]"
    using assms by (intro ext) (auto simp: acr_plan_chain_ex_def chain_range_def ACR_NUM_SLOTS_def RT_RES_NUM_SLOTS_def)
  then show ?thesis
    unfolding row_chain_books_def row_chain_def
    using planner_step_each [of "[col_lo..<Suc col_hi]", OF chain_tile.planner_step_axioms] by (simp del: upt_Suc)
qed

lemma plan_return_chain_ex_step:
  assumes "chain_range col_lo target_lo col_hi"
  shows "planner_step (acr_plan_return_chain_ex row col_lo target_lo col_hi is_top)
     (row_return_books row col_lo target_lo col_hi is_top) (row_return row col_lo target_lo col_hi is_top)"
proof -
  have "acr_plan_return_chain_ex row col_lo target_lo col_hi is_top =
      acr_each (acr_return_tile row col_lo target_lo col_hi is_top) [col_lo..<Suc col_hi]"
    using assms by (intro ext) (auto simp: acr_plan_return_chain_ex_def chain_range_def)
  then show ?thesis
    unfolding row_return_books_def row_return_def
    using planner_step_each [of "[col_lo..<Suc col_hi]", OF return_tile.planner_step_axioms] by (simp del: upt_Suc)
qed

lemma plan_bad_range:
  "fst (acr_plan_chain_ex row k col_lo target_lo col_hi ctrl_id shim_col ingress is_top w) = ACR_OK \<Longrightarrow>
     chain_range col_lo target_lo col_hi \<and> k \<le> ACR_MAX_ROW_IDX"
  by (auto simp: acr_plan_chain_ex_def chain_range_def split: if_splits)

text \<open>The ports of one row are all different: the forward and the return fabric share none.\<close>

lemma row_books_distinct:
  assumes "ingress \<in> {ACR_WEST, ACR_SOUTH}"
  shows "distinct (row_chain_books row col_lo target_lo col_hi shim_col ingress is_top @
     row_return_books row col_lo target_lo col_hi is_top)"
proof -
  have d1: "distinct (concat (map (chain_books row col_lo target_lo col_hi shim_col ingress is_top) cs))" if "distinct cs" for cs
    using that by (induction cs) (auto simp: chain_books_def)
  have d2: "distinct (concat (map (ret_books row col_lo target_lo col_hi is_top) cs))" if "distinct cs" for cs
    using that by (induction cs) (auto simp: ret_books_def)
  have "set (row_chain_books row col_lo target_lo col_hi shim_col ingress is_top) \<inter>
      set (row_return_books row col_lo target_lo col_hi is_top) = {}"
    using assms by (auto simp: row_chain_books_def row_return_books_def chain_books_def ret_books_def split: if_splits)
  with d1 d2 show ?thesis
    by (simp add: row_chain_books_def row_return_books_def)
qed

section \<open>Everything emitted is reserved\<close>

lemma op_fields [simp]:
  "op_kind (acr_op0 kd c r) = kd" "op_col (acr_op0 kd c r) = c" "op_row (acr_op0 kd c r) = r"
  by (simp_all add: acr_op0_def)

lemma row_idx_cases: "k \<le> ACR_MAX_ROW_IDX \<Longrightarrow> k = 0 \<or> k = 1 \<or> k = 2 \<or> k = 3"
  by (auto simp: ACR_MAX_ROW_IDX_def RT_RES_MAX_ROW_IDX_def)

lemma reserved_slots:
  "res_is_reserved RT_RES_GEN2 0 0 0 0 0 0" "res_is_reserved RT_RES_GEN2 0 0 0 0 0 1"
  "res_is_reserved RT_RES_GEN2 0 0 0 0 0 2" "res_is_reserved RT_RES_GEN2 0 0 0 0 0 3"
  "res_is_reserved RT_RES_GEN2 3 0 0 0 0 0" "res_is_reserved RT_RES_GEN2 3 0 0 0 0 1"
  "res_is_reserved RT_RES_GEN2 3 0 0 0 0 2" "res_is_reserved RT_RES_GEN2 3 0 0 0 0 3"
  "res_is_reserved RT_RES_GEN2 0 0 1 0 1 0x10" "res_is_reserved RT_RES_GEN2 3 0 1 0 1 0x10"
  "res_is_reserved RT_RES_GEN2 0 0 2 0 2 0" "res_is_reserved RT_RES_GEN2 3 0 2 0 2 0"
  "res_is_reserved RT_RES_GEN2 4 0 0 1 0 0" "res_is_reserved RT_RES_GEN2 1 0 1 1 1 0" "res_is_reserved RT_RES_GEN2 2 0 2 1 2 0"
  by code_simp+

lemma reserved_masters:
  "res_is_reserved RT_RES_GEN2 4 1 0xFF 0 3 0xFF" "res_is_reserved RT_RES_GEN2 1 1 0xFF 0 0xB 0xFF"
  "res_is_reserved RT_RES_GEN2 2 1 0xFF 0 6 0xFF"
  by code_simp+

lemma reserved_ret_masters:
  "m \<in> {0, 1, 2, 3, 4, 5, 6, 7} \<Longrightarrow> p \<in> {0, 3} \<Longrightarrow> res_is_reserved RT_RES_GEN2 p 1 0xFF 1 m 0xFF"
  by (elim insertE emptyE; hypsubst; code_simp)

lemma reserved_gen: "res_is_reserved gen = res_is_reserved RT_RES_GEN2"
  by (intro ext) (simp add: res_is_reserved_def table_gen [of gen])

lemmas res_consts = RT_RES_PORT_WEST_def RT_RES_PORT_EAST_def RT_RES_PORT_NORTH_def RT_RES_PORT_SOUTH_def RT_RES_PORT_CTRL_def
  RT_RES_ARB_CTRL_def RT_RES_ARB_RET_def RT_RES_SLOT_CONSUME_def RT_RES_SLOT_BCAST_def RT_RES_SLOT_TRANSIT_N_def
  RT_RES_SLOT_RET_LOCAL_def RT_RES_SLOT_RET_TRANSIT_def RT_RES_SLOT_RET_NORTH_def
  RT_RES_MSEL_CONSUME_def RT_RES_MSEL_BCAST_def RT_RES_MSEL_TRANSIT_N_def RT_RES_MSEL_RET_LOCAL_def
  RT_RES_MSEL_RET_TRANSIT_def RT_RES_MSEL_RET_NORTH_def RT_RES_ID_BCAST_def RT_RES_MASK_BCAST_def RT_RES_ID_TRANSIT_def
  RT_RES_MASK_CLASS_def RT_RES_MASK_CONSUME_def RT_RES_NA_def ACR_MSELEN_CTRL_def ACR_MSELEN_EAST_def ACR_MSELEN_NORTH_def

lemma chain_ops_reserved:
  assumes "k \<le> ACR_MAX_ROW_IDX" "ingress \<in> {ACR_WEST, ACR_SOUTH}"
  shows "list_all (op_reserved gen) (chain_ops row k col_lo target_lo col_hi ctrl_id shim_col ingress is_top c)"
  using row_idx_cases [OF assms(1)] assms(2)
  by (auto simp: chain_ops_def Let_def op_reserved_def acr_slot_op_def acr_master_op_def acr_slave_op_def reserved_gen [of gen]
      res_consts reserved_slots reserved_masters)

lemma ret_mselen_cases: "ret_mselen col_lo target_lo col_hi is_top c \<in> {0, 1, 2, 3, 4, 5, 6, 7}"
  by (simp add: ret_mselen_def res_consts)

lemma ret_ops_reserved:
  "list_all (op_reserved gen) (ret_ops row col_lo target_lo col_hi is_top c)"
  using reserved_ret_masters [OF ret_mselen_cases]
  by (auto simp: ret_ops_def ret_slot_ops_def op_reserved_def acr_slot_op_def acr_master_op_def acr_slave_op_def reserved_gen [of gen]
      res_consts reserved_slots)

section \<open>Adding rows\<close>

lemma spine_hop_step:
  "planner_step (acr_spine_hop s shim_col r) []
     (if acr_row_is_head s r then []
      else [acr_cct_op shim_col r ACR_SOUTH ACR_NORTH 0, acr_cct_op shim_col r ACR_NORTH ACR_SOUTH 1])"
  unfolding acr_spine_hop_def
  using planner_step_when [OF planner_step_then [OF emit_step emit_step], of "\<not> acr_row_is_head s r"]
  by (cases "acr_row_is_head s r") simp_all

lemma row_add_work_step:
  assumes "row_args_ok s shim_col row col_lo col_hi"
  shows "planner_step (row_add_work s shim_col row col_lo col_hi ctrl_id is_top)
     (new_row_books shim_col row col_lo col_hi is_top) (new_row_ops s shim_col row col_lo col_hi ctrl_id is_top)"
proof -
  have r: "chain_range shim_col col_lo col_hi" and k: "length (rows s) \<le> ACR_MAX_ROW_IDX"
    using assms by (auto simp: row_args_ok_def chain_range_def)
  have sp: "planner_step (acr_each (acr_spine_hop s shim_col) [Suc (spine_top s)..<row]) [] (spine_ops s shim_col row)"
  proof -
    have nil: "concat (map (\<lambda>r. []) xs) = ([] :: acr_res list)" for xs :: "nat list" by (induction xs) auto
    show ?thesis
      unfolding spine_ops_def using planner_step_each [where f = "acr_spine_hop s shim_col" and xs = "[Suc (spine_top s)..<row]", OF spine_hop_step] by (simp only: nil)
  qed
  show ?thesis
    unfolding row_add_work_def new_row_books_def new_row_ops_def
    using planner_step_then [OF sp planner_step_then [OF plan_chain_ex_step [OF r k] plan_return_chain_ex_step [OF r]]]
    by simp
qed

lemma row_add_eq:
  assumes "row_args_ok s shim_col row col_lo col_hi" "\<not> acr_row_is_head s row" "f_state f = s"
  shows "fst (acr_plan_row_add shim_col row col_lo col_hi ctrl_id is_top f) =
      fst (row_add_work s shim_col row col_lo col_hi ctrl_id is_top (f_work f))"
    "fst (acr_plan_row_add shim_col row col_lo col_hi ctrl_id is_top f) = ACR_OK \<Longrightarrow>
      snd (acr_plan_row_add shim_col row col_lo col_hi ctrl_id is_top f) =
        \<lparr>f_state = new_state s row, f_work = snd (row_add_work s shim_col row col_lo col_hi ctrl_id is_top (f_work f))\<rparr>"
proof -
  let ?sp = "acr_each (acr_spine_hop s shim_col) [Suc (spine_top s)..<row]"
  have sp: "(if row - 1 > spine_top s then acr_each (acr_spine_hop s shim_col) [Suc (spine_top s)..<Suc (row - 1)] (f_work f)
      else (ACR_OK, f_work f)) = ?sp (f_work f)"
    using assms(1) by (auto simp: row_args_ok_def acr_ok_def simp del: upt_Suc)
  have st: "(if row - 1 > spine_top s then s\<lparr>spine_top := row - 1\<rparr> else s)\<lparr>rows := rows (if row - 1 > spine_top s then s\<lparr>spine_top := row - 1\<rparr> else s) @ [row]\<rparr>
      = new_state s row"
    by (simp add: new_state_def max_def)
  have args: "row \<noteq> 0" "\<not> shim_col \<ge> 64" "\<not> col_lo < shim_col" "\<not> length (rows s) \<ge> ACR_MAX_ROWS" "\<not> length (rows s) > ACR_MAX_ROW_IDX"
    using assms(1) by (auto simp: row_args_ok_def ACR_MAX_ROWS_def ACR_MAX_ROW_IDX_def RT_RES_MAX_ROW_IDX_def)
  let ?ch = "acr_then (acr_plan_chain_ex row (length (rows s)) shim_col col_lo col_hi ctrl_id (int shim_col) ACR_SOUTH is_top)
        (acr_plan_return_chain_ex row shim_col col_lo col_hi is_top)"
  obtain rc1 w1 where 1: "?sp (f_work f) = (rc1, w1)" by (cases "?sp (f_work f)")
  obtain rc2 w2 where 2: "?ch w1 = (rc2, w2)" by (cases "?ch w1")
  have W: "row_add_work s shim_col row col_lo col_hi ctrl_id is_top (f_work f) = (if rc1 = ACR_OK then (rc2, w2) else (rc1, w1))"
    unfolding row_add_work_def by (subst acr_then_def) (simp add: 1 2)
  have A: "acr_plan_row_add shim_col row col_lo col_hi ctrl_id is_top f =
      (if rc1 \<noteq> ACR_OK then (rc1, f\<lparr>f_work := w1\<rparr>)
       else if rc2 \<noteq> ACR_OK then (rc2, \<lparr>f_state = (if row - 1 > spine_top s then s\<lparr>spine_top := row - 1\<rparr> else s), f_work = w2\<rparr>)
       else (ACR_OK, \<lparr>f_state = new_state s row, f_work = w2\<rparr>))"
    unfolding acr_plan_row_add_def Let_def assms(3) sp 1 prod.case 2 st using args assms(2) by (simp only: if_False if_True simp_thms)
  show "fst (acr_plan_row_add shim_col row col_lo col_hi ctrl_id is_top f) =
      fst (row_add_work s shim_col row col_lo col_hi ctrl_id is_top (f_work f))"
    unfolding A W by simp
  show "snd (acr_plan_row_add shim_col row col_lo col_hi ctrl_id is_top f) =
        \<lparr>f_state = new_state s row, f_work = snd (row_add_work s shim_col row col_lo col_hi ctrl_id is_top (f_work f))\<rparr>"
    if "fst (acr_plan_row_add shim_col row col_lo col_hi ctrl_id is_top f) = ACR_OK"
    using that unfolding A W by (simp split: if_splits)
qed

lemma row_add_needs_args:
  assumes "fst (acr_plan_row_add shim_col row col_lo col_hi ctrl_id is_top f) = ACR_OK" "\<not> acr_row_is_head (f_state f) row"
  shows "row_args_ok (f_state f) shim_col row col_lo col_hi"
proof -
  have "chain_range shim_col col_lo col_hi"
    using assms by (auto simp: acr_plan_row_add_def Let_def acr_then_def split: if_splits prod.splits dest!: plan_bad_range [OF arg_cong [where f = fst, THEN trans]])
  then show ?thesis
    using assms by (auto simp: row_args_ok_def acr_plan_row_add_def Let_def chain_range_def split: if_splits)
qed

end
