(* ===== verification/ControlFabric.thy ===== *)
theory ControlFabric
  imports ControlPlan
begin

text \<open>
  The row control fabric of \<open>src/src/mlir/runtime/aie_runtime.c\<close>: \<open>rt_ctrl_plan_add_rows\<close> plans every
  chain with \<open>acr_plan_row_add\<close>, hands the operations to the driver (\<open>__Runtime_ctrl_row_emit\<close>) and, in
  high-throughput mode, withholds the return operations of the consumer tiles (\<open>rt_ctrl_ret_defer_take\<close>,
  \<open>rt_ctrl_ret_capture_row\<close>). The driver itself, the AIE driver library, is a parameter. On top of the
  operations stands the packet routing of a stream switch, and the properties say which tiles a control packet
  reaches and that every response comes back to the shim.
\<close>

section \<open>Programming the rows\<close>

datatype AieRC = XAIE_OK | XAIE_ERR | XAIE_INVALID_ARGS

record ctrl_chain =
  ch_row :: nat
  ch_col_lo :: nat
  ch_col_hi :: nat

text \<open>
  The fabric with the file's deferral globals. \<open>hw_ops\<close> are the operations the driver has executed and
  \<open>ret_captured\<close> those whose register writes the capture back end has recorded.
\<close>

record ctrl_fabric =
  cf_shim_col :: nat
  cf_ctrl_id :: u8
  cf_spine :: acr_state
  cf_book :: acr_portbook
  cf_rows :: "ctrl_chain list"
  g_ctrl_ret_defer_on :: bool
  g_ctrl_ret_aot :: bool
  g_ctrl_ret_defer :: "acr_op list"
  ret_captured :: "acr_op list"
  hw_ops :: "acr_op list"

text \<open>
  The driver: the result of \<open>rt_seq_row_op\<close> on an operation, whether no transaction is open, and whether
  the capture back end records the writes of a list of operations (it refuses masked and block writes).
\<close>

record ctrl_driver =
  drv_row_op :: "acr_op \<Rightarrow> AieRC"
  drv_idle :: bool
  drv_capture :: "acr_op list \<Rightarrow> bool"

primrec ctrl_row_emit :: "ctrl_driver \<Rightarrow> acr_op list \<Rightarrow> ctrl_fabric \<Rightarrow> AieRC \<times> ctrl_fabric" where
  "ctrl_row_emit d [] f = (XAIE_OK, f)"
| "ctrl_row_emit d (op # ops) f =
     (if drv_row_op d op \<noteq> XAIE_OK then (drv_row_op d op, f) else ctrl_row_emit d ops (f\<lparr>hw_ops := hw_ops f @ [op]\<rparr>))"

primrec ret_defer_loop :: "nat \<Rightarrow> nat \<Rightarrow> nat \<Rightarrow> acr_op list \<Rightarrow> acr_op list \<times> acr_op list \<Rightarrow> acr_op list \<times> acr_op list" where
  "ret_defer_loop row col_lo col_hi [] kt = kt"
| "ret_defer_loop row col_lo col_hi (op # ops) kt =
     (let taken = (op_is_ret op \<noteq> 0 \<and> op_row op = row \<and> op_col op \<ge> col_lo \<and> op_col op \<le> col_hi \<and> length (snd kt) < ACR_MAX_OPS)
      in ret_defer_loop row col_lo col_hi ops (if taken then (fst kt, snd kt @ [op]) else (fst kt @ [op], snd kt)))"

text \<open>The operations left for the driver, and the fabric with the others withheld.\<close>

definition rt_ctrl_ret_defer_take :: "nat \<Rightarrow> nat \<Rightarrow> nat \<Rightarrow> acr_op list \<Rightarrow> ctrl_fabric \<Rightarrow> acr_op list \<times> ctrl_fabric" where
  "rt_ctrl_ret_defer_take row col_lo col_hi ops f =
     (if \<not> g_ctrl_ret_defer_on f then (ops, f)
      else case ret_defer_loop row col_lo col_hi ops ([], g_ctrl_ret_defer f) of
        (keep, taken) \<Rightarrow> (keep, f\<lparr>g_ctrl_ret_defer := taken\<rparr>))"

definition rt_ctrl_ret_capture_row :: "ctrl_driver \<Rightarrow> ctrl_fabric \<Rightarrow> AieRC \<times> ctrl_fabric" where
  "rt_ctrl_ret_capture_row d f =
     (if g_ctrl_ret_aot f then (XAIE_OK, f\<lparr>g_ctrl_ret_defer := []\<rparr>)
      else if g_ctrl_ret_defer f = [] then (XAIE_OK, f)
      else
        case (if drv_idle d \<and> drv_capture d (g_ctrl_ret_defer f)
              then (XAIE_OK, f\<lparr>ret_captured := ret_captured f @ g_ctrl_ret_defer f\<rparr>)
              else ctrl_row_emit d (g_ctrl_ret_defer f) f) of
          (rc, f') \<Rightarrow> (rc, f'\<lparr>g_ctrl_ret_defer := []\<rparr>))"

definition rt_ctrl_plan_add_row :: "ctrl_driver \<Rightarrow> ctrl_chain \<Rightarrow> bool \<Rightarrow> ctrl_fabric \<Rightarrow> AieRC \<times> ctrl_fabric" where
  "rt_ctrl_plan_add_row d ch is_top f =
     (if length (cf_rows f) \<ge> ACR_MAX_ROWS then (XAIE_INVALID_ARGS, f)
      else
        case acr_plan_row_add (cf_shim_col f) (ch_row ch) (ch_col_lo ch) (ch_col_hi ch) (cf_ctrl_id f) is_top
               \<lparr>f_state = cf_spine f, f_work = \<lparr>w_ops = [], w_book = cf_book f\<rparr>\<rparr> of
          (prc, pf) \<Rightarrow>
            let f1 = f\<lparr>cf_spine := f_state pf, cf_book := w_book (f_work pf)\<rparr> in
            if prc \<noteq> ACR_OK then (XAIE_INVALID_ARGS, f1)
            else
              case rt_ctrl_ret_defer_take (ch_row ch) (ch_col_lo ch) (ch_col_hi ch) (w_ops (f_work pf)) f1 of
                (ops, f2) \<Rightarrow>
                  case ctrl_row_emit d ops f2 of
                    (rc, f3) \<Rightarrow>
                      case (if rc = XAIE_OK then rt_ctrl_ret_capture_row d f3 else (rc, f3)) of
                        (rc', f4) \<Rightarrow>
                          if rc' \<noteq> XAIE_OK then (rc', f4)
                          else (XAIE_OK, if length (rows (cf_spine f4)) > length (rows (cf_spine f))
                                         then f4\<lparr>cf_rows := cf_rows f4 @ [ch]\<rparr> else f4))"

primrec rt_add_rows_loop :: "ctrl_driver \<Rightarrow> nat \<Rightarrow> ctrl_chain list \<Rightarrow> ctrl_fabric \<Rightarrow> AieRC \<times> ctrl_fabric" where
  "rt_add_rows_loop d topr [] f = (XAIE_OK, f)"
| "rt_add_rows_loop d topr (ch # chs) f =
     (case rt_ctrl_plan_add_row d ch (ch_row ch = topr) f of
        (rc, f') \<Rightarrow> if rc \<noteq> XAIE_OK then (rc, f') else rt_add_rows_loop d topr chs f')"

definition top_row :: "ctrl_chain list \<Rightarrow> nat" where
  "top_row chs = foldl (\<lambda>t ch. if ch_row ch > t then ch_row ch else t) (ch_row (hd chs)) (tl chs)"

definition rt_ctrl_plan_add_rows :: "ctrl_driver \<Rightarrow> ctrl_chain list \<Rightarrow> ctrl_fabric \<Rightarrow> AieRC \<times> ctrl_fabric" where
  "rt_ctrl_plan_add_rows d chs f =
     (if length chs = 0 \<or> length chs > ACR_MAX_ROWS then (XAIE_INVALID_ARGS, f)
      else rt_add_rows_loop d (top_row chs) chs f)"

text \<open>The fabric \<open>rt_ctrl_plan_init\<close> clears and fills before it adds the rows.\<close>

definition empty_book :: acr_portbook where
  "empty_book = \<lparr>master_used = \<lambda>r c. 0, slave_used = \<lambda>r c. 0\<rparr>"

definition ctrl_fabric0 :: "nat \<Rightarrow> u8 \<Rightarrow> bool \<Rightarrow> bool \<Rightarrow> ctrl_fabric" where
  "ctrl_fabric0 shim_col ctrl_id defer_on aot =
     \<lparr>cf_shim_col = shim_col, cf_ctrl_id = ctrl_id, cf_spine = \<lparr>spine_top = 0, rows = []\<rparr>, cf_book = empty_book,
      cf_rows = [], g_ctrl_ret_defer_on = defer_on, g_ctrl_ret_aot = aot, g_ctrl_ret_defer = [], ret_captured = [],
      hw_ops = []\<rparr>"

section \<open>What the fabric is programmed with\<close>

definition fab_ops :: "ctrl_fabric \<Rightarrow> acr_op set" where
  "fab_ops f = set (hw_ops f) \<union> set (ret_captured f)"

definition spine_state :: "ctrl_chain list \<Rightarrow> acr_state" where
  "spine_state pre = \<lparr>spine_top = foldl (\<lambda>t ch. max t (ch_row ch - 1)) 0 pre, rows = map ch_row pre\<rparr>"

definition chain_plan :: "nat \<Rightarrow> u8 \<Rightarrow> nat \<Rightarrow> ctrl_chain list \<Rightarrow> ctrl_chain \<Rightarrow> acr_op list" where
  "chain_plan shim_col ctrl_id topr pre ch =
     new_row_ops (spine_state pre) shim_col (ch_row ch) (ch_col_lo ch) (ch_col_hi ch) ctrl_id (ch_row ch = topr)"

definition chain_plans :: "nat \<Rightarrow> u8 \<Rightarrow> nat \<Rightarrow> ctrl_chain list \<Rightarrow> acr_op set" where
  "chain_plans shim_col ctrl_id topr chs = (\<Union>k<length chs. set (chain_plan shim_col ctrl_id topr (take k chs) (chs ! k)))"

text \<open>The fabric after adding the chains \<open>pre\<close>.\<close>

definition fabric_after :: "nat \<Rightarrow> ctrl_fabric \<Rightarrow> ctrl_chain list \<Rightarrow> ctrl_fabric \<Rightarrow> bool" where
  "fabric_after topr f0 pre f \<longleftrightarrow>
     cf_shim_col f = cf_shim_col f0 \<and> cf_ctrl_id f = cf_ctrl_id f0 \<and> cf_spine f = spine_state pre \<and> cf_rows f = pre \<and>
     \<not> g_ctrl_ret_aot f \<and> g_ctrl_ret_defer f = [] \<and>
     fab_ops f = chain_plans (cf_shim_col f0) (cf_ctrl_id f0) topr pre \<and>
     list_all (\<lambda>ch. 0 < ch_row ch \<and> cf_shim_col f0 \<le> ch_col_lo ch \<and> ch_col_lo ch \<le> ch_col_hi ch \<and> ch_col_hi ch < 64) pre \<and>
     length pre \<le> Suc ACR_MAX_ROW_IDX"

section \<open>Packets in the stream switches\<close>

fun neighbour :: "nat \<Rightarrow> nat \<Rightarrow> acr_port \<Rightarrow> (nat \<times> nat \<times> acr_port) option" where
  "neighbour c r ACR_EAST = Some (c + 1, r, ACR_WEST)"
| "neighbour c r ACR_WEST = (if c = 0 then None else Some (c - 1, r, ACR_EAST))"
| "neighbour c r ACR_NORTH = Some (c, r + 1, ACR_SOUTH)"
| "neighbour c r ACR_SOUTH = (if r = 0 then None else Some (c, r - 1, ACR_NORTH))"
| "neighbour c r ACR_CTRL = None"

definition slot_matches :: "u8 \<Rightarrow> acr_op \<Rightarrow> bool" where
  "slot_matches pid op = (pid AND op_mask op = op_pkt_id op AND op_mask op)"

definition slots_at :: "acr_op set \<Rightarrow> nat \<Rightarrow> nat \<Rightarrow> acr_port \<Rightarrow> u8 \<Rightarrow> acr_op set" where
  "slots_at ops c r p pid =
     {op \<in> ops. op_kind op = ACR_OP_SLOT \<and> op_col op = c \<and> op_row op = r \<and> op_sport op = p \<and> slot_matches pid op}"

definition slave_enabled :: "acr_op set \<Rightarrow> nat \<Rightarrow> nat \<Rightarrow> acr_port \<Rightarrow> bool" where
  "slave_enabled ops c r p = (\<exists>op\<in>ops. op_kind op = ACR_OP_SLAVE_EN \<and> op_col op = c \<and> op_row op = r \<and> op_sport op = p)"

text \<open>
  The master \<open>m\<close> of a tile repeats a packet that stands at the slave port \<open>p\<close>: a slot of the port fires and
  injects it into the arbiter of the master with a select value the master is enabled for. Which of several
  matching slots fires is the hardware's choice \<open>fire\<close>.
\<close>

definition repeats :: "(acr_op set \<Rightarrow> acr_op set) \<Rightarrow> acr_op set \<Rightarrow> u8 \<Rightarrow> nat \<Rightarrow> nat \<Rightarrow> acr_port \<Rightarrow> acr_port \<Rightarrow> bool" where
  "repeats fire ops pid c r p q \<longleftrightarrow> slave_enabled ops c r p \<and>
     (\<exists>m\<in>ops. \<exists>s\<in>fire (slots_at ops c r p pid).
        op_kind m = ACR_OP_MASTER_EN \<and> op_col m = c \<and> op_row m = r \<and> op_mport m = q \<and>
        op_arbiter s = op_arbiter m \<and> bit (op_mselen m) (unat (op_msel s)))"

definition circuit :: "acr_op set \<Rightarrow> nat \<Rightarrow> nat \<Rightarrow> acr_port \<Rightarrow> acr_port \<Rightarrow> bool" where
  "circuit ops c r p q =
     (\<exists>op\<in>ops. op_kind op = ACR_OP_CCT \<and> op_col op = c \<and> op_row op = r \<and> op_sport op = p \<and> op_mport op = q)"

text \<open>The slave ports a packet reaches from \<open>src\<close>.\<close>

inductive reaches :: "(acr_op set \<Rightarrow> acr_op set) \<Rightarrow> acr_op set \<Rightarrow> u8 \<Rightarrow> nat \<times> nat \<times> acr_port \<Rightarrow> nat \<times> nat \<times> acr_port \<Rightarrow> bool"
  for fire ops pid src where
  source: "reaches fire ops pid src src"
| hop: "reaches fire ops pid src (c, r, p) \<Longrightarrow> circuit ops c r p q \<or> repeats fire ops pid c r p q \<Longrightarrow>
    neighbour c r q = Some x \<Longrightarrow> reaches fire ops pid src x"

definition consumes :: "(acr_op set \<Rightarrow> acr_op set) \<Rightarrow> acr_op set \<Rightarrow> u8 \<Rightarrow> nat \<times> nat \<times> acr_port \<Rightarrow> nat \<Rightarrow> nat \<Rightarrow> bool" where
  "consumes fire ops pid src c r = (\<exists>p. reaches fire ops pid src (c, r, p) \<and> repeats fire ops pid c r p ACR_CTRL)"

definition lowest_slots :: "acr_op set \<Rightarrow> acr_op set" where
  "lowest_slots S = {op \<in> S. \<forall>op'\<in>S. op_slot op \<le> op_slot op'}"

section \<open>Vocabulary of the proofs\<close>

definition ascending :: "nat \<Rightarrow> ctrl_chain list \<Rightarrow> bool" where
  "ascending shim_col chs \<longleftrightarrow> chs \<noteq> [] \<and> sorted_wrt (<) (map ch_row chs) \<and> length chs \<le> Suc ACR_MAX_ROW_IDX \<and>
     list_all (\<lambda>ch. 0 < ch_row ch \<and> shim_col \<le> ch_col_lo ch \<and> ch_col_lo ch \<le> ch_col_hi ch \<and> ch_col_hi ch < 64) chs"

definition rowk :: "ctrl_chain list \<Rightarrow> nat \<Rightarrow> nat" where "rowk chs k = ch_row (chs ! k)"

definition lok :: "ctrl_chain list \<Rightarrow> nat \<Rightarrow> nat" where "lok chs k = ch_col_lo (chs ! k)"

definition hik :: "ctrl_chain list \<Rightarrow> nat \<Rightarrow> nat" where "hik chs k = ch_col_hi (chs ! k)"

definition in_port :: "nat \<Rightarrow> nat \<Rightarrow> acr_port" where
  "in_port shim_col c = (if c = shim_col then ACR_SOUTH else ACR_WEST)"

abbreviation fabric :: "nat \<Rightarrow> u8 \<Rightarrow> ctrl_chain list \<Rightarrow> acr_op set" where
  "fabric shim_col ctrl_id chs \<equiv> chain_plans shim_col ctrl_id (top_row chs) chs"

text \<open>Membership in the planned operations, chain by chain.\<close>

definition kth_chain :: "nat \<Rightarrow> u8 \<Rightarrow> ctrl_chain list \<Rightarrow> nat \<Rightarrow> nat \<Rightarrow> acr_op list" where
  "kth_chain shim ctrl_id chs k =
     chain_ops (rowk chs k) k shim (lok chs k) (hik chs k) ctrl_id (int shim) ACR_SOUTH (Suc k = length chs)"

definition kth_ret :: "nat \<Rightarrow> ctrl_chain list \<Rightarrow> nat \<Rightarrow> nat \<Rightarrow> acr_op list" where
  "kth_ret shim chs k = ret_ops (rowk chs k) shim (lok chs k) (hik chs k) (Suc k = length chs)"

definition spine_rows :: "ctrl_chain list \<Rightarrow> nat set" where
  "spine_rows chs = {r. 0 < r \<and> r \<notin> ch_row ` set chs \<and> (\<exists>k<length chs. r < rowk chs k)}"

definition consume_slot :: "nat \<Rightarrow> ctrl_chain list \<Rightarrow> nat \<Rightarrow> nat \<Rightarrow> acr_op" where
  "consume_slot shim chs k c =
     acr_slot_op c (rowk chs k) (in_port shim c) RT_RES_SLOT_CONSUME (of_nat k) RT_RES_MASK_CONSUME RT_RES_MSEL_CONSUME RT_RES_ARB_CTRL"

definition bcast_slot :: "nat \<Rightarrow> ctrl_chain list \<Rightarrow> nat \<Rightarrow> nat \<Rightarrow> acr_op" where
  "bcast_slot shim chs k c =
     acr_slot_op c (rowk chs k) (in_port shim c) RT_RES_SLOT_BCAST RT_RES_ID_BCAST RT_RES_MASK_BCAST RT_RES_MSEL_BCAST RT_RES_ARB_CTRL"

definition transit_slot :: "nat \<Rightarrow> ctrl_chain list \<Rightarrow> nat \<Rightarrow> acr_op" where
  "transit_slot shim chs k =
     acr_slot_op shim (rowk chs k) ACR_SOUTH RT_RES_SLOT_TRANSIT_N RT_RES_ID_TRANSIT RT_RES_MASK_CLASS RT_RES_MSEL_TRANSIT_N RT_RES_ARB_CTRL"

definition selects :: "u8 \<Rightarrow> nat \<Rightarrow> bool" where
  "selects pid k = (bit pid 4 \<or> pid AND 0x17 = of_nat k)"

definition shim_fwd_ops :: "nat \<Rightarrow> nat \<Rightarrow> nat \<Rightarrow> acr_op list" where
  "shim_fwd_ops col_lo col_hi c =
     [acr_shim_slot_op c 0 (acr_shim_row_id (c - col_lo)) ACR_MASK_EXACT 0] @
     (if c < col_hi then [acr_shim_slot_op c 1 (push_bit (c - col_lo) 1) (push_bit (c - col_lo) 1) 1] else []) @
     [acr_slave_op c 0 ACR_WEST 0 0, acr_shim_master_op c ACR_CTRL 1] @
     (if c < col_hi then [acr_shim_master_op c ACR_EAST 2] else [])"

definition shim_fwd_books :: "nat \<Rightarrow> nat \<Rightarrow> acr_res list" where
  "shim_fwd_books col_hi c =
     [(c, 0, ACR_WEST, False), (c, 0, ACR_CTRL, True)] @ (if c < col_hi then [(c, 0, ACR_EAST, True)] else [])"

definition shim_ops :: "nat \<Rightarrow> nat \<Rightarrow> acr_op set" where
  "shim_ops col_lo n = set (concat (map (shim_fwd_ops col_lo (col_lo + n)) [col_lo..<Suc (col_lo + n)]))"

definition shim_own :: "nat \<Rightarrow> nat \<Rightarrow> acr_op" where
  "shim_own col_lo j = acr_shim_slot_op (col_lo + j) 0 (acr_shim_row_id j) ACR_MASK_EXACT 0"

definition shim_fwd_slot :: "nat \<Rightarrow> nat \<Rightarrow> acr_op" where
  "shim_fwd_slot col_lo j = acr_shim_slot_op (col_lo + j) 1 (push_bit j 1) (push_bit j 1) 1"

lemma row_emit_ok:
  "fst (ctrl_row_emit d ops f) = XAIE_OK \<Longrightarrow> snd (ctrl_row_emit d ops f) = f\<lparr>hw_ops := hw_ops f @ ops\<rparr>"
  by (induction ops arbitrary: f) (auto split: if_splits)

lemma ret_defer_loop_set:
  "set (fst (ret_defer_loop row lo hi ops kt)) \<union> set (snd (ret_defer_loop row lo hi ops kt)) = set ops \<union> set (fst kt) \<union> set (snd kt)"
  by (induction ops arbitrary: kt) (auto simp: Let_def)

lemma row_add_fresh:
  assumes "fst (acr_plan_row_add shim_col row lo hi cid is_top \<lparr>f_state = s, f_work = \<lparr>w_ops = [], w_book = b\<rparr>\<rparr>) = ACR_OK"
    and "row \<notin> set (rows s)"
  shows "f_state (snd (acr_plan_row_add shim_col row lo hi cid is_top \<lparr>f_state = s, f_work = \<lparr>w_ops = [], w_book = b\<rparr>\<rparr>)) = new_state s row"
    "w_ops (f_work (snd (acr_plan_row_add shim_col row lo hi cid is_top \<lparr>f_state = s, f_work = \<lparr>w_ops = [], w_book = b\<rparr>\<rparr>))) =
       new_row_ops s shim_col row lo hi cid is_top"
    "row_args_ok s shim_col row lo hi"
proof -
  let ?f = "\<lparr>f_state = s, f_work = \<lparr>w_ops = [], w_book = b\<rparr>\<rparr>"
  have nh: "\<not> acr_row_is_head s row" using assms(2) by (simp add: acr_row_is_head_def)
  show args: "row_args_ok s shim_col row lo hi" using row_add_needs_args [OF assms(1)] nh by simp
  note eq = row_add_eq [OF args nh, of ?f cid is_top, simplified]
  note st = eq(2) [OF assms(1)]
  show "f_state (snd (acr_plan_row_add shim_col row lo hi cid is_top ?f)) = new_state s row" by (simp add: st)
  have "fst (row_add_work s shim_col row lo hi cid is_top \<lparr>w_ops = [], w_book = b\<rparr>) = ACR_OK"
    using assms(1) eq(1) by simp
  then show "w_ops (f_work (snd (acr_plan_row_add shim_col row lo hi cid is_top ?f))) = new_row_ops s shim_col row lo hi cid is_top"
    using planner_step.ok_ops [OF row_add_work_step [OF args]] by (simp add: st)
qed

lemma capture_row_ok:
  assumes "fst (rt_ctrl_ret_capture_row d f) = XAIE_OK" "\<not> g_ctrl_ret_aot f"
  obtains h c where "snd (rt_ctrl_ret_capture_row d f) = f\<lparr>hw_ops := h, ret_captured := c, g_ctrl_ret_defer := []\<rparr>"
    "set h \<union> set c = fab_ops f \<union> set (g_ctrl_ret_defer f)"
proof (cases "g_ctrl_ret_defer f = [] \<or> drv_idle d \<and> drv_capture d (g_ctrl_ret_defer f)")
  case True
  then have "snd (rt_ctrl_ret_capture_row d f) =
      f\<lparr>hw_ops := hw_ops f, ret_captured := ret_captured f @ g_ctrl_ret_defer f, g_ctrl_ret_defer := []\<rparr>"
    using assms(2) by (auto simp: rt_ctrl_ret_capture_row_def)
  then show ?thesis by (rule that) (simp add: fab_ops_def Un_assoc)
next
  case False
  then have "snd (rt_ctrl_ret_capture_row d f) =
      f\<lparr>hw_ops := hw_ops f @ g_ctrl_ret_defer f, ret_captured := ret_captured f, g_ctrl_ret_defer := []\<rparr>"
    using assms row_emit_ok [of d "g_ctrl_ret_defer f" f] by (auto simp: rt_ctrl_ret_capture_row_def split: prod.splits)
  then show ?thesis by (rule that) (auto simp: fab_ops_def)
qed

lemma defer_take_ok:
  obtains df where "snd (rt_ctrl_ret_defer_take row lo hi ops f) = f\<lparr>g_ctrl_ret_defer := df\<rparr>"
    "set (fst (rt_ctrl_ret_defer_take row lo hi ops f)) \<union> set df = set ops \<union> set (g_ctrl_ret_defer f)"
proof (cases "g_ctrl_ret_defer_on f")
  case True
  obtain keep taken where L: "ret_defer_loop row lo hi ops ([], g_ctrl_ret_defer f) = (keep, taken)" by fastforce
  show ?thesis
    by (rule that [of taken])
      (use True L ret_defer_loop_set [of row lo hi ops "([], g_ctrl_ret_defer f)"] in \<open>simp_all add: rt_ctrl_ret_defer_take_def\<close>)
next
  case False
  then show ?thesis using that [of "g_ctrl_ret_defer f"] by (simp add: rt_ctrl_ret_defer_take_def)
qed

lemma add_row_ok:
  assumes ok: "fst (rt_ctrl_plan_add_row d ch is_top f) = XAIE_OK" and new: "ch_row ch \<notin> set (rows (cf_spine f))"
    and aot: "\<not> g_ctrl_ret_aot f" and df: "g_ctrl_ret_defer f = []"
  obtains b h c where
    "snd (rt_ctrl_plan_add_row d ch is_top f) =
       f\<lparr>cf_spine := new_state (cf_spine f) (ch_row ch), cf_book := b, cf_rows := cf_rows f @ [ch], hw_ops := h, ret_captured := c\<rparr>"
    "set h \<union> set c = fab_ops f \<union>
       set (new_row_ops (cf_spine f) (cf_shim_col f) (ch_row ch) (ch_col_lo ch) (ch_col_hi ch) (cf_ctrl_id f) is_top)"
    "row_args_ok (cf_spine f) (cf_shim_col f) (ch_row ch) (ch_col_lo ch) (ch_col_hi ch)"
proof -
  let ?pf = "\<lparr>f_state = cf_spine f, f_work = \<lparr>w_ops = [], w_book = cf_book f\<rparr>\<rparr>"
  let ?p = "acr_plan_row_add (cf_shim_col f) (ch_row ch) (ch_col_lo ch) (ch_col_hi ch) (cf_ctrl_id f) is_top ?pf"
  obtain prc pf where P: "?p = (prc, pf)" by (cases ?p)
  from ok have len: "\<not> length (cf_rows f) \<ge> ACR_MAX_ROWS" and prc: "prc = ACR_OK"
    by (auto simp: rt_ctrl_plan_add_row_def P Let_def split: if_splits)
  from row_add_fresh [OF _ new, of "cf_shim_col f" "ch_col_lo ch" "ch_col_hi ch" "cf_ctrl_id f" is_top "cf_book f"] P prc
  have pst: "f_state pf = new_state (cf_spine f) (ch_row ch)"
    and pops: "w_ops (f_work pf) = new_row_ops (cf_spine f) (cf_shim_col f) (ch_row ch) (ch_col_lo ch) (ch_col_hi ch) (cf_ctrl_id f) is_top"
    and args: "row_args_ok (cf_spine f) (cf_shim_col f) (ch_row ch) (ch_col_lo ch) (ch_col_hi ch)"
    by simp_all
  define f1 where "f1 = f\<lparr>cf_spine := f_state pf, cf_book := w_book (f_work pf)\<rparr>"
  let ?t = "rt_ctrl_ret_defer_take (ch_row ch) (ch_col_lo ch) (ch_col_hi ch) (w_ops (f_work pf)) f1"
  obtain os f2 where t: "?t = (os, f2)" by fastforce
  obtain dl where T: "f2 = f1\<lparr>g_ctrl_ret_defer := dl\<rparr>" "set os \<union> set dl = set (w_ops (f_work pf)) \<union> set (g_ctrl_ret_defer f1)"
    by (rule defer_take_ok [of "ch_row ch" "ch_col_lo ch" "ch_col_hi ch" "w_ops (f_work pf)" f1]) (simp add: t)
  obtain rc3 f3 where e: "ctrl_row_emit d os f2 = (rc3, f3)" by fastforce
  obtain rc4 f4 where k: "rt_ctrl_ret_capture_row d f3 = (rc4, f4)" by fastforce
  from ok len P prc have rcs: "rc3 = XAIE_OK" "rc4 = XAIE_OK"
    by (auto simp: rt_ctrl_plan_add_row_def Let_def f1_def [symmetric] t e k split: if_splits)
  with row_emit_ok [of d os f2] have f3: "f3 = f2\<lparr>hw_ops := hw_ops f2 @ os\<rparr>" by (simp add: e)
  from aot have "\<not> g_ctrl_ret_aot f3" by (simp add: f3 T f1_def)
  with rcs obtain h c where F: "f4 = f3\<lparr>hw_ops := h, ret_captured := c, g_ctrl_ret_defer := []\<rparr>"
      "set h \<union> set c = fab_ops f3 \<union> set (g_ctrl_ret_defer f3)"
    using capture_row_ok [of d f3 thesis] by (simp add: k)
  have "snd (rt_ctrl_plan_add_row d ch is_top f) = f4\<lparr>cf_rows := cf_rows f @ [ch]\<rparr>"
    using len prc rcs
    by (simp add: rt_ctrl_plan_add_row_def P Let_def f1_def [symmetric] t e k) (simp add: F f3 T f1_def pst new_state_def)
  also have "\<dots> = f\<lparr>cf_spine := new_state (cf_spine f) (ch_row ch), cf_book := w_book (f_work pf), cf_rows := cf_rows f @ [ch],
       hw_ops := h, ret_captured := c\<rparr>"
    by (simp add: F f3 T f1_def pst df)
  finally have 1: "snd (rt_ctrl_plan_add_row d ch is_top f) = \<dots>" .
  have "set h \<union> set c = fab_ops f \<union> (set os \<union> set dl)"
    unfolding F(2) by (auto simp: fab_ops_def f3 T(1) f1_def)
  also have "\<dots> = fab_ops f \<union>
       set (new_row_ops (cf_spine f) (cf_shim_col f) (ch_row ch) (ch_col_lo ch) (ch_col_hi ch) (cf_ctrl_id f) is_top)"
    unfolding T(2) pops by (simp add: f1_def df)
  finally show thesis by (rule that [OF 1 _ args])
qed

lemma chain_plans_snoc:
  "chain_plans shim_col ctrl_id topr (pre @ [ch]) =
     chain_plans shim_col ctrl_id topr pre \<union> set (chain_plan shim_col ctrl_id topr pre ch)"
proof -
  have "chain_plan shim_col ctrl_id topr (take k (pre @ [ch])) ((pre @ [ch]) ! k) = chain_plan shim_col ctrl_id topr (take k pre) (pre ! k)"
    if "k < length pre" for k
    using that by (simp add: nth_append)
  then show ?thesis by (simp add: chain_plans_def lessThan_Suc Un_commute)
qed

lemma spine_state_snoc: "new_state (spine_state pre) (ch_row ch) = spine_state (pre @ [ch])"
  by (simp add: spine_state_def new_state_def)

lemma add_rows_loop_ok:
  assumes "fst (rt_add_rows_loop d topr chs f) = XAIE_OK" "fabric_after topr f0 pre f" "distinct (map ch_row (pre @ chs))"
  shows "fabric_after topr f0 (pre @ chs) (snd (rt_add_rows_loop d topr chs f))"
  using assms
proof (induction chs arbitrary: f pre)
  case Nil
  then show ?case by simp
next
  case (Cons ch chs)
  let ?r = "rt_ctrl_plan_add_row d ch (ch_row ch = topr) f"
  from Cons.prems(1) have ok: "fst ?r = XAIE_OK" and rest: "fst (rt_add_rows_loop d topr chs (snd ?r)) = XAIE_OK"
    by (auto split: prod.splits if_splits)
  have inv: "cf_spine f = spine_state pre" "\<not> g_ctrl_ret_aot f" "g_ctrl_ret_defer f = []"
    using Cons.prems(2) by (auto simp: fabric_after_def)
  have new: "ch_row ch \<notin> set (rows (cf_spine f))" using Cons.prems(3) by (auto simp: inv spine_state_def)
  obtain b h c where R:
    "snd ?r = f\<lparr>cf_spine := new_state (cf_spine f) (ch_row ch), cf_book := b, cf_rows := cf_rows f @ [ch], hw_ops := h, ret_captured := c\<rparr>"
    "set h \<union> set c = fab_ops f \<union>
       set (new_row_ops (cf_spine f) (cf_shim_col f) (ch_row ch) (ch_col_lo ch) (ch_col_hi ch) (cf_ctrl_id f) (ch_row ch = topr))"
    "row_args_ok (cf_spine f) (cf_shim_col f) (ch_row ch) (ch_col_lo ch) (ch_col_hi ch)"
    by (rule add_row_ok [OF ok new inv(2,3)])
  have "fabric_after topr f0 (pre @ [ch]) (snd ?r)"
    using Cons.prems(2) R unfolding fabric_after_def
    by (auto simp: spine_state_snoc chain_plans_snoc chain_plan_def fab_ops_def row_args_ok_def) (simp_all add: spine_state_def)
  from Cons.IH [OF rest this] Cons.prems(3) ok show ?case by (auto split: prod.splits)
qed

lemma top_row_ge: "ch \<in> set chs \<Longrightarrow> ch_row ch \<le> top_row chs"
proof -
  have "x \<le> foldl (\<lambda>t ch. if ch_row ch > t then ch_row ch else t) a cs"
    if "x \<le> a \<or> (\<exists>ch\<in>set cs. x \<le> ch_row ch)" for x a and cs :: "ctrl_chain list"
    using that by (induction cs arbitrary: a) auto
  then show "ch \<in> set chs \<Longrightarrow> ?thesis" by (cases chs) (auto simp: top_row_def)
qed

lemma top_row_in: "chs \<noteq> [] \<Longrightarrow> \<exists>ch\<in>set chs. ch_row ch = top_row chs"
proof -
  have "foldl (\<lambda>t ch. if ch_row ch > t then ch_row ch else t) a cs \<in> insert a (ch_row ` set cs)" for a and cs :: "ctrl_chain list"
    by (induction cs arbitrary: a) auto
  from this [of "ch_row (hd chs)" "tl chs"] show "chs \<noteq> [] \<Longrightarrow> ?thesis" by (cases chs) (auto simp: top_row_def)
qed

lemma add_rows_ok:
  assumes "rt_ctrl_plan_add_rows d chs (ctrl_fabric0 shim_col ctrl_id defer_on False) = (XAIE_OK, f)" "distinct (map ch_row chs)"
  shows "chs \<noteq> []" "fabric_after (top_row chs) (ctrl_fabric0 shim_col ctrl_id defer_on False) chs f"
proof -
  let ?f0 = "ctrl_fabric0 shim_col ctrl_id defer_on False"
  show "chs \<noteq> []" using assms(1) by (auto simp: rt_ctrl_plan_add_rows_def)
  from assms(1) have run: "rt_add_rows_loop d (top_row chs) chs ?f0 = (XAIE_OK, f)"
    by (auto simp: rt_ctrl_plan_add_rows_def split: if_splits)
  have "fabric_after (top_row chs) ?f0 [] ?f0"
    by (simp add: fabric_after_def ctrl_fabric0_def spine_state_def fab_ops_def chain_plans_def)
  from add_rows_loop_ok [OF _ this, of d chs] run assms(2)
  show "fabric_after (top_row chs) ?f0 chs f" by simp
qed

section \<open>Slot arbitration\<close>

text \<open>
  What the planner relies on of the slot arbitration of a switch: only matching slots fire, and the matching slot
  with the lowest number is one of them.
\<close>

locale slot_arbitration =
  fixes fire :: "acr_op set \<Rightarrow> acr_op set"
  assumes fire_subset: "fire S \<subseteq> S"
    and fire_lowest: "op \<in> S \<Longrightarrow> (\<And>op'. op' \<in> S \<Longrightarrow> op' \<noteq> op \<Longrightarrow> op_slot op < op_slot op') \<Longrightarrow> op \<in> fire S"

interpretation lowest: slot_arbitration lowest_slots
  by unfold_locales (auto simp: lowest_slots_def dest: less_imp_le)

section \<open>The operations of ascending rows\<close>

lemma rowk_less: "ascending shim chs \<Longrightarrow> j < k \<Longrightarrow> k < length chs \<Longrightarrow> rowk chs j < rowk chs k"
  by (auto simp: ascending_def rowk_def sorted_wrt_iff_nth_less)

lemma rowk_eq: "ascending shim chs \<Longrightarrow> j < length chs \<Longrightarrow> k < length chs \<Longrightarrow> (rowk chs j = rowk chs k) = (j = k)"
  using rowk_less [of shim chs j k] rowk_less [of shim chs k j] by (cases j k rule: linorder_cases) auto

lemma top_rowk: "ascending shim chs \<Longrightarrow> k < length chs \<Longrightarrow> (rowk chs k = top_row chs) = (Suc k = length chs)"
proof -
  assume a: "ascending shim chs" and k: "k < length chs"
  let ?n = "length chs - 1"
  have n: "?n < length chs" using k by simp
  obtain j where j: "j < length chs" "rowk chs j = top_row chs"
    using top_row_in [of chs] k by (force simp: in_set_conv_nth rowk_def)
  have "rowk chs ?n \<le> top_row chs" using top_row_ge [of "chs ! ?n" chs] n by (simp add: rowk_def)
  with rowk_less [OF a, of j ?n] j n have "j = ?n" by (cases "j < ?n") auto
  with j rowk_eq [OF a k n] show ?thesis using k by auto
qed

lemma chain_range_k:
  assumes "ascending shim chs" "k < length chs"
  shows "0 < rowk chs k" "shim \<le> lok chs k" "lok chs k \<le> hik chs k" "hik chs k < 64" "k \<le> ACR_MAX_ROW_IDX"
  using assms by (auto simp: ascending_def rowk_def lok_def hik_def list_all_length)

lemma spine_state_top:
  assumes "ascending shim chs" "k < length chs"
  shows "spine_top (spine_state (take k chs)) = (if k = 0 then 0 else rowk chs (k - 1) - 1)"
proof -
  have "foldl (\<lambda>t ch. max t (ch_row ch - 1)) 0 (take k chs) = (if k = 0 then 0 else rowk chs (k - 1) - 1)"
    using assms(2)
  proof (induction k)
    case (Suc k)
    then have "foldl (\<lambda>t ch. max t (ch_row ch - 1)) 0 (take (Suc k) chs) = max (if k = 0 then 0 else rowk chs (k - 1) - 1) (rowk chs k - 1)"
      by (simp add: take_Suc_conv_app_nth rowk_def)
    moreover have "k > 0 \<Longrightarrow> rowk chs (k - 1) - 1 \<le> rowk chs k - 1" using rowk_less [OF assms(1), of "k - 1" k] Suc.prems by simp
    ultimately show ?case by (cases "k = 0") (simp_all add: max_absorb2)
  qed simp
  then show ?thesis by (simp add: spine_state_def)
qed

lemma spine_hops_rows:
  assumes "ascending shim chs"
  shows "(\<exists>k<length chs. r \<in> set [Suc (spine_top (spine_state (take k chs)))..<rowk chs k] \<and>
      \<not> acr_row_is_head (spine_state (take k chs)) r) = (r \<in> spine_rows chs)"
proof
  assume "\<exists>k<length chs. r \<in> set [Suc (spine_top (spine_state (take k chs)))..<rowk chs k] \<and>
      \<not> acr_row_is_head (spine_state (take k chs)) r"
  then obtain k where k: "k < length chs" "r \<in> set [Suc (spine_top (spine_state (take k chs)))..<rowk chs k]"
      "\<not> acr_row_is_head (spine_state (take k chs)) r" by blast
  have "r \<noteq> rowk chs j" if j: "j < length chs" for j
  proof (cases "j < k")
    case True
    then have "ch_row (chs ! j) \<in> ch_row ` set (take k chs)" using j k(1)
      by (intro imageI) (auto simp: in_set_conv_nth intro!: exI [of _ j])
    with k(3) show ?thesis by (auto simp: acr_row_is_head_def spine_state_def rowk_def)
  next
    case False
    then have "rowk chs k \<le> rowk chs j" using rowk_less [OF assms, of k j] j by (cases "k = j") auto
    with k(2) show ?thesis by auto
  qed
  then have "r \<notin> ch_row ` set chs" unfolding rowk_def by (metis imageE in_set_conv_nth)
  with k show "r \<in> spine_rows chs" by (auto simp: spine_rows_def)
next
  assume r: "r \<in> spine_rows chs"
  define k where "k = (LEAST k. k < length chs \<and> r < rowk chs k)"
  have k: "k < length chs \<and> r < rowk chs k"
    unfolding k_def by (rule LeastI_ex) (use r in \<open>auto simp: spine_rows_def\<close>)
  have "rowk chs (k - 1) < r" if "k > 0"
  proof -
    have "\<not> (k - 1 < length chs \<and> r < rowk chs (k - 1))" 
      using not_less_Least [of "k - 1" "\<lambda>k. k < length chs \<and> r < rowk chs k"] that unfolding k_def [symmetric] by simp
    then have "rowk chs (k - 1) \<le> r" using k by auto
    moreover have "r \<noteq> rowk chs (k - 1)" using r k by (auto simp: spine_rows_def rowk_def)
    ultimately show ?thesis by simp
  qed
  then have "r \<in> set [Suc (spine_top (spine_state (take k chs)))..<rowk chs k]"
    using k r by (auto simp: spine_state_top [OF assms] spine_rows_def)
  moreover have "\<not> acr_row_is_head (spine_state (take k chs)) r"
    using r by (auto simp: acr_row_is_head_def spine_state_def spine_rows_def dest: in_set_takeD)
  ultimately show "\<exists>k<length chs. r \<in> set [Suc (spine_top (spine_state (take k chs)))..<rowk chs k] \<and>
      \<not> acr_row_is_head (spine_state (take k chs)) r" using k by blast
qed

lemma in_fabric:
  assumes "ascending shim chs"
  shows "op \<in> fabric shim cid chs \<longleftrightarrow>
     (\<exists>k<length chs. \<exists>c. shim \<le> c \<and> c \<le> hik chs k \<and> (op \<in> set (kth_chain shim cid chs k c) \<or> op \<in> set (kth_ret shim chs k c))) \<or>
     (\<exists>r\<in>spine_rows chs. op = acr_cct_op shim r ACR_SOUTH ACR_NORTH 0 \<or> op = acr_cct_op shim r ACR_NORTH ACR_SOUTH 1)"
proof -
  have plan: "op \<in> set (chain_plan shim cid (top_row chs) (take k chs) (chs ! k)) \<longleftrightarrow>
      (\<exists>c. shim \<le> c \<and> c \<le> hik chs k \<and> (op \<in> set (kth_chain shim cid chs k c) \<or> op \<in> set (kth_ret shim chs k c))) \<or>
      (\<exists>r. r \<in> set [Suc (spine_top (spine_state (take k chs)))..<rowk chs k] \<and> \<not> acr_row_is_head (spine_state (take k chs)) r \<and>
        (op = acr_cct_op shim r ACR_SOUTH ACR_NORTH 0 \<or> op = acr_cct_op shim r ACR_NORTH ACR_SOUTH 1))" if "k < length chs" for k
  proof -
    have len: "length (rows (spine_state (take k chs))) = k" using that by (simp add: spine_state_def)
    show ?thesis
      unfolding chain_plan_def new_row_ops_def len rowk_def [symmetric] lok_def [symmetric] hik_def [symmetric]
        top_rowk [OF assms that] row_chain_def row_return_def kth_chain_def [symmetric] kth_ret_def [symmetric] spine_ops_def
      by (auto simp: less_Suc_eq_le simp del: upt_Suc split: if_splits)
  qed
  let ?E = "\<lambda>r. op = acr_cct_op shim r ACR_SOUTH ACR_NORTH 0 \<or> op = acr_cct_op shim r ACR_NORTH ACR_SOUTH 1"
  have "op \<in> fabric shim cid chs \<longleftrightarrow> (\<exists>k<length chs. op \<in> set (chain_plan shim cid (top_row chs) (take k chs) (chs ! k)))"
    by (auto simp: chain_plans_def)
  also have "\<dots> \<longleftrightarrow>
     (\<exists>k<length chs. \<exists>c. shim \<le> c \<and> c \<le> hik chs k \<and> (op \<in> set (kth_chain shim cid chs k c) \<or> op \<in> set (kth_ret shim chs k c))) \<or>
     (\<exists>k<length chs. \<exists>r. r \<in> set [Suc (spine_top (spine_state (take k chs)))..<rowk chs k] \<and>
        \<not> acr_row_is_head (spine_state (take k chs)) r \<and> ?E r)"
    by (simp only: plan cong: conj_cong) blast
  also have "(\<exists>k<length chs. \<exists>r. r \<in> set [Suc (spine_top (spine_state (take k chs)))..<rowk chs k] \<and>
        \<not> acr_row_is_head (spine_state (take k chs)) r \<and> ?E r) \<longleftrightarrow> (\<exists>r\<in>spine_rows chs. ?E r)"
    unfolding Bex_def spine_hops_rows [OF assms, symmetric] by blast
  finally show ?thesis .
qed

lemmas op_defs = acr_slot_op_def acr_master_op_def acr_slave_op_def acr_cct_op_def acr_op0_def

lemma in_kth_chain:
  assumes "k < length chs"
  shows "op \<in> set (kth_chain shim cid chs k c) \<longleftrightarrow>
     op = consume_slot shim chs k c \<or> op = bcast_slot shim chs k c \<or> (c = shim \<and> Suc k < length chs \<and> op = transit_slot shim chs k) \<or>
     op = acr_slave_op c (rowk chs k) (in_port shim c) cid 0 \<or>
     (lok chs k \<le> c \<and> op = acr_master_op c (rowk chs k) ACR_CTRL ACR_MSELEN_CTRL RT_RES_ARB_CTRL) \<or>
     (c \<noteq> hik chs k \<and> op = acr_master_op c (rowk chs k) ACR_EAST ACR_MSELEN_EAST RT_RES_ARB_CTRL) \<or>
     (c = shim \<and> Suc k < length chs \<and> op = acr_master_op c (rowk chs k) ACR_NORTH ACR_MSELEN_NORTH RT_RES_ARB_CTRL)"
proof -
  have "spine_head (int shim) shim (Suc k = length chs) c \<longleftrightarrow> c = shim \<and> Suc k < length chs"
    using assms by (auto simp: spine_head_def)
  then show ?thesis
    by (auto simp: kth_chain_def chain_ops_def Let_def consume_slot_def bcast_slot_def transit_slot_def in_port_def)
qed

lemma slot_inv:
  assumes "ascending shim chs" "op \<in> fabric shim cid chs" "op_kind op = ACR_OP_SLOT" "op_sport op \<in> {ACR_SOUTH, ACR_WEST}" "op_col op = c"
  obtains k where "k < length chs" "op_row op = rowk chs k" "shim \<le> c" "c \<le> hik chs k" "op_sport op = in_port shim c"
    "op = consume_slot shim chs k c \<or> op = bcast_slot shim chs k c \<or> (c = shim \<and> Suc k < length chs \<and> op = transit_slot shim chs k)"
proof -
  from assms(2-4) obtain k c' where k: "k < length chs" "shim \<le> c'" "c' \<le> hik chs k" "op \<in> set (kth_chain shim cid chs k c')"
    unfolding in_fabric [OF assms(1)] by (auto simp: kth_ret_def ret_ops_def ret_slot_ops_def op_defs split: if_splits)
  with assms(3) have s: "op = consume_slot shim chs k c' \<or> op = bcast_slot shim chs k c' \<or> (c' = shim \<and> Suc k < length chs \<and> op = transit_slot shim chs k)"
    by (auto simp: in_kth_chain op_defs)
  then have "op_col op = c'" "op_row op = rowk chs k" "op_sport op = in_port shim c'"
    by (auto simp: consume_slot_def bcast_slot_def transit_slot_def op_defs in_port_def)
  with assms(5) s k show ?thesis using that by auto
qed

lemma fwd_slot_fields [simp]:
  "op_msel (consume_slot shim chs k c) = 0" "op_arbiter (consume_slot shim chs k c) = RT_RES_ARB_CTRL"
  "op_slot (consume_slot shim chs k c) = 0" "op_kind (consume_slot shim chs k c) = ACR_OP_SLOT"
  "op_col (consume_slot shim chs k c) = c" "op_row (consume_slot shim chs k c) = rowk chs k" "op_sport (consume_slot shim chs k c) = in_port shim c"
  "op_msel (bcast_slot shim chs k c) = 1" "op_arbiter (bcast_slot shim chs k c) = RT_RES_ARB_CTRL"
  "op_slot (bcast_slot shim chs k c) = 1" "op_kind (bcast_slot shim chs k c) = ACR_OP_SLOT"
  "op_col (bcast_slot shim chs k c) = c" "op_row (bcast_slot shim chs k c) = rowk chs k" "op_sport (bcast_slot shim chs k c) = in_port shim c"
  "op_msel (transit_slot shim chs k) = 2" "op_arbiter (transit_slot shim chs k) = RT_RES_ARB_CTRL"
  "op_slot (transit_slot shim chs k) = 2" "op_kind (transit_slot shim chs k) = ACR_OP_SLOT"
  "op_col (transit_slot shim chs k) = shim" "op_row (transit_slot shim chs k) = rowk chs k" "op_sport (transit_slot shim chs k) = in_port shim shim"
  by (simp_all add: consume_slot_def bcast_slot_def transit_slot_def op_defs res_consts in_port_def)

lemma master_inv:
  assumes "ascending shim chs" "op \<in> fabric shim cid chs" "op_kind op = ACR_OP_MASTER_EN" "op_arbiter op = RT_RES_ARB_CTRL"
  obtains k where "k < length chs" "op_row op = rowk chs k" "shim \<le> op_col op" "op_col op \<le> hik chs k"
    "op_mport op = ACR_CTRL \<and> op_mselen op = 3 \<and> lok chs k \<le> op_col op \<or>
     op_mport op = ACR_EAST \<and> op_mselen op = 0xB \<and> op_col op < hik chs k \<or>
     op_mport op = ACR_NORTH \<and> op_mselen op = 6 \<and> op_col op = shim"
proof -
  from assms(2-4) obtain k c where k: "k < length chs" "shim \<le> c" "c \<le> hik chs k" "op \<in> set (kth_chain shim cid chs k c)"
    unfolding in_fabric [OF assms(1)] by (auto simp: kth_ret_def ret_ops_def ret_slot_ops_def op_defs res_consts split: if_splits)
  with assms(3) show ?thesis
    using that [of k] by (auto simp: in_kth_chain consume_slot_def bcast_slot_def transit_slot_def op_defs res_consts)
qed



lemma circuit_iff:
  assumes "ascending shim chs"
  shows "circuit (fabric shim cid chs) c r p q \<longleftrightarrow>
     c = shim \<and> r \<in> spine_rows chs \<and> (p = ACR_SOUTH \<and> q = ACR_NORTH \<or> p = ACR_NORTH \<and> q = ACR_SOUTH)"
proof
  assume "circuit (fabric shim cid chs) c r p q"
  then obtain op where op: "op \<in> fabric shim cid chs" "op_kind op = ACR_OP_CCT" "op_col op = c" "op_row op = r" "op_sport op = p" "op_mport op = q"
    by (auto simp: circuit_def)
  then show "c = shim \<and> r \<in> spine_rows chs \<and> (p = ACR_SOUTH \<and> q = ACR_NORTH \<or> p = ACR_NORTH \<and> q = ACR_SOUTH)"
    unfolding in_fabric [OF assms]
    by (auto simp: in_kth_chain consume_slot_def bcast_slot_def transit_slot_def kth_ret_def ret_ops_def ret_slot_ops_def op_defs
        split: if_splits)
next
  assume *: "c = shim \<and> r \<in> spine_rows chs \<and> (p = ACR_SOUTH \<and> q = ACR_NORTH \<or> p = ACR_NORTH \<and> q = ACR_SOUTH)"
  then obtain b where "acr_cct_op c r p q b \<in> fabric shim cid chs"
    unfolding in_fabric [OF assms] by blast
  then show "circuit (fabric shim cid chs) c r p q"
    unfolding circuit_def by (rule rev_bexI) (simp add: op_defs)
qed

section \<open>Which packets a slot takes\<close>

lemma bit4_test: "((pid :: u8) AND 0x10 = 0x10) = bit pid 4" "(pid AND 0x10 = 0) = (\<not> bit pid 4)"
proof -
  show z: "(pid AND 0x10 = 0) = (\<not> bit pid 4)" using and_exp_eq_0_iff_not_bit [of pid 4] by simp
  have "pid AND 2 ^ k = 2 ^ k" if "bit pid k" for k
    by (rule bit_eqI) (use that in \<open>auto simp: bit_and_iff bit_exp_iff\<close>)
  from this [of 4] have "pid AND 0x10 = 0x10" if "bit pid 4" using that by simp
  with z show "(pid AND 0x10 = 0x10) = bit pid 4" by auto
qed

lemma row_index_mask: "k \<le> ACR_MAX_ROW_IDX \<Longrightarrow> (of_nat k :: u8) AND 0x17 = of_nat k \<and> \<not> bit (of_nat k :: u8) 4"
  using row_idx_cases [of k] by auto

lemma matches_consume:
  "k \<le> ACR_MAX_ROW_IDX \<Longrightarrow> slot_matches pid (consume_slot shim chs k c) = (pid AND 0x17 = of_nat k)"
  using row_index_mask [of k] by (simp add: slot_matches_def consume_slot_def op_defs res_consts)

lemma matches_bcast: "slot_matches pid (bcast_slot shim chs k c) = bit pid 4"
  by (simp add: slot_matches_def bcast_slot_def op_defs res_consts bit4_test)

lemma matches_transit: "slot_matches pid (transit_slot shim chs k) = (\<not> bit pid 4)"
  by (simp add: slot_matches_def transit_slot_def op_defs res_consts bit4_test)

lemma not_bcast: "pid AND 0x17 = (of_nat k :: u8) \<Longrightarrow> k \<le> ACR_MAX_ROW_IDX \<Longrightarrow> \<not> bit pid 4"
proof -
  assume "pid AND 0x17 = (of_nat k :: u8)" "k \<le> ACR_MAX_ROW_IDX"
  with row_index_mask [of k] have "\<not> bit (pid AND 0x17) 4" by simp
  then show ?thesis by (simp add: bit_and_iff)
qed

lemma row_index_inj: "k \<le> ACR_MAX_ROW_IDX \<Longrightarrow> j \<le> ACR_MAX_ROW_IDX \<Longrightarrow> ((of_nat k :: u8) = of_nat j) = (k = j)"
  using row_idx_cases [of k] row_idx_cases [of j] by auto

section \<open>Delivery of control packets\<close>

lemma fwd_slot_fires:
  assumes "slot_arbitration fire" "ascending shim chs" "s \<in> fire (slots_at (fabric shim cid chs) c r p pid)" "p \<in> {ACR_SOUTH, ACR_WEST}"
  obtains k where "k < length chs" "r = rowk chs k" "c \<le> hik chs k" "op_arbiter s = RT_RES_ARB_CTRL"
    "selects pid k \<and> unat (op_msel s) \<in> {0, 1} \<or> unat (op_msel s) = 2 \<and> c = shim"
proof -
  from assms(3) slot_arbitration.fire_subset [OF assms(1)] have s: "s \<in> slots_at (fabric shim cid chs) c r p pid" by blast
  then have m: "s \<in> fabric shim cid chs" "op_kind s = ACR_OP_SLOT" "op_sport s \<in> {ACR_SOUTH, ACR_WEST}" "op_col s = c" "op_row s = r"
      "slot_matches pid s"
    using assms(4) by (auto simp: slots_at_def)
  obtain k where k: "k < length chs" "op_row s = rowk chs k" "c \<le> hik chs k"
     "s = consume_slot shim chs k c \<or> s = bcast_slot shim chs k c \<or> (c = shim \<and> Suc k < length chs \<and> s = transit_slot shim chs k)"
    by (rule slot_inv [OF assms(2) m(1-4)])
  have i: "k \<le> ACR_MAX_ROW_IDX" using chain_range_k [OF assms(2) k(1)] by simp
  have "selects pid k \<and> unat (op_msel s) \<in> {0, 1} \<or> unat (op_msel s) = 2 \<and> c = shim"
    using k(4) m(6) by (auto simp: selects_def matches_consume [OF i] matches_bcast)
  moreover have "op_arbiter s = RT_RES_ARB_CTRL" using k(4) by auto
  moreover have "r = rowk chs k" using k(2) m(5) by simp
  ultimately show thesis using that k(1,3) by blast
qed

text \<open>Forwards: a packet that enters the spine stays on it or is in a row that it selects.\<close>

lemma forward_ports:
  assumes "slot_arbitration fire" "ascending shim chs"
    and "reaches fire (fabric shim cid chs) pid (shim, 1, ACR_SOUTH) x"
  shows "case x of (c, r, p) \<Rightarrow> c = shim \<and> p = ACR_SOUTH \<or>
     p = ACR_WEST \<and> (\<exists>k<length chs. r = rowk chs k \<and> selects pid k)"
  using assms(3)
proof induction
  case source
  then show ?case by simp
next
  case (hop c r p q x)
  then have p: "p \<in> {ACR_SOUTH, ACR_WEST}" and sp: "p = ACR_SOUTH \<Longrightarrow> c = shim" by auto
  from hop.hyps(2) show ?case
  proof
    assume "circuit (fabric shim cid chs) c r p q"
    with p hop.hyps(3) show ?case by (auto simp: circuit_iff [OF assms(2)])
  next
    assume "repeats fire (fabric shim cid chs) pid c r p q"
    then obtain m s where ms: "m \<in> fabric shim cid chs" "s \<in> fire (slots_at (fabric shim cid chs) c r p pid)"
      "op_kind m = ACR_OP_MASTER_EN" "op_col m = c" "op_row m = r" "op_mport m = q" "op_arbiter s = op_arbiter m"
      "bit (op_mselen m) (unat (op_msel s))" by (auto simp: repeats_def)
    obtain k where k: "k < length chs" "r = rowk chs k" "op_arbiter s = RT_RES_ARB_CTRL"
      "selects pid k \<and> unat (op_msel s) \<in> {0, 1} \<or> unat (op_msel s) = 2 \<and> c = shim"
      by (rule fwd_slot_fires [OF assms(1,2) ms(2) p])
    have "op_arbiter m = RT_RES_ARB_CTRL" using k ms by simp
    then obtain j where j:
      "op_mport m = ACR_CTRL \<and> op_mselen m = 3 \<and> lok chs j \<le> op_col m \<or>
       op_mport m = ACR_EAST \<and> op_mselen m = 0xB \<and> op_col m < hik chs j \<or>
       op_mport m = ACR_NORTH \<and> op_mselen m = 6 \<and> op_col m = shim"
      by (rule master_inv [OF assms(2) ms(1,3)])
    show ?case
    proof (cases "q = ACR_EAST")
      case True
      then have "bit (0xB :: u8) (unat (op_msel s))" using j ms by auto
      then have "selects pid k" using k(4) by auto
      with True k hop.hyps(3) show ?thesis by auto
    next
      case False
      then have "q = ACR_CTRL \<or> q = ACR_NORTH \<and> c = shim" using j ms by auto
      with hop.hyps(3) show ?thesis by auto
    qed
  qed
qed

lemma consumes_sound:
  assumes "slot_arbitration fire" "ascending shim chs"
    and "consumes fire (fabric shim cid chs) pid (shim, 1, ACR_SOUTH) c r"
  shows "\<exists>k<length chs. r = rowk chs k \<and> lok chs k \<le> c \<and> c \<le> hik chs k \<and> selects pid k"
proof -
  from assms(3) obtain p where p: "reaches fire (fabric shim cid chs) pid (shim, 1, ACR_SOUTH) (c, r, p)"
      "repeats fire (fabric shim cid chs) pid c r p ACR_CTRL"
    by (auto simp: consumes_def)
  have pp: "p \<in> {ACR_SOUTH, ACR_WEST}" using forward_ports [OF assms(1,2) p(1)] by auto
  from p(2) obtain m s where ms: "m \<in> fabric shim cid chs" "s \<in> fire (slots_at (fabric shim cid chs) c r p pid)"
    "op_kind m = ACR_OP_MASTER_EN" "op_col m = c" "op_row m = r" "op_mport m = ACR_CTRL" "op_arbiter s = op_arbiter m"
    "bit (op_mselen m) (unat (op_msel s))" by (auto simp: repeats_def)
  obtain k where k: "k < length chs" "r = rowk chs k" "op_arbiter s = RT_RES_ARB_CTRL"
    "selects pid k \<and> unat (op_msel s) \<in> {0, 1} \<or> unat (op_msel s) = 2 \<and> c = shim"
    by (rule fwd_slot_fires [OF assms(1,2) ms(2) pp])
  have "op_arbiter m = RT_RES_ARB_CTRL" using k ms by simp
  then obtain j where j: "j < length chs" "op_row m = rowk chs j" "op_col m \<le> hik chs j"
    "op_mport m = ACR_CTRL \<and> op_mselen m = 3 \<and> lok chs j \<le> op_col m \<or>
     op_mport m = ACR_EAST \<and> op_mselen m = 0xB \<and> op_col m < hik chs j \<or>
     op_mport m = ACR_NORTH \<and> op_mselen m = 6 \<and> op_col m = shim"
    by (rule master_inv [OF assms(2) ms(1,3)])
  then have "j = k" using k ms rowk_eq [OF assms(2) j(1) k(1)] by simp
  moreover have "bit (3 :: u8) (unat (op_msel s))" using j ms by auto
  ultimately show ?thesis using k j ms by auto
qed

text \<open>The slots on the way in of a row's tile, and the one that fires.\<close>

lemma in_slots:
  assumes "ascending shim chs" "k < length chs" "op \<in> slots_at (fabric shim cid chs) c (rowk chs k) p pid" "p \<in> {ACR_SOUTH, ACR_WEST}"
  shows "op = consume_slot shim chs k c \<or> op = bcast_slot shim chs k c \<or> op = transit_slot shim chs k"
proof -
  from assms(3,4) have m: "op \<in> fabric shim cid chs" "op_kind op = ACR_OP_SLOT" "op_sport op \<in> {ACR_SOUTH, ACR_WEST}" "op_col op = c"
      "op_row op = rowk chs k" by (auto simp: slots_at_def)
  obtain j where j: "j < length chs" "op_row op = rowk chs j"
     "op = consume_slot shim chs j c \<or> op = bcast_slot shim chs j c \<or> (c = shim \<and> Suc j < length chs \<and> op = transit_slot shim chs j)"
    by (rule slot_inv [OF assms(1) m(1-4)])
  then have "k = j" using m(5) rowk_eq [OF assms(1,2)] by simp
  with j(3) show ?thesis by blast
qed

lemma chain_members:
  assumes "ascending shim chs" "k < length chs" "shim \<le> c" "c \<le> hik chs k"
  shows "consume_slot shim chs k c \<in> fabric shim cid chs" "bcast_slot shim chs k c \<in> fabric shim cid chs"
    "acr_slave_op c (rowk chs k) (in_port shim c) cid 0 \<in> fabric shim cid chs"
    "lok chs k \<le> c \<Longrightarrow> acr_master_op c (rowk chs k) ACR_CTRL ACR_MSELEN_CTRL RT_RES_ARB_CTRL \<in> fabric shim cid chs"
    "c \<noteq> hik chs k \<Longrightarrow> acr_master_op c (rowk chs k) ACR_EAST ACR_MSELEN_EAST RT_RES_ARB_CTRL \<in> fabric shim cid chs"
    "c = shim \<Longrightarrow> Suc k < length chs \<Longrightarrow> transit_slot shim chs k \<in> fabric shim cid chs"
    "c = shim \<Longrightarrow> Suc k < length chs \<Longrightarrow> acr_master_op c (rowk chs k) ACR_NORTH ACR_MSELEN_NORTH RT_RES_ARB_CTRL \<in> fabric shim cid chs"
proof -
  have "op \<in> fabric shim cid chs" if "op \<in> set (kth_chain shim cid chs k c)" for op
    unfolding in_fabric [OF assms(1)] using assms(2-4) that by blast
  note this [unfolded in_kth_chain [OF assms(2)]]
  then show "consume_slot shim chs k c \<in> fabric shim cid chs" "bcast_slot shim chs k c \<in> fabric shim cid chs"
    "acr_slave_op c (rowk chs k) (in_port shim c) cid 0 \<in> fabric shim cid chs"
    "lok chs k \<le> c \<Longrightarrow> acr_master_op c (rowk chs k) ACR_CTRL ACR_MSELEN_CTRL RT_RES_ARB_CTRL \<in> fabric shim cid chs"
    "c \<noteq> hik chs k \<Longrightarrow> acr_master_op c (rowk chs k) ACR_EAST ACR_MSELEN_EAST RT_RES_ARB_CTRL \<in> fabric shim cid chs"
    "c = shim \<Longrightarrow> Suc k < length chs \<Longrightarrow> transit_slot shim chs k \<in> fabric shim cid chs"
    "c = shim \<Longrightarrow> Suc k < length chs \<Longrightarrow> acr_master_op c (rowk chs k) ACR_NORTH ACR_MSELEN_NORTH RT_RES_ARB_CTRL \<in> fabric shim cid chs"
    by blast+
qed

lemma in_port_cases: "in_port shim c \<in> {ACR_SOUTH, ACR_WEST}"
  by (simp add: in_port_def)

lemma row_slot_fires:
  assumes "slot_arbitration fire" "ascending shim chs" "k < length chs" "shim \<le> c" "c \<le> hik chs k" "selects pid k"
  shows "\<exists>s\<in>fire (slots_at (fabric shim cid chs) c (rowk chs k) (in_port shim c) pid).
    op_arbiter s = RT_RES_ARB_CTRL \<and> unat (op_msel s) \<in> {0, 1}"
proof -
  let ?S = "slots_at (fabric shim cid chs) c (rowk chs k) (in_port shim c) pid"
  have i: "k \<le> ACR_MAX_ROW_IDX" using chain_range_k [OF assms(2,3)] by simp
  note sub = in_slots [OF assms(2,3) _ in_port_cases] and mem = chain_members [OF assms(2-5), of cid]
  have mt: "op \<in> ?S \<Longrightarrow> slot_matches pid op" for op by (simp add: slots_at_def)
  show ?thesis
  proof (cases "bit pid 4")
    case True
    then have "bcast_slot shim chs k c \<in> ?S" using mem by (simp add: slots_at_def matches_bcast)
    moreover have "op = bcast_slot shim chs k c" if "op \<in> ?S" for op
      using sub [OF that] mt [OF that] True not_bcast [OF _ i, of pid] matches_consume [OF i, of pid shim chs c] matches_transit [of pid shim chs k]
      by blast
    ultimately have "bcast_slot shim chs k c \<in> fire ?S" by (intro slot_arbitration.fire_lowest [OF assms(1)]) blast+
    then show ?thesis by (rule rev_bexI) simp
  next
    case False
    then have "consume_slot shim chs k c \<in> ?S" using mem assms(6) by (simp add: slots_at_def matches_consume [OF i] selects_def)
    then have "consume_slot shim chs k c \<in> fire ?S"
    proof (rule slot_arbitration.fire_lowest [OF assms(1)])
      fix op assume "op \<in> ?S" "op \<noteq> consume_slot shim chs k c"
      then have "op = bcast_slot shim chs k c \<or> op = transit_slot shim chs k" using sub by blast
      then show "op_slot (consume_slot shim chs k c) < op_slot op" by auto
    qed
    then show ?thesis by (rule rev_bexI) simp
  qed
qed

lemma climb_slot_fires:
  assumes "slot_arbitration fire" "ascending shim chs" "j < k" "k < length chs" "selects pid k"
  shows "\<exists>s\<in>fire (slots_at (fabric shim cid chs) shim (rowk chs j) ACR_SOUTH pid).
    op_arbiter s = RT_RES_ARB_CTRL \<and> unat (op_msel s) \<in> {1, 2}"
proof -
  let ?S = "slots_at (fabric shim cid chs) shim (rowk chs j) ACR_SOUTH pid"
  have j: "j < length chs" using assms by simp
  have i: "k \<le> ACR_MAX_ROW_IDX" "j \<le> ACR_MAX_ROW_IDX" using chain_range_k [OF assms(2)] assms(4) j by simp_all
  have r: "shim \<le> hik chs j" using chain_range_k [OF assms(2) j] by simp
  have sub: "op \<in> ?S \<Longrightarrow> op = consume_slot shim chs j shim \<or> op = bcast_slot shim chs j shim \<or> op = transit_slot shim chs j" for op
    by (rule in_slots [OF assms(2) j]) (assumption, simp)
  note mem = chain_members [OF assms(2) j order_refl r, of cid]
  have mt: "op \<in> ?S \<Longrightarrow> slot_matches pid op" for op by (simp add: slots_at_def)
  define s where "s = (if bit pid 4 then bcast_slot shim chs j shim else transit_slot shim chs j)"
  have "s \<in> ?S" using mem assms(3,4) by (auto simp: s_def slots_at_def matches_bcast matches_transit in_port_def)
  moreover have "\<not> slot_matches pid (consume_slot shim chs j shim)"
    using assms(3,5) not_bcast [OF _ i(2), of pid] row_index_inj [OF i] by (auto simp: matches_consume [OF i(2)] selects_def)
  then have "op = s" if "op \<in> ?S" for op
    using sub [OF that] mt [OF that] matches_bcast [of pid shim chs j shim] matches_transit [of pid shim chs j] unfolding s_def by auto
  ultimately have "s \<in> fire ?S" by (intro slot_arbitration.fire_lowest [OF assms(1)]) blast+
  then show ?thesis by (rule rev_bexI) (auto simp: s_def)
qed

lemma repeatsI:
  assumes "s \<in> fire (slots_at ops c r p pid)" "acr_master_op c r q mselen arb \<in> ops" "acr_slave_op c r p x y \<in> ops"
    "op_arbiter s = arb" "bit mselen (unat (op_msel s))"
  shows "repeats fire ops pid c r p q"
  unfolding repeats_def slave_enabled_def
  using assms by (intro conjI bexI [of _ "acr_slave_op c r p x y"] bexI [of _ "acr_master_op c r q mselen arb"] bexI [of _ s])
    (simp_all add: op_defs)

lemma climbs:
  assumes "slot_arbitration fire" "ascending shim chs" "k < length chs" "selects pid k" "1 \<le> r" "r \<le> rowk chs k"
  shows "reaches fire (fabric shim cid chs) pid (shim, 1, ACR_SOUTH) (shim, r, ACR_SOUTH)"
  using assms(5,6)
proof (induction r rule: nat_induct_at_least)
  case base
  show ?case by (simp add: reaches.source)
next
  case (Suc r)
  let ?F = "fabric shim cid chs"
  have "circuit ?F shim r ACR_SOUTH ACR_NORTH \<or> repeats fire ?F pid shim r ACR_SOUTH ACR_NORTH"
  proof (cases "r \<in> ch_row ` set chs")
    case True
    then obtain j where j: "j < length chs" "r = rowk chs j" by (auto simp: in_set_conv_nth rowk_def)
    then have jk: "j < k" using Suc.prems rowk_less [OF assms(2), of k j] by (cases j k rule: linorder_cases) auto
    have le: "shim \<le> hik chs j" using chain_range_k [OF assms(2) j(1)] by simp
    obtain s where s: "s \<in> fire (slots_at ?F shim (rowk chs j) ACR_SOUTH pid)" "op_arbiter s = RT_RES_ARB_CTRL" "unat (op_msel s) \<in> {1, 2}"
      using climb_slot_fires [OF assms(1,2) jk assms(3,4)] by blast
    have "repeats fire ?F pid shim (rowk chs j) ACR_SOUTH ACR_NORTH"
    proof (rule repeatsI [where fire = fire, OF s(1) _ _ s(2)])
      show "acr_master_op shim (rowk chs j) ACR_NORTH ACR_MSELEN_NORTH RT_RES_ARB_CTRL \<in> ?F"
        using chain_members(7) [OF assms(2) j(1) order_refl le] jk assms(3) by simp
      show "acr_slave_op shim (rowk chs j) ACR_SOUTH cid 0 \<in> ?F"
        using chain_members(3) [OF assms(2) j(1) order_refl le] by (simp add: in_port_def)
      show "bit ACR_MSELEN_NORTH (unat (op_msel s))" using s(3) by (auto simp: res_consts)
    qed
    then show ?thesis by (simp add: j)
  next
    case False
    then have "r \<in> spine_rows chs" using Suc assms(3) by (auto simp: spine_rows_def intro!: exI [of _ k])
    then show ?thesis by (simp add: circuit_iff [OF assms(2)])
  qed
  moreover have "reaches fire ?F pid (shim, 1, ACR_SOUTH) (shim, r, ACR_SOUTH)" using Suc by simp
  ultimately show ?case by (auto intro: reaches.hop)
qed

lemma row_repeats:
  assumes "slot_arbitration fire" "ascending shim chs" "k < length chs" "selects pid k" "shim \<le> c" "c \<le> hik chs k"
  shows "c \<noteq> hik chs k \<Longrightarrow> repeats fire (fabric shim cid chs) pid c (rowk chs k) (in_port shim c) ACR_EAST"
    "lok chs k \<le> c \<Longrightarrow> repeats fire (fabric shim cid chs) pid c (rowk chs k) (in_port shim c) ACR_CTRL"
proof -
  let ?F = "fabric shim cid chs"
  obtain s where s: "s \<in> fire (slots_at ?F c (rowk chs k) (in_port shim c) pid)" "op_arbiter s = RT_RES_ARB_CTRL" "unat (op_msel s) \<in> {0, 1}"
    using row_slot_fires [OF assms(1-3,5,6,4)] by blast
  note mem = chain_members [OF assms(2,3,5,6), of cid]
  show "repeats fire ?F pid c (rowk chs k) (in_port shim c) ACR_EAST" if "c \<noteq> hik chs k"
    by (rule repeatsI [where fire = fire, OF s(1) mem(5) [OF that] mem(3) s(2)]) (use s(3) in \<open>auto simp: res_consts\<close>)
  show "repeats fire ?F pid c (rowk chs k) (in_port shim c) ACR_CTRL" if "lok chs k \<le> c"
    by (rule repeatsI [where fire = fire, OF s(1) mem(4) [OF that] mem(3) s(2)]) (use s(3) in \<open>auto simp: res_consts\<close>)
qed

lemma row_reached:
  assumes "slot_arbitration fire" "ascending shim chs" "k < length chs" "selects pid k" "shim \<le> c" "c \<le> hik chs k"
  shows "reaches fire (fabric shim cid chs) pid (shim, 1, ACR_SOUTH) (c, rowk chs k, in_port shim c)"
  using assms(5,6)
proof (induction c rule: nat_induct_at_least)
  case base
  show ?case using climbs [OF assms(1-4)] chain_range_k [OF assms(2,3)] by (simp add: in_port_def)
next
  case (Suc c)
  have "reaches fire (fabric shim cid chs) pid (shim, 1, ACR_SOUTH) (Suc c, rowk chs k, ACR_WEST)"
    by (rule reaches.hop [OF Suc.IH disjI2 [OF row_repeats(1) [OF assms(1-4)]]]) (use Suc in simp_all)
  then show ?case using Suc.hyps by (simp add: in_port_def)
qed

lemma consumes_iff:
  assumes "slot_arbitration fire" "ascending shim chs"
  shows "consumes fire (fabric shim cid chs) pid (shim, 1, ACR_SOUTH) c r \<longleftrightarrow>
    (\<exists>k<length chs. r = rowk chs k \<and> lok chs k \<le> c \<and> c \<le> hik chs k \<and> selects pid k)"
proof
  assume "\<exists>k<length chs. r = rowk chs k \<and> lok chs k \<le> c \<and> c \<le> hik chs k \<and> selects pid k"
  then obtain k where k: "k < length chs" "r = rowk chs k" "lok chs k \<le> c" "c \<le> hik chs k" "selects pid k" by blast
  then have "shim \<le> c" using chain_range_k [OF assms(2) k(1)] by simp
  then show "consumes fire (fabric shim cid chs) pid (shim, 1, ACR_SOUTH) c r"
    unfolding consumes_def k(2) using row_reached [OF assms k(1,5) _ k(4)] row_repeats(2) [OF assms k(1,5) _ k(4,3)] by blast
qed (rule consumes_sound [OF assms])

section \<open>Responses\<close>







lemma planned:
  assumes "fst (rt_ctrl_plan_add_rows d chs (ctrl_fabric0 shim cid defer_on False)) = XAIE_OK" "sorted_wrt (<) (map ch_row chs)"
  shows "ascending shim chs" "fab_ops (snd (rt_ctrl_plan_add_rows d chs (ctrl_fabric0 shim cid defer_on False))) = fabric shim cid chs"
proof -
  let ?r = "rt_ctrl_plan_add_rows d chs (ctrl_fabric0 shim cid defer_on False)"
  have "?r = (XAIE_OK, snd ?r)" using assms(1) by (cases ?r) simp
  moreover have "distinct (map ch_row chs)" using assms(2) strict_sorted_iff by blast
  ultimately have "chs \<noteq> []" and "fabric_after (top_row chs) (ctrl_fabric0 shim cid defer_on False) chs (snd ?r)"
    using add_rows_ok by blast+
  with assms(2) show "ascending shim chs" "fab_ops (snd ?r) = fabric shim cid chs"
    by (simp_all add: ascending_def fabric_after_def) (simp_all add: ctrl_fabric0_def)
qed

text \<open>
  C10. Delivery: when the rows are listed bottom-up, a control packet that enters the spine is consumed exactly by
  the tiles of the chains it selects, whichever matching slots the switches fire besides the lowest one. A packet
  with bit 4 of its id set selects every chain; any other selects the chain whose position is its id without bit 3.
\<close>

theorem fabric_delivery:
  assumes "slot_arbitration fire"
    and "fst (rt_ctrl_plan_add_rows d chs (ctrl_fabric0 shim_col ctrl_id defer_on False)) = XAIE_OK"
    and "sorted_wrt (<) (map ch_row chs)"
  shows "consumes fire (fab_ops (snd (rt_ctrl_plan_add_rows d chs (ctrl_fabric0 shim_col ctrl_id defer_on False)))) pid
       (shim_col, 1, ACR_SOUTH) c r \<longleftrightarrow>
     (\<exists>k<length chs. r = ch_row (chs ! k) \<and> ch_col_lo (chs ! k) \<le> c \<and> c \<le> ch_col_hi (chs ! k) \<and>
        (bit pid 4 \<or> pid AND 0x17 = of_nat k))"
  unfolding planned [OF assms(2,3)] consumes_iff [OF assms(1) planned(1) [OF assms(2,3)]]
  by (simp add: rowk_def lok_def hik_def selects_def)

theorem fabric_delivery_witness:
  "consumes lowest_slots (fab_ops (snd (rt_ctrl_plan_add_rows
       \<lparr>drv_row_op = \<lambda>op. XAIE_OK, drv_idle = True, drv_capture = \<lambda>ops. False\<rparr>
       [\<lparr>ch_row = 1, ch_col_lo = 1, ch_col_hi = 1\<rparr>, \<lparr>ch_row = 3, ch_col_lo = 0, ch_col_hi = 1\<rparr>]
       (ctrl_fabric0 0 2 False False)))) 9 (0, 1, ACR_SOUTH) 1 3"
  by (subst fabric_delivery [OF lowest.slot_arbitration_axioms]) (code_simp, simp, simp add: exI [of _ 1])



text \<open>
  C17. A packet of the only-last class, which \<open>__Runtime_ctrl_row_only_last_write\<close> sends to the last column of a row,
  is consumed by no tile at all.
\<close>

theorem only_last_lost:
  assumes "slot_arbitration fire"
    and "fst (rt_ctrl_plan_add_rows d chs (ctrl_fabric0 shim_col ctrl_id defer_on False)) = XAIE_OK"
    and "sorted_wrt (<) (map ch_row chs)" and "k \<le> ACR_MAX_ROW_IDX"
  shows "\<not> consumes fire (fab_ops (snd (rt_ctrl_plan_add_rows d chs (ctrl_fabric0 shim_col ctrl_id defer_on False))))
      (push_bit 2 1 OR of_nat k) (shim_col, 1, ACR_SOUTH) c r"
proof -
  have "\<not> selects (push_bit 2 1 OR of_nat k) j" if "j < length chs" for j
    using row_idx_cases [OF assms(4)] row_idx_cases [OF chain_range_k(5) [OF planned(1) [OF assms(2,3)] that]]
    by (auto simp: selects_def)
  then show ?thesis
    unfolding planned(2) [OF assms(2,3)] consumes_iff [OF assms(1) planned(1) [OF assms(2,3)]] by blast
qed

theorem only_last_lost_witness:
  "\<not> consumes lowest_slots (fab_ops (snd (rt_ctrl_plan_add_rows
       \<lparr>drv_row_op = \<lambda>op. XAIE_OK, drv_idle = True, drv_capture = \<lambda>ops. True\<rparr>
       [\<lparr>ch_row = 1, ch_col_lo = 0, ch_col_hi = 2\<rparr>] (ctrl_fabric0 0 2 False False)))) (push_bit 2 1 OR of_nat 0) (0, 1, ACR_SOUTH) 2 1"
  by (rule only_last_lost [OF lowest.slot_arbitration_axioms]) (code_simp, simp, simp add: ACR_MAX_ROW_IDX_def)




section \<open>Shim row\<close>

interpretation shim_fwd: planner_step "acr_shim_row_fwd_tile c (c - col_lo) (c < col_hi)" "shim_fwd_books col_hi c" "shim_fwd_ops col_lo col_hi c"
  for c col_lo col_hi
proof -
  let ?m = "\<lambda>e. acr_then (acr_book_port c 0 (if e then ACR_EAST else ACR_CTRL) 0 True)
            (acr_emit_op (acr_shim_master_op c (if e then ACR_EAST else ACR_CTRL) (push_bit (if e then 1 else 0) 1)))"
  have m: "planner_step (?m e) [(c, 0, if e then ACR_EAST else ACR_CTRL, True)] [acr_shim_master_op c (if e then ACR_EAST else ACR_CTRL) (push_bit (if e then 1 else 0) 1)]" for e
    using planner_step_then [OF book_step emit_step] by simp
  note st = planner_step_then [OF book_step [of c 0 ACR_WEST False] planner_step_then [OF
    emit_step [of "acr_shim_slot_op c 0 (acr_shim_row_id (c - col_lo)) ACR_MASK_EXACT 0"]
    planner_step_then [OF planner_step_when [OF emit_step [of "acr_shim_slot_op c 1 (push_bit (c - col_lo) 1) (push_bit (c - col_lo) 1) 1"], of "c < col_hi"]
    planner_step_then [OF emit_step [of "acr_slave_op c 0 ACR_WEST 0 0"] planner_step_each [where f = ?m, OF m]]]]]
  show "planner_step (acr_shim_row_fwd_tile c (c - col_lo) (c < col_hi)) (shim_fwd_books col_hi c) (shim_fwd_ops col_lo col_hi c)"
    unfolding acr_shim_row_fwd_tile_def shim_fwd_books_def shim_fwd_ops_def
    using st [of "if c < col_hi then [False, True] else [False]"] by (cases "c < col_hi") simp_all
qed

lemma on_fwd_ok: "planner_step f b os \<Longrightarrow> fst (on_fwd f sh) = ACR_OK \<Longrightarrow> sh_fwd (snd (on_fwd f sh)) = sh_fwd sh @ os"
  using planner_step.ok_ops [of f b os "\<lparr>w_ops = sh_fwd sh, w_book = sh_book sh\<rparr>"]
  by (cases "f \<lparr>w_ops = sh_fwd sh, w_book = sh_book sh\<rparr>") (simp add: on_fwd_def)

lemma on_ret_fwd: "sh_fwd (snd (on_ret f sh)) = sh_fwd sh"
  by (simp add: on_ret_def split: prod.splits)

lemma acr_then_fwd:
  "(\<And>sh. sh_fwd (snd (g sh)) = sh_fwd sh) \<Longrightarrow> fst (acr_then f g sh) = ACR_OK \<Longrightarrow> sh_fwd (snd (acr_then f g sh)) = sh_fwd (snd (f sh))"
  by (cases "f sh") (simp add: acr_then_def split: if_splits)

lemma shim_tile_fwd:
  assumes "fst (acr_shim_tile col_lo col_hi c sh) = ACR_OK"
  shows "sh_fwd (snd (acr_shim_tile col_lo col_hi c sh)) = sh_fwd sh @ shim_fwd_ops col_lo col_hi c"
proof -
  have k: "sh_fwd (snd (acr_then f g sh)) = sh_fwd sh" if "\<And>sh. sh_fwd (snd (f sh)) = sh_fwd sh" "\<And>sh. sh_fwd (snd (g sh)) = sh_fwd sh"
    for f g and sh :: acr_shim_work
    using that(1) [of sh] that(2) [of "snd (f sh)"] by (cases "f sh") (simp add: acr_then_def)
  have w: "sh_fwd (snd (acr_when b f sh)) = sh_fwd sh" if "\<And>sh. sh_fwd (snd (f sh)) = sh_fwd sh" for b f and sh :: acr_shim_work
    using that by (simp add: acr_when_def acr_ok_def)
  note ok = assms [unfolded acr_shim_tile_def Let_def]
  have "fst (on_fwd (acr_shim_row_fwd_tile c (c - col_lo) (c < col_hi)) sh) = ACR_OK" using ok by (simp add: acr_then_ok)
  from on_fwd_ok [OF shim_fwd.planner_step_axioms this] show ?thesis
    unfolding acr_shim_tile_def Let_def by (subst acr_then_fwd [OF _ ok]) (auto intro!: k w on_ret_fwd)
qed

lemma shim_row_fwd:
  assumes "fst (acr_plan_shim_row col_lo col_hi sh) = ACR_OK"
  shows "sh_fwd (snd (acr_plan_shim_row col_lo col_hi sh)) = sh_fwd sh @ concat (map (shim_fwd_ops col_lo col_hi) [col_lo..<Suc col_hi])"
    "col_lo \<le> col_hi" "col_hi - col_lo < 5"
proof -
  have each: "sh_fwd (snd (acr_each (acr_shim_tile col_lo col_hi) cs sh)) = sh_fwd sh @ concat (map (shim_fwd_ops col_lo col_hi) cs)"
    if "fst (acr_each (acr_shim_tile col_lo col_hi) cs sh) = ACR_OK" for cs sh
    using that
  proof (induction cs arbitrary: sh)
    case (Cons c cs)
    then show ?case using shim_tile_fwd [of col_lo col_hi c sh] by (simp add: acr_then_ok acr_then_snd)
  qed (simp add: acr_ok_def)
  from assms have "acr_plan_shim_row col_lo col_hi sh = acr_each (acr_shim_tile col_lo col_hi) [col_lo..<Suc col_hi] sh"
    by (auto simp: acr_plan_shim_row_def split: if_splits)
  with each assms show "sh_fwd (snd (acr_plan_shim_row col_lo col_hi sh)) = sh_fwd sh @ concat (map (shim_fwd_ops col_lo col_hi) [col_lo..<Suc col_hi])"
    by metis
  show "col_lo \<le> col_hi" "col_hi - col_lo < 5"
    using assms by (auto simp: acr_plan_shim_row_def RT_RES_SHIMROW_MAX_COLS_def RT_RES_SHIMROW_BD_HI_def RT_RES_SHIMROW_BD_LO_def split: if_splits)
qed

context slot_arbitration
begin

lemma fire_empty: "fire {} = {}"
  using fire_subset by blast

lemma fire_single: "fire {op} = {op}"
  using fire_subset [of "{op}"] fire_lowest [of op "{op}"] by blast

end

lemma in_shim_ops:
  "op \<in> shim_ops col_lo n \<longleftrightarrow> (\<exists>j\<le>n. op = shim_own col_lo j \<or> (j < n \<and> op = shim_fwd_slot col_lo j) \<or>
     op = acr_slave_op (col_lo + j) 0 ACR_WEST 0 0 \<or> op = acr_shim_master_op (col_lo + j) ACR_CTRL 1 \<or>
     (j < n \<and> op = acr_shim_master_op (col_lo + j) ACR_EAST 2))"
proof -
  have "op \<in> shim_ops col_lo n \<longleftrightarrow> (\<exists>c. col_lo \<le> c \<and> c \<le> col_lo + n \<and> op \<in> set (shim_fwd_ops col_lo (col_lo + n) c))"
    by (auto simp: shim_ops_def less_Suc_eq_le simp del: upt_Suc)
  also have "\<dots> \<longleftrightarrow> (\<exists>j\<le>n. op \<in> set (shim_fwd_ops col_lo (col_lo + n) (col_lo + j)))"
  proof safe
    fix c assume "col_lo \<le> c" "c \<le> col_lo + n" "op \<in> set (shim_fwd_ops col_lo (col_lo + n) c)"
    then show "\<exists>j\<le>n. op \<in> set (shim_fwd_ops col_lo (col_lo + n) (col_lo + j))" by (intro exI [of _ "c - col_lo"]) auto
  next
    fix j assume "j \<le> n" "op \<in> set (shim_fwd_ops col_lo (col_lo + n) (col_lo + j))"
    then show "\<exists>c. col_lo \<le> c \<and> c \<le> col_lo + n \<and> op \<in> set (shim_fwd_ops col_lo (col_lo + n) c)" by (intro exI [of _ "col_lo + j"]) auto
  qed
  finally show ?thesis by (auto simp: shim_fwd_ops_def shim_own_def shim_fwd_slot_def)
qed

lemma shim_row_ids:
  "j < 5 \<Longrightarrow> k < 5 \<Longrightarrow> (acr_shim_row_id k AND ACR_MASK_EXACT = acr_shim_row_id j AND ACR_MASK_EXACT) = (j = k)"
  "j < 5 \<Longrightarrow> k < 5 \<Longrightarrow> (acr_shim_row_id k AND push_bit j 1 = push_bit j 1 AND push_bit j 1) = (j < k)"
proof -
  have five: "i = 0 \<or> i = 1 \<or> i = 2 \<or> i = 3 \<or> i = 4" if "i < 5" for i :: nat using that by auto
  show "(acr_shim_row_id k AND ACR_MASK_EXACT = acr_shim_row_id j AND ACR_MASK_EXACT) = (j = k)" if "j < 5" "k < 5"
    using five [OF that(1)] five [OF that(2)] by (elim disjE) (simp_all add: acr_shim_row_id_def ACR_MASK_EXACT_def)
  show "(acr_shim_row_id k AND push_bit j 1 = push_bit j 1 AND push_bit j 1) = (j < k)" if "j < 5" "k < 5"
    using five [OF that(1)] five [OF that(2)] by (elim disjE) (simp_all add: acr_shim_row_id_def)
qed

lemma shim_slots:
  assumes "n < 5" "k \<le> n"
  shows "slots_at (shim_ops col_lo n) (col_lo + j) 0 ACR_WEST (acr_shim_row_id k) =
     (if j < k then {shim_fwd_slot col_lo j} else if j = k then {shim_own col_lo j} else {})"
proof -
  have 5: "j \<le> n \<Longrightarrow> j < 5" "k < 5" using assms by auto
  have "op \<in> slots_at (shim_ops col_lo n) (col_lo + j) 0 ACR_WEST (acr_shim_row_id k) \<longleftrightarrow>
     j \<le> n \<and> (op = shim_own col_lo j \<and> slot_matches (acr_shim_row_id k) op \<or> j < n \<and> op = shim_fwd_slot col_lo j \<and> slot_matches (acr_shim_row_id k) op)" for op
    by (auto simp: slots_at_def in_shim_ops shim_own_def shim_fwd_slot_def acr_shim_slot_op_def acr_shim_master_op_def acr_slave_op_def acr_op0_def)
  moreover have "j \<le> n \<Longrightarrow> slot_matches (acr_shim_row_id k) (shim_own col_lo j) = (j = k)"
    "j \<le> n \<Longrightarrow> slot_matches (acr_shim_row_id k) (shim_fwd_slot col_lo j) = (j < k)"
    using shim_row_ids [OF 5] by (simp_all add: slot_matches_def shim_own_def shim_fwd_slot_def acr_shim_slot_op_def del: push_bit_of_1)
  ultimately show ?thesis using assms(2) by (intro set_eqI) auto
qed

lemma shim_repeats:
  assumes "slot_arbitration fire" "n < 5" "k \<le> n"
  shows "repeats fire (shim_ops col_lo n) (acr_shim_row_id k) (col_lo + j) 0 ACR_WEST q \<longleftrightarrow>
     (j < k \<and> q = ACR_EAST \<or> j = k \<and> q = ACR_CTRL)"
proof -
  let ?S = "slots_at (shim_ops col_lo n) (col_lo + j) 0 ACR_WEST (acr_shim_row_id k)"
  have fire: "fire ?S = ?S"
    unfolding shim_slots [OF assms(2,3)] by (simp add: slot_arbitration.fire_empty [OF assms(1)] slot_arbitration.fire_single [OF assms(1)])
  have en: "j \<le> n \<Longrightarrow> slave_enabled (shim_ops col_lo n) (col_lo + j) 0 ACR_WEST"
    unfolding slave_enabled_def by (rule bexI [of _ "acr_slave_op (col_lo + j) 0 ACR_WEST 0 0"]) (auto simp: in_shim_ops acr_slave_op_def acr_op0_def)
  have ms: "(\<exists>m\<in>shim_ops col_lo n. op_kind m = ACR_OP_MASTER_EN \<and> op_col m = col_lo + j \<and> op_row m = 0 \<and> op_mport m = q \<and>
        op_arbiter s = op_arbiter m \<and> bit (op_mselen m) (unat (op_msel s))) \<longleftrightarrow>
      j \<le> n \<and> op_arbiter s = RT_RES_ARB_CTRL \<and> (q = ACR_CTRL \<and> bit (1 :: u8) (unat (op_msel s)) \<or> j < n \<and> q = ACR_EAST \<and> bit (2 :: u8) (unat (op_msel s)))" for s
  proof -
    have split: "(\<exists>m\<in>shim_ops col_lo n. op_kind m = ACR_OP_MASTER_EN \<and> P m) \<longleftrightarrow>
        (\<exists>i\<le>n. P (acr_shim_master_op (col_lo + i) ACR_CTRL 1)) \<or> (\<exists>i<n. P (acr_shim_master_op (col_lo + i) ACR_EAST 2))" for P
    proof -
      have kinds: "op_kind (shim_own col_lo i) = ACR_OP_SLOT" "op_kind (shim_fwd_slot col_lo i) = ACR_OP_SLOT"
        "op_kind (acr_slave_op (col_lo + i) 0 ACR_WEST 0 0) = ACR_OP_SLAVE_EN" "op_kind (acr_shim_master_op c q me) = ACR_OP_MASTER_EN" for i c q me
        by (simp_all add: shim_own_def shim_fwd_slot_def acr_shim_slot_op_def acr_shim_master_op_def acr_slave_op_def acr_op0_def)
      show ?thesis unfolding Bex_def in_shim_ops using kinds by (metis (no_types, lifting) acr_op_kind.distinct less_imp_le)
    qed
    show ?thesis unfolding split by (auto simp: acr_shim_master_op_def acr_op0_def)
  qed
  have "repeats fire (shim_ops col_lo n) (acr_shim_row_id k) (col_lo + j) 0 ACR_WEST q \<longleftrightarrow>
      slave_enabled (shim_ops col_lo n) (col_lo + j) 0 ACR_WEST \<and> (\<exists>s\<in>?S. j \<le> n \<and> op_arbiter s = RT_RES_ARB_CTRL \<and>
        (q = ACR_CTRL \<and> bit (1 :: u8) (unat (op_msel s)) \<or> j < n \<and> q = ACR_EAST \<and> bit (2 :: u8) (unat (op_msel s))))"
    unfolding repeats_def fire ms [symmetric] by blast
  then show ?thesis
    using en assms(3) unfolding shim_slots [OF assms(2,3)]
    by (auto simp: shim_own_def shim_fwd_slot_def acr_shim_slot_op_def res_consts split: if_splits)
qed

lemma shim_reaches:
  assumes "slot_arbitration fire" "n < 5" "k \<le> n"
  shows "reaches fire (shim_ops col_lo n) (acr_shim_row_id k) (col_lo, 0, ACR_WEST) x \<longleftrightarrow> (\<exists>j\<le>k. x = (col_lo + j, 0, ACR_WEST))"
proof
  have nc: "\<not> circuit (shim_ops col_lo n) c r p q" for c r p q
    by (auto simp: circuit_def in_shim_ops shim_own_def shim_fwd_slot_def acr_shim_slot_op_def acr_shim_master_op_def acr_slave_op_def acr_op0_def)
  assume "reaches fire (shim_ops col_lo n) (acr_shim_row_id k) (col_lo, 0, ACR_WEST) x"
  then show "\<exists>j\<le>k. x = (col_lo + j, 0, ACR_WEST)"
  proof induction
    case (hop c r p q x)
    then obtain j where j: "j \<le> k" "c = col_lo + j" "r = 0" "p = ACR_WEST" by auto
    with hop.hyps(2) have "j < k \<and> q = ACR_EAST \<or> j = k \<and> q = ACR_CTRL" using nc shim_repeats [OF assms] by simp
    with hop.hyps(3) j show ?case by (auto intro!: exI [of _ "Suc j"])
  qed simp
next
  assume "\<exists>j\<le>k. x = (col_lo + j, 0, ACR_WEST)"
  then obtain j where j: "j \<le> k" "x = (col_lo + j, 0, ACR_WEST)" by blast
  have "reaches fire (shim_ops col_lo n) (acr_shim_row_id k) (col_lo, 0, ACR_WEST) (col_lo + j, 0, ACR_WEST)"
    using j(1)
  proof (induction j)
    case (Suc j)
    then have "repeats fire (shim_ops col_lo n) (acr_shim_row_id k) (col_lo + j) 0 ACR_WEST ACR_EAST"
      by (simp add: shim_repeats [OF assms])
    with Suc show ?case by (auto intro: reaches.hop)
  qed (simp add: reaches.source)
  then show "reaches fire (shim_ops col_lo n) (acr_shim_row_id k) (col_lo, 0, ACR_WEST) x" by (simp add: j)
qed

text \<open>
  C16. Shim row: the plan of the columns \<open>col_lo..col_hi\<close> delivers a packet with the id of column number \<open>k\<close> to the
  shim tile of that column and to no other tile.
\<close>

theorem shim_row_delivery:
  assumes "slot_arbitration fire" "fst (acr_plan_shim_row col_lo col_hi \<lparr>sh_fwd = [], sh_ret = rs, sh_book = b\<rparr>) = ACR_OK" "k \<le> col_hi - col_lo"
  shows "consumes fire (set (sh_fwd (snd (acr_plan_shim_row col_lo col_hi \<lparr>sh_fwd = [], sh_ret = rs, sh_book = b\<rparr>))))
     (acr_shim_row_id k) (col_lo, 0, ACR_WEST) c r \<longleftrightarrow> c = col_lo + k \<and> r = 0"
proof -
  note row = shim_row_fwd [OF assms(2)]
  have ops: "set (sh_fwd (snd (acr_plan_shim_row col_lo col_hi \<lparr>sh_fwd = [], sh_ret = rs, sh_book = b\<rparr>))) = shim_ops col_lo (col_hi - col_lo)"
    using row(2) unfolding row(1) shim_ops_def by (simp del: upt_Suc)
  show ?thesis unfolding ops consumes_def
    using shim_reaches [OF assms(1) row(3) assms(3)] shim_repeats [OF assms(1) row(3) assms(3)] by auto
qed

theorem shim_row_delivery_witness:
  "consumes lowest_slots (set (sh_fwd (snd (acr_plan_shim_row 2 4 \<lparr>sh_fwd = [], sh_ret = [], sh_book = empty_book\<rparr>))))
     (acr_shim_row_id 1) (2, 0, ACR_WEST) 3 0"
  by (subst shim_row_delivery [OF lowest.slot_arbitration_axioms]) (code_simp, simp_all)

lemma new_books_range:
  assumes "row_args_ok s shim_col row col_lo col_hi"
  shows "list_all res_in_range (new_row_books shim_col row col_lo col_hi is_top) = (row \<le> ACR_MAX_ROWS)"
proof -
  have "(shim_col, row, ACR_SOUTH, False) \<in> set (new_row_books shim_col row col_lo col_hi is_top)"
    using assms by (auto simp: new_row_books_def row_chain_books_def chain_books_def row_args_ok_def intro!: bexI [of _ shim_col])
  moreover have "\<exists>c<64. \<exists>p m. x = (c, row, p, m)" if "x \<in> set (new_row_books shim_col row col_lo col_hi is_top)" for x
    using that assms
    by (auto simp: new_row_books_def row_chain_books_def row_return_books_def chain_books_def ret_books_def row_args_ok_def split: if_splits)
  ultimately show ?thesis unfolding list_all_iff by (metis res_in_range.simps)
qed

text \<open>
  C13. Adding a row: a row that is not configured yet is accepted exactly when its arguments are in range, every port of
  its forward and return chain is free and the operation list has room; then exactly those ports become booked, the
  operations are appended, and the state records the row and the height of the spine.
\<close>

theorem row_add_spec:
  assumes "row \<notin> set (rows (f_state f))"
  shows "(fst (acr_plan_row_add shim_col row col_lo col_hi ctrl_id is_top f) = ACR_OK \<longleftrightarrow>
       row_args_ok (f_state f) shim_col row col_lo col_hi \<and> row \<le> ACR_MAX_ROWS \<and>
       (\<forall>x\<in>set (new_row_books shim_col row col_lo col_hi is_top). \<not> booked (w_book (f_work f)) x) \<and>
       length (w_ops (f_work f)) + length (new_row_ops (f_state f) shim_col row col_lo col_hi ctrl_id is_top) \<le> ACR_MAX_OPS) \<and>
     (fst (acr_plan_row_add shim_col row col_lo col_hi ctrl_id is_top f) = ACR_OK \<longrightarrow>
       f_state (snd (acr_plan_row_add shim_col row col_lo col_hi ctrl_id is_top f)) = new_state (f_state f) row \<and>
       w_ops (f_work (snd (acr_plan_row_add shim_col row col_lo col_hi ctrl_id is_top f))) =
         w_ops (f_work f) @ new_row_ops (f_state f) shim_col row col_lo col_hi ctrl_id is_top \<and>
       (\<forall>x. booked (w_book (f_work (snd (acr_plan_row_add shim_col row col_lo col_hi ctrl_id is_top f)))) x =
         (booked (w_book (f_work f)) x \<or> x \<in> set (new_row_books shim_col row col_lo col_hi is_top))))"
proof (cases "row_args_ok (f_state f) shim_col row col_lo col_hi")
  case True
  let ?add = "acr_plan_row_add shim_col row col_lo col_hi ctrl_id is_top f"
  let ?new = "new_row_ops (f_state f) shim_col row col_lo col_hi ctrl_id is_top"
  let ?books = "new_row_books shim_col row col_lo col_hi is_top"
  have nh: "\<not> acr_row_is_head (f_state f) row" using assms by (simp add: acr_row_is_head_def)
  note eq = row_add_eq [OF True nh refl, of ctrl_id is_top] and step = row_add_work_step [OF True, of ctrl_id is_top]
  have "?new \<noteq> []" using True by (auto simp: new_row_ops_def row_chain_def chain_ops_def Let_def row_args_ok_def)
  moreover have "distinct ?books" unfolding new_row_books_def by (rule row_books_distinct) simp
  ultimately have "plan_fits ?books ?new (f_work f) \<longleftrightarrow> row \<le> ACR_MAX_ROWS \<and> (\<forall>x\<in>set ?books. \<not> booked (w_book (f_work f)) x) \<and>
      length (w_ops (f_work f)) + length ?new \<le> ACR_MAX_OPS"
    using new_books_range [OF True, of is_top] by (auto simp: plan_fits_def list_all_iff)
  with planner_step.ok_iff [OF step, of "f_work f"] eq(1) True
  have iff: "fst ?add = ACR_OK \<longleftrightarrow> row_args_ok (f_state f) shim_col row col_lo col_hi \<and> row \<le> ACR_MAX_ROWS \<and>
      (\<forall>x\<in>set ?books. \<not> booked (w_book (f_work f)) x) \<and> length (w_ops (f_work f)) + length ?new \<le> ACR_MAX_OPS" by simp
  have "f_state (snd ?add) = new_state (f_state f) row \<and> w_ops (f_work (snd ?add)) = w_ops (f_work f) @ ?new \<and>
      (\<forall>x. booked (w_book (f_work (snd ?add))) x = (booked (w_book (f_work f)) x \<or> x \<in> set ?books))" if ok: "fst ?add = ACR_OK"
  proof -
    have w: "fst (row_add_work (f_state f) shim_col row col_lo col_hi ctrl_id is_top (f_work f)) = ACR_OK" using ok eq(1) by simp
    show ?thesis using planner_step.ok_ops [OF step w] planner_step.ok_book [OF step w] by (simp add: eq(2) [OF ok])
  qed
  with iff show ?thesis by blast
next
  case False
  have nh: "\<not> acr_row_is_head (f_state f) row" using assms by (simp add: acr_row_is_head_def)
  then show ?thesis using False row_add_needs_args [of shim_col row col_lo col_hi ctrl_id is_top f] by blast
qed

theorem row_add_spec_witness:
  "fst (acr_plan_row_add 0 2 0 1 0 True
     \<lparr>f_state = \<lparr>spine_top = 0, rows = [1]\<rparr>, f_work = \<lparr>w_ops = [], w_book = empty_book\<rparr>\<rparr>) = ACR_OK \<and>
   rows (f_state (snd (acr_plan_row_add 0 2 0 1 0 True
     \<lparr>f_state = \<lparr>spine_top = 0, rows = [1]\<rparr>, f_work = \<lparr>w_ops = [], w_book = empty_book\<rparr>\<rparr>))) = [1, 2]"
proof -
  let ?f = "\<lparr>f_state = \<lparr>spine_top = 0, rows = [1]\<rparr>, f_work = \<lparr>w_ops = [], w_book = empty_book\<rparr>\<rparr>"
  have "fst (acr_plan_row_add 0 2 0 1 0 True ?f) = ACR_OK" by code_simp
  with row_add_spec [of 2 ?f 0 0 1 0 True] show ?thesis by (simp add: new_state_def)
qed

lemma fab_ops_reserved:
  assumes "fst (rt_ctrl_plan_add_rows d chs (ctrl_fabric0 shim_col ctrl_id defer_on False)) = XAIE_OK" "distinct (map ch_row chs)"
    and "op \<in> fab_ops (snd (rt_ctrl_plan_add_rows d chs (ctrl_fabric0 shim_col ctrl_id defer_on False)))"
  shows "op_reserved gen op"
proof -
  let ?r = "rt_ctrl_plan_add_rows d chs (ctrl_fabric0 shim_col ctrl_id defer_on False)"
  have "?r = (XAIE_OK, snd ?r)" using assms(1) by (cases ?r) simp
  from add_rows_ok(2) [OF this assms(2)] assms(3) obtain k where k: "k < length chs" "k \<le> ACR_MAX_ROW_IDX"
      "op \<in> set (chain_plan shim_col ctrl_id (top_row chs) (take k chs) (chs ! k))"
    by (auto simp: fabric_after_def chain_plans_def ctrl_fabric0_def)
  have cct: "op_reserved gen (acr_cct_op c r p q b)" for c r p q b by (simp add: op_reserved_def acr_cct_op_def)
  have ch: "op_reserved gen op" if "op \<in> set (chain_ops row k lo t hi cid sc ACR_SOUTH is_top c)" for row lo t hi cid sc is_top c
    using chain_ops_reserved [OF k(2), of ACR_SOUTH gen] that by (simp add: list_all_iff)
  have rt: "op_reserved gen op" if "op \<in> set (ret_ops row lo t hi is_top c)" for row lo t hi is_top c
    using ret_ops_reserved [of gen] that by (simp add: list_all_iff)
  have "length (rows (spine_state (take k chs))) = k" using k(1) by (simp add: spine_state_def)
  then show ?thesis
    using k(3) cct ch rt by (auto simp: chain_plan_def new_row_ops_def spine_ops_def row_chain_def row_return_def simp del: upt_Suc split: if_splits)
qed

text \<open>
  C14. Everything the control plan programs is reserved: each slot and each master it enables is an entry of the
  reservation table, which is what the router of the data streams leaves free.
\<close>

theorem fabric_reserved:
  assumes "fst (rt_ctrl_plan_add_rows d chs (ctrl_fabric0 shim_col ctrl_id defer_on False)) = XAIE_OK" "distinct (map ch_row chs)"
    and "op \<in> fab_ops (snd (rt_ctrl_plan_add_rows d chs (ctrl_fabric0 shim_col ctrl_id defer_on False)))"
  shows "op_reserved gen op"
  using assms by (rule fab_ops_reserved)

theorem fabric_reserved_witness:
  "op_reserved RT_RES_GEN2 (acr_master_op 0 2 ACR_SOUTH 3 RT_RES_ARB_RET)"
proof -
  let ?r = "rt_ctrl_plan_add_rows \<lparr>drv_row_op = \<lambda>op. XAIE_OK, drv_idle = True, drv_capture = \<lambda>ops. True\<rparr>
       [\<lparr>ch_row = 2, ch_col_lo = 0, ch_col_hi = 1\<rparr>] (ctrl_fabric0 0 2 False False)"
  have 1: "fst ?r = XAIE_OK" and "acr_master_op 0 2 ACR_SOUTH 3 RT_RES_ARB_RET \<in> set (hw_ops (snd ?r))" by code_simp+
  then have "acr_master_op 0 2 ACR_SOUTH 3 RT_RES_ARB_RET \<in> fab_ops (snd ?r)" by (simp add: fab_ops_def)
  from fabric_reserved [OF 1 _ this] show ?thesis by simp
qed

end
