(* ===== verification/NbElf.thy ===== *)
theory NbElf
  imports AiePrelude
begin

text \<open>
  The ELF loader of the netboot supervisor, \<open>src/src/tool/netboot/supervisor/elfload.c\<close>, over a byte-addressed
  64-bit memory in which the uploaded image stands at the staging area: header checks, placement of the loadable
  segments, clearing of the zero sections and the redirection of \<open>_exit\<close> to the park routine. All sizes and addresses
  are 64-bit words, so that sums wrap as they do in the code.
\<close>

type_synonym amem = "u64 \<Rightarrow> u8"

definition NB_APP_LIMIT :: u64 where "NB_APP_LIMIT = 0x78000000"

definition NB_STAGING_BASE :: u64 where "NB_STAGING_BASE = 0x7A200000"

definition NB_STAGING_SIZE :: u64 where "NB_STAGING_SIZE = 0x80000000 - NB_STAGING_BASE"

text \<open>A little-endian field of \<open>n\<close> bytes.\<close>

primrec field :: "amem \<Rightarrow> u64 \<Rightarrow> nat \<Rightarrow> u64" where
  "field m a 0 = 0"
| "field m a (Suc n) = ucast (m a) OR push_bit 8 (field m (a + 1) n)"

definition Elf64_Ehdr_size :: u64 where "Elf64_Ehdr_size = 64"

definition Elf64_Phdr_size :: u64 where "Elf64_Phdr_size = 56"

definition Elf64_Shdr_size :: u64 where "Elf64_Shdr_size = 64"


record Elf64_Ehdr =
  e_type :: u64
  e_machine :: u64
  e_entry :: u64
  e_phoff :: u64
  e_shoff :: u64
  e_phentsize :: u64
  e_phnum :: u64
  e_shentsize :: u64
  e_shnum :: u64
  e_shstrndx :: u64

definition ehdr :: "amem \<Rightarrow> u64 \<Rightarrow> Elf64_Ehdr" where
  "ehdr m img =
     \<lparr>e_type = field m (img + 16) 2, e_machine = field m (img + 18) 2, e_entry = field m (img + 24) 8, e_phoff = field m (img + 32) 8,
      e_shoff = field m (img + 40) 8, e_phentsize = field m (img + 54) 2, e_phnum = field m (img + 56) 2,
      e_shentsize = field m (img + 58) 2, e_shnum = field m (img + 60) 2, e_shstrndx = field m (img + 62) 2\<rparr>"

record Elf64_Phdr =
  p_type :: u64
  p_offset :: u64
  p_paddr :: u64
  p_filesz :: u64
  p_memsz :: u64

definition phdr :: "amem \<Rightarrow> u64 \<Rightarrow> nat \<Rightarrow> Elf64_Phdr" where
  "phdr m ph i =
     (let a = ph + of_nat i * Elf64_Phdr_size in
      \<lparr>p_type = field m a 4, p_offset = field m (a + 8) 8, p_paddr = field m (a + 24) 8, p_filesz = field m (a + 32) 8,
       p_memsz = field m (a + 40) 8\<rparr>)"

record Elf64_Shdr =
  sh_name :: u64
  sh_type :: u64
  sh_flags :: u64
  sh_addr :: u64
  sh_offset :: u64
  sh_size :: u64
  sh_link :: u64

definition shdr :: "amem \<Rightarrow> u64 \<Rightarrow> nat \<Rightarrow> Elf64_Shdr" where
  "shdr m sh i =
     (let a = sh + of_nat i * Elf64_Shdr_size in
      \<lparr>sh_name = field m a 4, sh_type = field m (a + 4) 4, sh_flags = field m (a + 8) 8, sh_addr = field m (a + 16) 8,
       sh_offset = field m (a + 24) 8, sh_size = field m (a + 32) 8, sh_link = field m (a + 40) 4\<rparr>)"

definition PT_LOAD64 :: u64 where "PT_LOAD64 = 1"


definition SHT_NOBITS :: u64 where "SHT_NOBITS = 8"

definition SHF_ALLOC :: u64 where "SHF_ALLOC = 2"

definition SHF_TLS :: u64 where "SHF_TLS = 0x400"

text \<open>\<open>memcpy\<close>, \<open>memset\<close> to zero, and \<open>strcmp\<close> with a literal.\<close>

definition mcopy :: "amem \<Rightarrow> u64 \<Rightarrow> u64 \<Rightarrow> u64 \<Rightarrow> amem" where
  "mcopy m dst src n = (\<lambda>a. if a - dst < n then m (src + (a - dst)) else m a)"

definition mzero :: "amem \<Rightarrow> u64 \<Rightarrow> u64 \<Rightarrow> amem" where
  "mzero m dst n = (\<lambda>a. if a - dst < n then 0 else m a)"

primrec streq :: "amem \<Rightarrow> u64 \<Rightarrow> u8 list \<Rightarrow> bool" where
  "streq m a [] = (m a = 0)"
| "streq m a (c # cs) = (m a = c \<and> streq m (a + 1) cs)"

datatype elf_err = short_file | not_elf | not_elf64 | not_aarch64 | phdrs_range | entry_range | segment_range | file_range

definition seg_check :: "u64 \<Rightarrow> Elf64_Phdr \<Rightarrow> elf_err option" where
  "seg_check sz p =
     (if p_type p \<noteq> PT_LOAD64 \<or> p_memsz p = 0 then None
      else
        let lo = p_paddr p; hi = lo + p_memsz p in
        if hi < lo \<or> hi > NB_APP_LIMIT then Some segment_range
        else if p_filesz p > p_memsz p \<or> p_offset p + p_filesz p > sz \<or> p_offset p + p_filesz p < p_offset p then Some file_range
        else None)"

primrec first_err :: "('a \<Rightarrow> elf_err option) \<Rightarrow> 'a list \<Rightarrow> elf_err option" where
  "first_err f [] = None"
| "first_err f (x # xs) = (case f x of Some e \<Rightarrow> Some e | None \<Rightarrow> first_err f xs)"

definition check_headers :: "amem \<Rightarrow> u64 \<Rightarrow> u64 \<Rightarrow> elf_err option" where
  "check_headers m img sz =
     (if sz < Elf64_Ehdr_size then Some short_file
      else
        let eh = ehdr m img in
        if map (\<lambda>i. m (img + i)) [0, 1, 2, 3] \<noteq> [0x7F, 0x45, 0x4C, 0x46] then Some not_elf
        else if m (img + 4) \<noteq> 2 \<or> m (img + 5) \<noteq> 1 then Some not_elf64
        else if e_machine eh \<noteq> 183 \<or> e_type eh \<noteq> 2 then Some not_aarch64
        else if e_phentsize eh \<noteq> Elf64_Phdr_size \<or> e_phnum eh = 0 \<or> e_phoff eh + e_phnum eh * Elf64_Phdr_size > sz then Some phdrs_range
        else if e_entry eh \<ge> NB_APP_LIMIT then Some entry_range
        else first_err (\<lambda>i. seg_check sz (phdr m (img + e_phoff eh) i)) [0..<unat (e_phnum eh)])"

definition place_seg :: "u64 \<Rightarrow> nat \<Rightarrow> amem \<Rightarrow> amem" where
  "place_seg img i m =
     (let p = phdr m (img + e_phoff (ehdr m img)) i in
      if p_type p \<noteq> PT_LOAD64 \<or> p_filesz p = 0 then m
      else mcopy m (p_paddr p) (img + p_offset p) (p_filesz p))"

definition zero_sec :: "u64 \<Rightarrow> u64 \<Rightarrow> nat \<Rightarrow> amem \<Rightarrow> amem" where
  "zero_sec img sz i m =
     (let eh = ehdr m img; sh = shdr m (img + e_shoff eh) i; str = shdr m (img + e_shoff eh) (unat (e_shstrndx eh)) in
      if sh_type sh \<noteq> SHT_NOBITS \<or> sh_flags sh AND SHF_ALLOC = 0 \<or> sh_flags sh AND SHF_TLS \<noteq> 0 \<or> sh_size sh = 0 then m
      else if sh_name sh < sh_size str \<and> sh_offset str + sh_size str \<le> sz \<and>
         (streq m (img + sh_offset str + sh_name sh) [0x2E, 0x68, 0x65, 0x61, 0x70] \<or>
          streq m (img + sh_offset str + sh_name sh) [0x2E, 0x73, 0x74, 0x61, 0x63, 0x6B]) then m
      else
        let lo = sh_addr sh; hi = lo + sh_size sh in
        if hi < lo \<or> hi > NB_APP_LIMIT then m else mzero m lo (sh_size sh))"

definition zero_bss :: "u64 \<Rightarrow> u64 \<Rightarrow> amem \<Rightarrow> amem" where
  "zero_bss img sz m =
     (let eh = ehdr m img in
      if e_shoff eh = 0 \<or> e_shentsize eh \<noteq> Elf64_Shdr_size \<or> e_shstrndx eh \<ge> e_shnum eh \<or>
         e_shoff eh + e_shnum eh * Elf64_Shdr_size > sz then m
      else fold (zero_sec img sz) [0..<unat (e_shnum eh)] m)"

text \<open>The result is the entry point, or the reason of a refusal with the memory as it was.\<close>

definition elf_place :: "u64 \<Rightarrow> u64 \<Rightarrow> amem \<Rightarrow> (elf_err + u64) \<times> amem" where
  "elf_place img sz m =
     (case check_headers m img sz of
        Some e \<Rightarrow> (Inl e, m)
      | None \<Rightarrow>
          let m1 = fold (place_seg img) [0..<unat (e_phnum (ehdr m img))] m; m2 = zero_bss img sz m1
          in (Inr (e_entry (ehdr m2 img)), m2))"

definition put32 :: "u64 \<Rightarrow> u32 \<Rightarrow> amem \<Rightarrow> amem" where
  "put32 a v m = m(a := ucast v, a + 1 := ucast (drop_bit 8 v), a + 2 := ucast (drop_bit 16 v), a + 3 := ucast (drop_bit 24 v))"





definition same_above :: "u64 \<Rightarrow> amem \<Rightarrow> amem \<Rightarrow> bool" where
  "same_above lim m m' = (\<forall>a\<ge>lim. m' a = m a)"

text \<open>The program headers the check has read are the ones the placement reads.\<close>

definition phdrs_staged :: "u64 \<Rightarrow> amem \<Rightarrow> bool" where
  "phdrs_staged sz m = (e_phoff (ehdr m NB_STAGING_BASE) + e_phnum (ehdr m NB_STAGING_BASE) * Elf64_Phdr_size \<le> sz \<and> sz \<le> NB_STAGING_SIZE)"

text \<open>A loadable segment without memory but with file bytes: no check looks at it.\<close>

definition hollow_segment :: "Elf64_Phdr \<Rightarrow> bool" where
  "hollow_segment p = (p_type p = PT_LOAD64 \<and> p_memsz p = 0 \<and> p_filesz p \<noteq> 0)"

definition staged_phdr :: "amem \<Rightarrow> nat \<Rightarrow> Elf64_Phdr" where
  "staged_phdr m i = phdr m (NB_STAGING_BASE + e_phoff (ehdr m NB_STAGING_BASE)) i"

definition staged_shdr :: "amem \<Rightarrow> nat \<Rightarrow> Elf64_Shdr" where
  "staged_shdr m i = shdr m (NB_STAGING_BASE + e_shoff (ehdr m NB_STAGING_BASE)) i"

text \<open>Bytes at the staging area, zero elsewhere.\<close>

definition staged_image :: "u8 list \<Rightarrow> amem" where
  "staged_image bs = (\<lambda>a. if a - NB_STAGING_BASE < of_nat (length bs) then bs ! unat (a - NB_STAGING_BASE) else 0)"

text \<open>
  A small image: one program header with physical address byte 3 \<open>pa\<close> (so the address is \<open>pa * 2 ^ 24\<close>), file size
  \<open>fsz\<close>, memory size \<open>msz\<close> and file bytes at offset 120.
\<close>

definition sample_image :: "u8 \<Rightarrow> u8 \<Rightarrow> u8 \<Rightarrow> u8 list" where
  "sample_image pa fsz msz =
     [0x7F, 0x45, 0x4C, 0x46, 2, 1, 1, 0, 0, 0, 0, 0, 0, 0, 0, 0, 2, 0, 183, 0, 1, 0, 0, 0, 0, 16, 0, 0, 0, 0, 0, 0,
      64, 0, 0, 0, 0, 0, 0, 0, 0, 0, 0, 0, 0, 0, 0, 0, 0, 0, 0, 0, 64, 0, 56, 0, 1, 0, 64, 0, 0, 0, 0, 0,
      1, 0, 0, 0, 5, 0, 0, 0, 120, 0, 0, 0, 0, 0, 0, 0, 0, 0, 0, pa, 0, 0, 0, 0, 0, 0, 0, pa, 0, 0, 0, 0,
      fsz, 0, 0, 0, 0, 0, 0, 0, msz, 0, 0, 0, 0, 0, 0, 0, 8, 0, 0, 0, 0, 0, 0, 0, 0xAA, 0xBB]"


section \<open>What a write can touch\<close>

lemma same_above_refl [simp]: "same_above lim m m"
  by (simp add: same_above_def)

lemma same_above_trans: "same_above lim m m1 \<Longrightarrow> same_above lim m1 m2 \<Longrightarrow> same_above lim m m2"
  by (simp add: same_above_def)

text \<open>A range that ends below the limit without wrapping around does not contain an address above it.\<close>

lemma range_below:
  fixes lo :: u64
  assumes "lo \<le> lo + n" "lo + n \<le> lim" "lim \<le> a"
  shows "\<not> a - lo < n"
proof -
  have n: "unat (lo + n) = unat lo + unat n" using assms(1) by (metis word_le_nat_alt unat_plus_simple)
  have "unat lo + unat n \<le> unat a" using assms(2,3) n by (simp add: word_le_nat_alt)
  then show ?thesis by (simp add: word_less_nat_alt unat_sub word_le_nat_alt)
qed

lemma mcopy_above: "dst \<le> dst + n \<Longrightarrow> dst + n \<le> lim \<Longrightarrow> same_above lim m (mcopy m dst src n)"
  using range_below by (auto simp: same_above_def mcopy_def)

lemma mzero_above: "dst \<le> dst + n \<Longrightarrow> dst + n \<le> lim \<Longrightarrow> same_above lim m (mzero m dst n)"
  using range_below by (auto simp: same_above_def mzero_def)

lemma field_cong: "(\<And>k. k < n \<Longrightarrow> m' (a + of_nat k) = m (a + of_nat k)) \<Longrightarrow> field m' a n = field m a n"
proof (induction n arbitrary: a)
  case (Suc n)
  have "m' (a + 1 + of_nat k) = m (a + 1 + of_nat k)" if "k < n" for k using Suc.prems [of "Suc k"] that by (simp add: algebra_simps)
  with Suc show ?case using Suc.prems [of 0] by simp
qed simp

section \<open>Where the headers are\<close>

lemma staging_limit: "NB_APP_LIMIT \<le> NB_STAGING_BASE"
  by (simp add: NB_APP_LIMIT_def NB_STAGING_BASE_def)

text \<open>
  An offset \<open>x\<close> from the staging area that is below the staging size, or wraps to at most 4 MB before the area, is above
  the application's memory.
\<close>

lemma staged_above:
  assumes "x < NB_STAGING_SIZE \<or> - 0x400000 \<le> x"
  shows "NB_APP_LIMIT \<le> NB_STAGING_BASE + x"
  using assms
proof
  assume "x < NB_STAGING_SIZE"
  then have "unat x < 0x5E00000" by (simp add: NB_STAGING_SIZE_def NB_STAGING_BASE_def word_less_nat_alt)
  then have "unat (NB_STAGING_BASE + x) = 0x7A200000 + unat x" by (simp add: NB_STAGING_BASE_def unat_word_ariths)
  then show ?thesis by (simp add: word_le_nat_alt NB_APP_LIMIT_def)
next
  assume "- 0x400000 \<le> x"
  then have "2 ^ 64 - 0x400000 \<le> unat x" by (simp add: word_le_nat_alt)
  moreover have "unat x < 2 ^ 64" using unsigned_less [of x] by simp
  ultimately have "unat (NB_STAGING_BASE + x) = 0x7A200000 + unat x - 2 ^ 64"
    by (simp add: NB_STAGING_BASE_def unat_word_ariths le_mod_geq mod_if)
  with \<open>2 ^ 64 - 0x400000 \<le> unat x\<close> show ?thesis by (simp add: word_le_nat_alt NB_APP_LIMIT_def)
qed

lemma field_bit: "bit (field m a n) k \<Longrightarrow> k < 8 * n"
  by (induction n arbitrary: a k) (auto simp: bit_or_iff bit_push_bit_iff bit_ucast_iff dest: bit_imp_le_length, fastforce)

lemma field_less: "unat (field m a n) < 2 ^ (8 * n)"
proof -
  have "take_bit (8 * n) (field m a n) = field m a n" by (rule bit_eqI) (auto simp: bit_take_bit_iff dest: field_bit)
  then have "unat (field m a n) = take_bit (8 * n) (unat (field m a n))" by (metis unsigned_take_bit_eq)
  then show ?thesis by (metis take_bit_nat_less_exp)
qed

lemma table_above:
  assumes "off + num * ent \<le> sz" "sz \<le> NB_STAGING_SIZE" "unat num < 0x10000" "unat ent \<le> 64" "i < unat num" "j < unat ent"
  shows "NB_APP_LIMIT \<le> NB_STAGING_BASE + off + of_nat i * ent + of_nat j"
proof -
  define N where "N = unat num * unat ent"
  define y where "y = i * unat ent + j"
  have N: "N \<le> 0xFFFF * 64" unfolding N_def using assms(3,4) by (intro mult_le_mono) auto
  have "Suc i * unat ent \<le> N" unfolding N_def using assms(5) by (intro mult_le_mono) auto
  then have y: "y < N" using assms(6) by (simp add: y_def)
  have ne: "num * ent = of_nat N" by (simp add: N_def)
  have x: "of_nat i * ent + of_nat j = (of_nat y :: u64)" by (simp add: y_def)
  have off: "unat off < 2 ^ 64" using unsigned_less [of off] by simp
  have plus: "unat (off + of_nat k) = (if unat off + k < 2 ^ 64 then unat off + k else unat off + k - 2 ^ 64)" if "k \<le> N" for k
    using that N off by (simp add: unat_word_ariths unat_of_nat le_mod_geq mod_if)
  have sz: "unat (off + of_nat N) \<le> unat sz" "unat sz \<le> unat NB_STAGING_SIZE" using assms(1,2) by (simp_all add: ne word_le_nat_alt)
  have "off + of_nat y < NB_STAGING_SIZE \<or> - 0x400000 \<le> off + of_nat y"
  proof (cases "unat off + N < 2 ^ 64 \<or> 2 ^ 64 \<le> unat off + y")
    case True
    then have "unat (off + of_nat y) < unat (off + of_nat N)" using y plus [of y] plus [of N] by auto
    then show ?thesis using sz by (simp add: word_less_nat_alt)
  next
    case False
    then have "2 ^ 64 - 0x400000 \<le> unat (off + of_nat y)" using y N plus [of y] by simp
    then show ?thesis by (simp add: word_le_nat_alt)
  qed
  from staged_above [OF this] show ?thesis by (simp add: x [symmetric] add.assoc)
qed

lemma unat64_less: "unat (x :: u64) < 2 ^ 64"
  using unsigned_less [of x] by simp

lemma field_same:
  "same_above NB_APP_LIMIT m m' \<Longrightarrow> (\<And>k. k < n \<Longrightarrow> NB_APP_LIMIT \<le> a + of_nat k) \<Longrightarrow> field m' a n = field m a n"
  by (rule field_cong) (simp add: same_above_def)

lemma staged_field_same:
  assumes "same_above NB_APP_LIMIT m m'" "c + n \<le> 64"
  shows "field m' (NB_STAGING_BASE + of_nat c) n = field m (NB_STAGING_BASE + of_nat c) n"
proof (rule field_same [OF assms(1)])
  fix k assume "k < n"
  then have "of_nat (c + k) < NB_STAGING_SIZE"
    using assms(2) by (simp add: word_less_nat_alt NB_STAGING_SIZE_def NB_STAGING_BASE_def unat_of_nat del: of_nat_add)
  then have "NB_APP_LIMIT \<le> NB_STAGING_BASE + of_nat (c + k)" by (intro staged_above disjI1)
  then show "NB_APP_LIMIT \<le> NB_STAGING_BASE + of_nat c + of_nat k" by (simp add: add.assoc)
qed

lemma ehdr_same: "same_above NB_APP_LIMIT m m' \<Longrightarrow> ehdr m' NB_STAGING_BASE = ehdr m NB_STAGING_BASE"
  using staged_field_same [of m m' 16 2] staged_field_same [of m m' 18 2] staged_field_same [of m m' 24 8] staged_field_same [of m m' 32 8]
    staged_field_same [of m m' 40 8] staged_field_same [of m m' 54 2] staged_field_same [of m m' 56 2] staged_field_same [of m m' 58 2]
    staged_field_same [of m m' 60 2] staged_field_same [of m m' 62 2]
  by (simp add: ehdr_def)

lemma phdr_same:
  assumes "same_above NB_APP_LIMIT m m'" "phdrs_staged sz m" "i < unat (e_phnum (ehdr m NB_STAGING_BASE))"
  shows "phdr m' (NB_STAGING_BASE + e_phoff (ehdr m NB_STAGING_BASE)) i = phdr m (NB_STAGING_BASE + e_phoff (ehdr m NB_STAGING_BASE)) i"
proof -
  let ?a = "NB_STAGING_BASE + e_phoff (ehdr m NB_STAGING_BASE) + of_nat i * Elf64_Phdr_size"
  have num: "unat (e_phnum (ehdr m NB_STAGING_BASE)) < 0x10000" using field_less [of m "NB_STAGING_BASE + 56" 2] by (simp add: ehdr_def)
  have above: "NB_APP_LIMIT \<le> ?a + of_nat j" if "j < 56" for j
    using table_above [OF _ _ num _ assms(3), of "e_phoff (ehdr m NB_STAGING_BASE)" Elf64_Phdr_size sz j] assms(2) that
    by (simp add: phdrs_staged_def Elf64_Phdr_size_def)
  have f: "field m' (?a + of_nat c) n = field m (?a + of_nat c) n" if "c + n \<le> 56" for c n
  proof (rule field_same [OF assms(1)])
    fix k assume "k < n"
    with that above [of "c + k"] show "NB_APP_LIMIT \<le> ?a + of_nat c + of_nat k" by (simp add: add.assoc)
  qed
  show ?thesis
    using f [of 0 4] f [of 8 8] f [of 24 8] f [of 32 8] f [of 40 8] by (simp add: phdr_def Let_def)
qed

lemma seg_check_range:
  assumes "seg_check sz p = None" "p_type p = PT_LOAD64" "p_memsz p \<noteq> 0"
  shows "p_paddr p \<le> p_paddr p + p_filesz p" "p_paddr p + p_filesz p \<le> NB_APP_LIMIT"
proof -
  have r: "p_paddr p \<le> p_paddr p + p_memsz p" "p_paddr p + p_memsz p \<le> NB_APP_LIMIT" "p_filesz p \<le> p_memsz p"
    using assms by (auto simp: seg_check_def Let_def not_less split: if_splits)
  have "unat (p_paddr p + p_memsz p) = unat (p_paddr p) + unat (p_memsz p)" using r(1) by (metis unat_plus_simple)
  then have "unat (p_paddr p) + unat (p_filesz p) < 2 ^ 64" "unat (p_paddr p) + unat (p_filesz p) \<le> unat NB_APP_LIMIT"
    using r(2,3) unat64_less [of "p_paddr p + p_memsz p"] by (simp_all add: word_le_nat_alt)
  then show "p_paddr p \<le> p_paddr p + p_filesz p" "p_paddr p + p_filesz p \<le> NB_APP_LIMIT"
    by (simp_all add: word_le_nat_alt unat_word_ariths)
qed

lemma first_err_None: "(first_err f xs = None) = (\<forall>x\<in>set xs. f x = None)"
  by (induction xs) (auto split: option.splits)

lemma check_headers_ok:
  assumes "check_headers m NB_STAGING_BASE sz = None" "sz \<le> NB_STAGING_SIZE"
  shows "phdrs_staged sz m" "\<forall>i<unat (e_phnum (ehdr m NB_STAGING_BASE)). seg_check sz (staged_phdr m i) = None"
    "e_entry (ehdr m NB_STAGING_BASE) < NB_APP_LIMIT"
  using assms by (auto simp: check_headers_def phdrs_staged_def staged_phdr_def Let_def first_err_None not_less not_le split: if_splits)

lemma place_segs_above:
  assumes "check_headers m NB_STAGING_BASE sz = None" "sz \<le> NB_STAGING_SIZE"
    and "\<forall>i<unat (e_phnum (ehdr m NB_STAGING_BASE)). \<not> hollow_segment (staged_phdr m i)"
    and "set idxs \<subseteq> {..<unat (e_phnum (ehdr m NB_STAGING_BASE))}"
  shows "same_above NB_APP_LIMIT m (fold (place_seg NB_STAGING_BASE) idxs m)"
proof -
  have seg: "same_above NB_APP_LIMIT m1 (place_seg NB_STAGING_BASE i m1)"
    if "same_above NB_APP_LIMIT m m1" "i < unat (e_phnum (ehdr m NB_STAGING_BASE))" for m1 i
  proof -
    have p: "phdr m1 (NB_STAGING_BASE + e_phoff (ehdr m1 NB_STAGING_BASE)) i = staged_phdr m i"
      unfolding ehdr_same [OF that(1)] staged_phdr_def by (rule phdr_same [OF that(1) check_headers_ok(1) [OF assms(1,2)] that(2)])
    show ?thesis
    proof (cases "p_type (staged_phdr m i) = PT_LOAD64 \<and> p_filesz (staged_phdr m i) \<noteq> 0")
      case True
      then have "p_memsz (staged_phdr m i) \<noteq> 0" using assms(3) that(2) by (auto simp: hollow_segment_def)
      with True seg_check_range [of sz "staged_phdr m i"] check_headers_ok(2) [OF assms(1,2)] that(2)
      show ?thesis by (simp add: place_seg_def p Let_def mcopy_above)
    qed (auto simp: place_seg_def p Let_def)
  qed
  have "same_above NB_APP_LIMIT m m1 \<Longrightarrow> same_above NB_APP_LIMIT m (fold (place_seg NB_STAGING_BASE) idxs m1)" for m1
    using assms(4)
  proof (induction idxs arbitrary: m1)
    case (Cons i idxs)
    then show ?case using seg [of m1 i] same_above_trans by auto
  qed simp
  then show ?thesis by simp
qed

lemma zero_sec_above: "same_above NB_APP_LIMIT m (zero_sec img sz i m)"
  by (auto simp: zero_sec_def Let_def not_less intro: mzero_above)

lemma zero_bss_above: "same_above NB_APP_LIMIT m (zero_bss img sz m)"
proof -
  have "same_above NB_APP_LIMIT m1 (fold (zero_sec img sz) idxs m1)" for idxs m1
    by (induction idxs arbitrary: m1) (auto intro: same_above_trans zero_sec_above)
  then show ?thesis by (simp add: zero_bss_def Let_def)
qed

text \<open>
  C19. Placement stays below the supervisor: for an image without a hollow segment, \<open>elf_place\<close> changes no byte at or
  above \<open>NB_APP_LIMIT\<close> (so neither the supervisor nor the staged image), a refusal changes nothing at all, and an
  accepted image starts in the application's memory.
\<close>

theorem elf_place_safe:
  assumes "sz \<le> NB_STAGING_SIZE"
    and "\<forall>i<unat (e_phnum (ehdr m NB_STAGING_BASE)). \<not> hollow_segment (staged_phdr m i)"
  shows "same_above NB_APP_LIMIT m (snd (elf_place NB_STAGING_BASE sz m)) \<and>
     (\<forall>e. fst (elf_place NB_STAGING_BASE sz m) = Inl e \<longrightarrow> snd (elf_place NB_STAGING_BASE sz m) = m) \<and>
     (\<forall>a. fst (elf_place NB_STAGING_BASE sz m) = Inr a \<longrightarrow> a < NB_APP_LIMIT)"
proof (cases "check_headers m NB_STAGING_BASE sz")
  case None
  let ?m1 = "fold (place_seg NB_STAGING_BASE) [0..<unat (e_phnum (ehdr m NB_STAGING_BASE))] m"
  have "same_above NB_APP_LIMIT m (zero_bss NB_STAGING_BASE sz ?m1)"
    by (rule same_above_trans [OF place_segs_above [OF None assms] zero_bss_above]) auto
  moreover from this have "e_entry (ehdr (zero_bss NB_STAGING_BASE sz ?m1) NB_STAGING_BASE) < NB_APP_LIMIT"
    using check_headers_ok(3) [OF None assms(1)] by (simp add: ehdr_same)
  ultimately show ?thesis by (simp add: elf_place_def None Let_def)
qed (simp add: elf_place_def)

lemma shdr_same:
  assumes "same_above NB_APP_LIMIT m m'" "sz \<le> NB_STAGING_SIZE" "i < unat (e_shnum (ehdr m NB_STAGING_BASE))"
    and "e_shoff (ehdr m NB_STAGING_BASE) + e_shnum (ehdr m NB_STAGING_BASE) * Elf64_Shdr_size \<le> sz"
  shows "shdr m' (NB_STAGING_BASE + e_shoff (ehdr m NB_STAGING_BASE)) i = shdr m (NB_STAGING_BASE + e_shoff (ehdr m NB_STAGING_BASE)) i"
proof -
  let ?a = "NB_STAGING_BASE + e_shoff (ehdr m NB_STAGING_BASE) + of_nat i * Elf64_Shdr_size"
  have num: "unat (e_shnum (ehdr m NB_STAGING_BASE)) < 0x10000" using field_less [of m "NB_STAGING_BASE + 60" 2] by (simp add: ehdr_def)
  have above: "NB_APP_LIMIT \<le> ?a + of_nat j" if "j < 64" for j
    using table_above [OF assms(4,2) num _ assms(3), of j] that by (simp add: Elf64_Shdr_size_def)
  have f: "field m' (?a + of_nat c) n = field m (?a + of_nat c) n" if "c + n \<le> 64" for c n
  proof (rule field_same [OF assms(1)])
    fix k assume "k < n"
    with that above [of "c + k"] show "NB_APP_LIMIT \<le> ?a + of_nat c + of_nat k" by (simp add: add.assoc)
  qed
  show ?thesis
    using f [of 0 4] f [of 4 4] f [of 8 8] f [of 16 8] f [of 24 8] f [of 32 8] f [of 40 4] by (simp add: shdr_def Let_def)
qed

lemma place_seg_at:
  assumes "phdr m1 (NB_STAGING_BASE + e_phoff (ehdr m1 NB_STAGING_BASE)) j = p" "p_type p = PT_LOAD64 \<longrightarrow> \<not> a - p_paddr p < p_filesz p"
  shows "place_seg NB_STAGING_BASE j m1 a = m1 a"
  using assms by (auto simp: place_seg_def Let_def mcopy_def)

lemma zero_bss_at:
  assumes "same_above NB_APP_LIMIT m m1" "sz \<le> NB_STAGING_SIZE"
    and "\<forall>j<unat (e_shnum (ehdr m NB_STAGING_BASE)). sh_type (staged_shdr m j) = SHT_NOBITS \<longrightarrow>
          \<not> a - sh_addr (staged_shdr m j) < sh_size (staged_shdr m j)"
  shows "zero_bss NB_STAGING_BASE sz m1 a = m1 a"
proof (cases "e_shoff (ehdr m NB_STAGING_BASE) + e_shnum (ehdr m NB_STAGING_BASE) * Elf64_Shdr_size \<le> sz")
  case True
  have sec: "zero_sec NB_STAGING_BASE sz j m2 a = m2 a" if "same_above NB_APP_LIMIT m m2" "j < unat (e_shnum (ehdr m NB_STAGING_BASE))" for m2 j
  proof -
    have "shdr m2 (NB_STAGING_BASE + e_shoff (ehdr m2 NB_STAGING_BASE)) j = staged_shdr m j"
      unfolding ehdr_same [OF that(1)] staged_shdr_def by (rule shdr_same [OF that(1) assms(2) that(2) True])
    with assms(3) that(2) show ?thesis by (auto simp: zero_sec_def Let_def mzero_def)
  qed
  have "fold (zero_sec NB_STAGING_BASE sz) idxs m2 a = m2 a"
    if "same_above NB_APP_LIMIT m m2" "set idxs \<subseteq> {..<unat (e_shnum (ehdr m NB_STAGING_BASE))}" for idxs m2
    using that
  proof (induction idxs arbitrary: m2)
    case (Cons j idxs)
    then show ?case using sec [of m2 j] same_above_trans [OF Cons.prems(1) zero_sec_above] by simp
  qed simp
  with assms(1) show ?thesis by (auto simp: zero_bss_def Let_def ehdr_same [OF assms(1)] atLeast0LessThan)
next
  case False
  then show ?thesis by (auto simp: zero_bss_def Let_def ehdr_same [OF assms(1)])
qed

text \<open>
  C20. Placement loads the file: after an accepted image without a hollow segment, a byte of a loadable segment that no
  later segment and no zero section covers is the byte of the file at the segment's offset.
\<close>

theorem elf_place_loads:
  assumes "sz \<le> NB_STAGING_SIZE"
    and "\<forall>j<unat (e_phnum (ehdr m NB_STAGING_BASE)). \<not> hollow_segment (staged_phdr m j)"
    and "fst (elf_place NB_STAGING_BASE sz m) = Inr e" "i < unat (e_phnum (ehdr m NB_STAGING_BASE))"
    and "p_type (staged_phdr m i) = PT_LOAD64" "k < p_filesz (staged_phdr m i)"
    and "\<forall>j<unat (e_phnum (ehdr m NB_STAGING_BASE)). i < j \<and> p_type (staged_phdr m j) = PT_LOAD64 \<longrightarrow>
          \<not> p_paddr (staged_phdr m i) + k - p_paddr (staged_phdr m j) < p_filesz (staged_phdr m j)"
    and "\<forall>j<unat (e_shnum (ehdr m NB_STAGING_BASE)). sh_type (staged_shdr m j) = SHT_NOBITS \<longrightarrow>
          \<not> p_paddr (staged_phdr m i) + k - sh_addr (staged_shdr m j) < sh_size (staged_shdr m j)"
  shows "snd (elf_place NB_STAGING_BASE sz m) (p_paddr (staged_phdr m i) + k) = m (NB_STAGING_BASE + p_offset (staged_phdr m i) + k)"
proof -
  let ?n = "unat (e_phnum (ehdr m NB_STAGING_BASE))" and ?p = "staged_phdr m i"
  let ?a = "p_paddr ?p + k"
  have chk: "check_headers m NB_STAGING_BASE sz = None" using assms(3) by (auto simp: elf_place_def split: option.splits)
  note above = place_segs_above [OF chk assms(1,2)]
  have read: "phdr m1 (NB_STAGING_BASE + e_phoff (ehdr m1 NB_STAGING_BASE)) j = staged_phdr m j" if "same_above NB_APP_LIMIT m m1" "j < ?n" for m1 j
    unfolding ehdr_same [OF that(1)] staged_phdr_def by (rule phdr_same [OF that(1) check_headers_ok(1) [OF chk assms(1)] that(2)])
  let ?m0 = "fold (place_seg NB_STAGING_BASE) [0..<i] m"
  have m0: "same_above NB_APP_LIMIT m ?m0" by (rule above) (use assms(4) in auto)
  have off: "NB_APP_LIMIT \<le> NB_STAGING_BASE + (p_offset ?p + k)"
  proof (rule staged_above [OF disjI1])
    have "p_memsz ?p \<noteq> 0" using assms(2,4-6) by (auto simp: hollow_segment_def)
    then have r: "p_offset ?p \<le> p_offset ?p + p_filesz ?p" "p_offset ?p + p_filesz ?p \<le> sz"
      using check_headers_ok(2) [OF chk assms(1)] assms(4,5) by (auto simp: seg_check_def Let_def not_less split: if_splits)
    then have "unat (p_offset ?p + p_filesz ?p) = unat (p_offset ?p) + unat (p_filesz ?p)" by (metis unat_plus_simple)
    then have "unat (p_offset ?p) + unat k < unat sz" "unat (p_offset ?p) + unat k < 2 ^ 64"
      using r(2) assms(6) unat64_less [of "p_offset ?p + p_filesz ?p"] by (simp_all add: word_le_nat_alt word_less_nat_alt)
    then show "p_offset ?p + k < NB_STAGING_SIZE" using assms(1) by (simp add: word_less_nat_alt word_le_nat_alt unat_word_ariths)
  qed
  have "place_seg NB_STAGING_BASE i ?m0 ?a = ?m0 (NB_STAGING_BASE + p_offset ?p + k)"
    using assms(5,6) by (auto simp: place_seg_def read [OF m0 assms(4)] Let_def mcopy_def)
  also have "\<dots> = m (NB_STAGING_BASE + p_offset ?p + k)" using m0 off by (simp add: same_above_def add.assoc)
  finally have i: "fold (place_seg NB_STAGING_BASE) [0..<Suc i] m ?a = m (NB_STAGING_BASE + p_offset ?p + k)" by simp
  have rest: "fold (place_seg NB_STAGING_BASE) [0..<j] m ?a = m (NB_STAGING_BASE + p_offset ?p + k)" if "Suc i \<le> j" "j \<le> ?n" for j
    using that
  proof (induction j rule: nat_induct_at_least)
    case (Suc j)
    have "same_above NB_APP_LIMIT m (fold (place_seg NB_STAGING_BASE) [0..<j] m)" by (rule above) (use Suc in auto)
    from place_seg_at [OF read [OF this], of j ?a] Suc assms(7) show ?case by simp
  qed (rule i)
  have "zero_bss NB_STAGING_BASE sz (fold (place_seg NB_STAGING_BASE) [0..<?n] m) ?a = fold (place_seg NB_STAGING_BASE) [0..<?n] m ?a"
    by (rule zero_bss_at [OF above assms(1,8)]) auto
  with rest [of ?n] assms(4) show ?thesis by (simp add: elf_place_def chk Let_def)
qed

lemma field_numeral: "field m a (numeral n) = ucast (m a) OR push_bit 8 (field m (a + 1) (pred_numeral n))"
  by (simp add: numeral_eq_Suc)

lemma sample_headers:
  "ehdr (staged_image (sample_image pa fsz msz)) NB_STAGING_BASE =
     \<lparr>e_type = 2, e_machine = 183, e_entry = 0x1000, e_phoff = 64, e_shoff = 0, e_phentsize = 56, e_phnum = 1, e_shentsize = 64, e_shnum = 0, e_shstrndx = 0\<rparr>"
  by (simp add: ehdr_def field_numeral staged_image_def sample_image_def NB_STAGING_BASE_def)

lemma sample_phdr:
  "staged_phdr (staged_image (sample_image 1 2 2)) 0 = \<lparr>p_type = 1, p_offset = 120, p_paddr = 0x1000000, p_filesz = 2, p_memsz = 2\<rparr>"
  "staged_phdr (staged_image (sample_image 0x79 2 0)) 0 = \<lparr>p_type = 1, p_offset = 120, p_paddr = 0x79000000, p_filesz = 2, p_memsz = 0\<rparr>"
  unfolding staged_phdr_def sample_headers
  by (simp_all add: phdr_def Let_def field_numeral staged_image_def sample_image_def NB_STAGING_BASE_def)

lemma sample_size: "(122 :: u64) \<le> NB_STAGING_SIZE"
  by (simp add: NB_STAGING_SIZE_def NB_STAGING_BASE_def)

lemma sample_bytes:
  "staged_image (sample_image pa fsz msz) NB_STAGING_BASE = 0x7F" "staged_image (sample_image pa fsz msz) (NB_STAGING_BASE + 1) = 0x45"
  "staged_image (sample_image pa fsz msz) (NB_STAGING_BASE + 2) = 0x4C" "staged_image (sample_image pa fsz msz) (NB_STAGING_BASE + 3) = 0x46"
  "staged_image (sample_image pa fsz msz) (NB_STAGING_BASE + 4) = 2" "staged_image (sample_image pa fsz msz) (NB_STAGING_BASE + 5) = 1"
  "staged_image (sample_image pa fsz msz) (NB_STAGING_BASE + 120) = 0xAA" "staged_image (sample_image pa fsz msz) (NB_STAGING_BASE + 121) = 0xBB"
  "staged_image (sample_image pa fsz msz) 0x79000001 = 0"
  by (simp_all add: staged_image_def sample_image_def NB_STAGING_BASE_def)

lemma sample_headers_kept:
  assumes "dst = 0x1000000 \<or> dst = 0x79000000"
  shows "ehdr (mcopy (staged_image (sample_image pa fsz msz)) dst src 2) NB_STAGING_BASE = ehdr (staged_image (sample_image pa fsz msz)) NB_STAGING_BASE"
  using assms by (elim disjE) (simp_all add: ehdr_def field_numeral mcopy_def NB_STAGING_BASE_def)

lemma sample_accepted:
  assumes "p = staged_phdr (staged_image (sample_image pa fsz msz)) 0" "p_type p = 1" "p_filesz p = 2" "p_paddr p = 0x1000000 \<or> p_paddr p = 0x79000000"
    "seg_check 122 p = None"
  shows "elf_place NB_STAGING_BASE 122 (staged_image (sample_image pa fsz msz)) =
    (Inr 0x1000, mcopy (staged_image (sample_image pa fsz msz)) (p_paddr p) (NB_STAGING_BASE + p_offset p) 2)" (is "elf_place _ _ ?m = _")
proof -
  have "check_headers ?m NB_STAGING_BASE 122 = None"
    using assms(1,5) by (simp add: check_headers_def Let_def sample_headers sample_bytes Elf64_Ehdr_size_def Elf64_Phdr_size_def NB_APP_LIMIT_def staged_phdr_def)
  moreover have "place_seg NB_STAGING_BASE 0 ?m = mcopy ?m (p_paddr p) (NB_STAGING_BASE + p_offset p) 2"
    using assms(1-3) by (simp add: place_seg_def Let_def staged_phdr_def PT_LOAD64_def)
  ultimately show ?thesis
    using sample_headers_kept [OF assms(4)] by (simp add: elf_place_def sample_headers Let_def zero_bss_def)
qed

lemmas sample_good = sample_accepted [where pa = "1" and fsz = "2" and msz = "2", OF refl]

lemmas sample_hollow = sample_accepted [where pa = "0x79" and fsz = "2" and msz = "0", OF refl]

theorem elf_place_safe_witness:
  "same_above NB_APP_LIMIT (staged_image (sample_image 1 2 2)) (snd (elf_place NB_STAGING_BASE 122 (staged_image (sample_image 1 2 2)))) \<and>
   fst (elf_place NB_STAGING_BASE 122 (staged_image (sample_image 1 2 2))) = Inr 0x1000"
  using elf_place_safe [of 122 "staged_image (sample_image 1 2 2)"] sample_good
  by (simp add: sample_headers sample_phdr hollow_segment_def sample_size seg_check_def PT_LOAD64_def NB_APP_LIMIT_def Let_def)

theorem elf_place_loads_witness:
  "snd (elf_place NB_STAGING_BASE 122 (staged_image (sample_image 1 2 2))) 0x1000001 = 0xBB"
proof -
  have "fst (elf_place NB_STAGING_BASE 122 (staged_image (sample_image 1 2 2))) = Inr 0x1000"
    using sample_good by (simp add: sample_phdr seg_check_def PT_LOAD64_def NB_APP_LIMIT_def)
  then show ?thesis
    using elf_place_loads [of 122 "staged_image (sample_image 1 2 2)" "0x1000" 0 1] sample_bytes(8)
    by (simp add: sample_headers sample_phdr hollow_segment_def sample_size PT_LOAD64_def add.assoc)
qed

text \<open>
  C21. A loadable segment with an empty memory size and a nonzero file size is skipped by the range checks but copied by
  the placement: there is an image that is accepted and changes a byte above the application's memory.
\<close>

theorem hollow_segment_escapes:
  "\<exists>m e. fst (elf_place NB_STAGING_BASE 122 m) = Inr e \<and> \<not> same_above NB_APP_LIMIT m (snd (elf_place NB_STAGING_BASE 122 m))"
proof -
  let ?m = "staged_image (sample_image 0x79 2 0)"
  have *: "elf_place NB_STAGING_BASE 122 ?m = (Inr 0x1000, mcopy ?m 0x79000000 (NB_STAGING_BASE + 120) 2)"
    using sample_hollow by (simp add: sample_phdr seg_check_def)
  have "mcopy ?m 0x79000000 (NB_STAGING_BASE + 120) 2 0x79000001 \<noteq> ?m 0x79000001"
    using sample_bytes(8,9) by (simp add: mcopy_def add.assoc)
  moreover have "NB_APP_LIMIT \<le> 0x79000001" by (simp add: NB_APP_LIMIT_def)
  ultimately have "\<not> same_above NB_APP_LIMIT ?m (snd (elf_place NB_STAGING_BASE 122 ?m))"
    unfolding same_above_def * by auto
  with * show ?thesis by (metis fst_conv)
qed

section \<open>The patched exit\<close>

lemma byte_fields:
  fixes v :: u32
  shows "(ucast (ucast v :: u8) :: u64) OR push_bit 8 (ucast (ucast (drop_bit 8 v) :: u8) OR push_bit 8 (ucast (ucast (drop_bit 16 v) :: u8) OR
      push_bit 8 (ucast (ucast (drop_bit 24 v) :: u8)))) = ucast v"
proof (rule bit_eqI)
  fix n :: nat
  have "n < 8 \<or> (8 \<le> n \<and> n < 16) \<or> (16 \<le> n \<and> n < 24) \<or> (24 \<le> n \<and> n < 32) \<or> 32 \<le> n" by linarith
  then show "bit ((ucast (ucast v :: u8) :: u64) OR push_bit 8 (ucast (ucast (drop_bit 8 v) :: u8) OR push_bit 8 (ucast (ucast (drop_bit 16 v) :: u8) OR
      push_bit 8 (ucast (ucast (drop_bit 24 v) :: u8))))) n = bit (ucast v :: u64) n"
    by (elim disjE) (auto simp: bit_or_iff bit_push_bit_iff bit_ucast_iff bit_drop_bit_eq dest: bit_imp_le_length)
qed

lemma put32_other: "\<not> b - a < 4 \<Longrightarrow> put32 a v m b = m b"
  by (auto simp: put32_def)

lemma put32_field: "field (put32 a v m) a 4 = ucast v"
  using byte_fields [of v] by (simp add: put32_def field_numeral)









end
