(* ===== verification/NbSha256.thy ===== *)
theory NbSha256
  imports AiePrelude
begin

text \<open>
  SHA-256 of the netboot supervisor, \<open>src/src/tool/netboot/supervisor/sha256.c\<close>: the block function with its
  message schedule and rounds, and \<open>nb_sha256\<close> with its two-block tail buffer. The table of the 64 round constants is an
  argument \<open>K\<close> of the definitions that use it: its values, which are those printed in the standard, play no part in the
  property, which relates \<open>nb_sha256\<close> to the padded-message definition for every table.
\<close>

definition ROR :: "u32 \<Rightarrow> nat \<Rightarrow> u32" where
  "ROR x n = drop_bit n x OR push_bit (32 - n) x"

definition sha_load :: "u8 list \<Rightarrow> nat \<Rightarrow> u32" where
  "sha_load p i = push_bit 24 (ucast (p ! (4 * i))) OR push_bit 16 (ucast (p ! (4 * i + 1))) OR
     push_bit 8 (ucast (p ! (4 * i + 2))) OR ucast (p ! (4 * i + 3))"

text \<open>The array \<open>w\<close> up to the index the loop has reached.\<close>

definition sha_w_next :: "u32 list \<Rightarrow> u32" where
  "sha_w_next w =
     (let i = length w;
          s0 = ROR (w ! (i - 15)) 7 XOR ROR (w ! (i - 15)) 18 XOR drop_bit 3 (w ! (i - 15));
          s1 = ROR (w ! (i - 2)) 17 XOR ROR (w ! (i - 2)) 19 XOR drop_bit 10 (w ! (i - 2))
      in w ! (i - 16) + s0 + w ! (i - 7) + s1)"

primrec sha_extend :: "nat \<Rightarrow> u32 list \<Rightarrow> u32 list" where
  "sha_extend 0 w = w"
| "sha_extend (Suc n) w = sha_extend n (w @ [sha_w_next w])"

definition sha_schedule :: "u8 list \<Rightarrow> u32 list" where
  "sha_schedule p = sha_extend 48 (map (sha_load p) [0..<16])"

type_synonym sha_state = "u32 \<times> u32 \<times> u32 \<times> u32 \<times> u32 \<times> u32 \<times> u32 \<times> u32"

fun sha_round :: "u32 \<times> u32 \<Rightarrow> sha_state \<Rightarrow> sha_state" where
  "sha_round (k, w) (a, b, c, d, e, f, g, hh) =
     (let t1 = hh + (ROR e 6 XOR ROR e 11 XOR ROR e 25) + ((e AND f) XOR (NOT e AND g)) + k + w;
          t2 = (ROR a 2 XOR ROR a 13 XOR ROR a 22) + ((a AND b) XOR (a AND c) XOR (b AND c))
      in (t1 + t2, a, b, c, d + t1, e, f, g))"

fun sha_add :: "sha_state \<Rightarrow> sha_state \<Rightarrow> sha_state" where
  "sha_add (a, b, c, d, e, f, g, h) (a', b', c', d', e', f', g', h') =
     (a + a', b + b', c + c', d + d', e + e', f + f', g + g', h + h')"

definition sha_block :: "u32 list \<Rightarrow> sha_state \<Rightarrow> u8 list \<Rightarrow> sha_state" where
  "sha_block K h p = sha_add h (fold sha_round (zip K (sha_schedule p)) h)"

definition sha_H :: sha_state where
  "sha_H = (0x6a09e667, 0xbb67ae85, 0x3c6ef372, 0xa54ff53a, 0x510e527f, 0x9b05688c, 0x1f83d9ab, 0x5be0cd19)"

text \<open>The loop over full blocks: what is hashed and what is left of the data.\<close>

function sha_blocks :: "u32 list \<Rightarrow> sha_state \<Rightarrow> u8 list \<Rightarrow> sha_state \<times> u8 list" where
  "sha_blocks K h data = (if 64 \<le> length data then sha_blocks K (sha_block K h (take 64 data)) (drop 64 data) else (h, data))"
  by pat_completeness auto

termination by (relation "measure (\<lambda>(K, h, data). length data)") auto

definition sha_len_bytes :: "u64 \<Rightarrow> u8 list" where
  "sha_len_bytes bits = map (\<lambda>k. ucast (drop_bit (8 * (7 - k)) bits)) [0..<8]"

definition sha_tail :: "u8 list \<Rightarrow> u64 \<Rightarrow> u8 list" where
  "sha_tail rest len =
     (let tl = (if length rest < 56 then 64 else 128);
          t = rest @ [0x80] @ replicate (128 - length rest - 1) 0
      in fold (\<lambda>k t. t[tl - 1 - k := ucast (drop_bit (8 * k) (len * 8))]) [0..<8] t)"

fun sha_out :: "sha_state \<Rightarrow> u8 list" where
  "sha_out (a, b, c, d, e, f, g, h) =
     concat (map (\<lambda>x. [ucast (drop_bit 24 x), ucast (drop_bit 16 x), ucast (drop_bit 8 x), ucast x]) [a, b, c, d, e, f, g, h])"

definition nb_sha256 :: "u32 list \<Rightarrow> u8 list \<Rightarrow> u8 list" where
  "nb_sha256 K data =
     (case sha_blocks K sha_H data of
        (h, rest) \<Rightarrow>
          let tail = sha_tail rest (of_nat (length data)); h1 = sha_block K h (take 64 tail)
          in sha_out (if length rest < 56 then h1 else sha_block K h1 (drop 64 tail)))"

text \<open>The padded message: a one bit, zeros up to 56 modulo 64, and the length in bits as a big-endian 64-bit number.\<close>

definition sha_pad :: "u8 list \<Rightarrow> u8 list" where
  "sha_pad data = data @ [0x80] @ replicate ((119 - length data mod 64) mod 64) 0 @ sha_len_bytes (of_nat (length data) * 8)"

fun sha_chunks :: "u8 list \<Rightarrow> u8 list list" where
  "sha_chunks xs = (if xs = [] then [] else take 64 xs # sha_chunks (drop 64 xs))"

definition sha256 :: "u32 list \<Rightarrow> u8 list \<Rightarrow> u8 list" where
  "sha256 K data = sha_out (fold (\<lambda>p h. sha_block K h p) (sha_chunks (sha_pad data)) sha_H)"

section \<open>The standard\<close>

declare sha_blocks.simps [simp del] sha_chunks.simps [simp del]

text \<open>The tail buffer is the padding of the bytes the block loop left.\<close>

lemma sha_len_bytes_eq:
  "sha_len_bytes bits = [ucast (drop_bit 56 bits), ucast (drop_bit 48 bits), ucast (drop_bit 40 bits), ucast (drop_bit 32 bits),
     ucast (drop_bit 24 bits), ucast (drop_bit 16 bits), ucast (drop_bit 8 bits), ucast (drop_bit 0 bits)]"
  by (simp add: sha_len_bytes_def upt_rec)

lemma put_len_bytes:
  assumes "length A = n - 8" "8 \<le> n"
  shows "fold (\<lambda>k t. t[n - 1 - k := ucast (drop_bit (8 * k) bits)]) [0..<8] (A @ replicate 8 0 @ C) = A @ sha_len_bytes bits @ C"
proof -
  have upd: "(A @ B @ C)[n - 1 - k := v] = A @ B[7 - k := v] @ C" if "length B = 8" "k < 8" for B k and v :: u8
  proof -
    have e: "n - 1 - k = length A + (7 - k)" "7 - k < 8" using assms that by auto
    then show ?thesis unfolding e(1) by (simp add: list_update_append that(1))
  qed
  have step: "fold (\<lambda>k t. t[n - 1 - k := ucast (drop_bit (8 * k) bits)]) ks (A @ B @ C) =
      A @ fold (\<lambda>k t. t[7 - k := ucast (drop_bit (8 * k) bits)]) ks B @ C" if "length B = 8" "\<forall>k\<in>set ks. k < 8" for ks B
    using that by (induction ks arbitrary: B) (simp_all add: upd [simplified])
  have "fold (\<lambda>k t. t[7 - k := ucast (drop_bit (8 * k) bits)]) [0..<8] (replicate 8 0) = sha_len_bytes bits"
    unfolding sha_len_bytes_eq by (simp add: upt_rec numeral_eq_Suc)
  with step [of "replicate 8 0" "[0..<8]"] show ?thesis by (simp only: length_replicate set_upt atLeastLessThan_iff) simp
qed

lemma sha_tail_short:
  assumes "length rest < 56"
  shows "take 64 (sha_tail rest len) = rest @ [0x80] @ replicate (55 - length rest) 0 @ sha_len_bytes (len * 8)"
proof -
  let ?A = "rest @ [0x80] @ replicate (55 - length rest) (0 :: u8)"
  have "replicate (128 - length rest - 1) (0 :: u8) = replicate ((55 - length rest) + 8 + 64) 0" using assms by simp
  then have t: "rest @ [0x80] @ replicate (128 - length rest - 1) 0 = ?A @ replicate 8 0 @ replicate 64 0"
    by (simp only: replicate_add append_assoc)
  have l: "length ?A = 64 - 8" using assms by simp
  have "sha_tail rest len = (?A @ sha_len_bytes (len * 8)) @ replicate 64 0"
    using assms put_len_bytes [OF l, of "len * 8"] unfolding sha_tail_def t by (simp add: Let_def)
  moreover have "length (?A @ sha_len_bytes (len * 8)) = 64" using assms by (simp add: sha_len_bytes_def)
  ultimately have "take 64 (sha_tail rest len) = ?A @ sha_len_bytes (len * 8)" by (metis append_eq_conv_conj)
  then show ?thesis by simp
qed

lemma sha_tail_long:
  assumes "56 \<le> length rest" "length rest < 64"
  shows "sha_tail rest len = rest @ [0x80] @ replicate (119 - length rest) 0 @ sha_len_bytes (len * 8)"
proof -
  let ?A = "rest @ [0x80] @ replicate (119 - length rest) (0 :: u8)"
  have "replicate (128 - length rest - 1) (0 :: u8) = replicate ((119 - length rest) + 8) 0" using assms by simp
  then have t: "rest @ [0x80] @ replicate (128 - length rest - 1) 0 = ?A @ replicate 8 0 @ []"
    by (simp only: replicate_add append_assoc append_Nil2)
  have l: "length ?A = 128 - 8" using assms by simp
  show ?thesis
    using assms put_len_bytes [OF l, of "len * 8" "[]"] unfolding sha_tail_def t by (simp add: Let_def)
qed

lemma sha_chunks_block: "length p = 64 \<Longrightarrow> sha_chunks (p @ xs) = p # sha_chunks xs"
  by (subst sha_chunks.simps) auto

lemma sha_chunks_Nil [simp]: "sha_chunks [] = []"
  by (subst sha_chunks.simps) simp

lemma sha_blocks_fold:
  assumes "length L = 8"
  shows "fold (\<lambda>p h. sha_block K h p) (sha_chunks (data @ [0x80] @ replicate ((119 - length data mod 64) mod 64) 0 @ L)) h =
     (case sha_blocks K h data of (h', rest) \<Rightarrow>
        fold (\<lambda>p h. sha_block K h p) (sha_chunks (rest @ [0x80] @ replicate ((119 - length rest mod 64) mod 64) 0 @ L)) h')"
proof (induction K h data rule: sha_blocks.induct)
  case (1 K h data)
  show ?case
  proof (cases "64 \<le> length data")
    case True
    let ?suf = "[0x80] @ replicate ((119 - length data mod 64) mod 64) 0 @ L"
    have "data @ ?suf = take 64 data @ (drop 64 data @ ?suf)" by (metis append_assoc append_take_drop_id)
    then have "sha_chunks (data @ ?suf) = sha_chunks (take 64 data @ (drop 64 data @ ?suf))" by (rule arg_cong)
    also have "\<dots> = take 64 data # sha_chunks (drop 64 data @ ?suf)" by (rule sha_chunks_block) (use True in simp)
    finally have "sha_chunks (data @ ?suf) = take 64 data # sha_chunks (drop 64 data @ ?suf)" .
    moreover have "length (drop 64 data) mod 64 = length data mod 64" using True by (simp add: le_mod_geq)
    ultimately show ?thesis using 1 [OF True] True by (simp add: sha_blocks.simps [of K h data])
  qed (simp add: sha_blocks.simps [of K h data])
qed

lemma sha_blocks_rest: "length (snd (sha_blocks K h data)) < 64"
proof (induction K h data rule: sha_blocks.induct)
  case (1 K h data)
  then show ?case by (cases "64 \<le> length data") (simp_all add: sha_blocks.simps [of K h data])
qed

text \<open>
  C23. The digest is the one of the standard: \<open>nb_sha256\<close>, which hashes full blocks from the data and the rest from a
  buffer of one or two blocks, gives for every input the digest of the padded message.
\<close>

theorem nb_sha256_standard: "nb_sha256 K data = sha256 K data"
proof -
  obtain h rest where b: "sha_blocks K sha_H data = (h, rest)" by fastforce
  let ?L = "sha_len_bytes (of_nat (length data) * 8)"
  have L: "length ?L = 8" by (simp add: sha_len_bytes_def)
  have r: "length rest < 64" using sha_blocks_rest [of K sha_H data] by (simp add: b)
  have spec: "sha256 K data = sha_out (fold (\<lambda>p h. sha_block K h p) (sha_chunks (rest @ [0x80] @ replicate ((119 - length rest mod 64) mod 64) 0 @ ?L)) h)"
    unfolding sha256_def sha_pad_def by (subst sha_blocks_fold [OF L]) (simp only: b prod.case)
  let ?t = "sha_tail rest (of_nat (length data))"
  have code: "nb_sha256 K data = sha_out (if length rest < 56 then sha_block K h (take 64 ?t) else sha_block K (sha_block K h (take 64 ?t)) (drop 64 ?t))"
    by (simp add: nb_sha256_def b Let_def)
  show ?thesis
  proof (cases "length rest < 56")
    case True
    have n: "(119 - length rest mod 64) mod 64 = 55 - length rest" using True by (simp add: le_mod_geq)
    have "length (take 64 ?t) = 64" unfolding sha_tail_short [OF True] using True by (simp add: sha_len_bytes_def)
    from sha_chunks_block [OF this, of "[]"] have "sha_chunks (take 64 ?t) = [take 64 ?t]" by (simp only: append_Nil2 sha_chunks_Nil)
    then have "sha_chunks (rest @ [0x80] @ replicate (55 - length rest) 0 @ ?L) = [take 64 ?t]" unfolding sha_tail_short [OF True] .
    then show ?thesis unfolding code spec n using True by simp
  next
    case False
    have n: "(119 - length rest mod 64) mod 64 = 119 - length rest" using False r by simp
    have t: "rest @ [0x80] @ replicate (119 - length rest) 0 @ ?L = ?t" using False r by (simp add: sha_tail_long)
    have "length ?t = 128" unfolding t [symmetric] using L False r by simp
    then have "length (take 64 ?t) = 64" "length (drop 64 ?t) = 64" by simp_all
    from sha_chunks_block [OF this(1), of "drop 64 ?t"] sha_chunks_block [OF this(2), of "[]"]
    have "sha_chunks ?t = [take 64 ?t, drop 64 ?t]" by (simp only: append_Nil2 sha_chunks_Nil append_take_drop_id)
    then show ?thesis unfolding code spec n t using False by simp
  qed
qed

end
