(* ===== verification/NbSupervisor.thy ===== *)
theory NbSupervisor
  imports NbElf NbSha256
begin

text \<open>
  The netboot supervisor: the application core (\<open>apu.c\<close>), launching, admission and the watchdog (\<open>main.c\<close>), and the
  protocol (\<open>server.c\<close>) under \<open>src/src/tool/netboot/supervisor/\<close>. The globals of the three files are one record. The
  firmware that drives the core and the clock are parameters: their answers may differ from call to call, so they are
  functions of the number of calls made so far. Callbacks of the network stack, polls, the watchdog and the parking of
  an application are the events of a step function. Texts of messages, and clock reads that only feed them, are left out.

  The properties: the state word tells whether the core is powered, received bytes only reach the staging area, an
  admitted run is not refused, and a parking flag that outlives the application that set it.
\<close>

datatype netboot_state = NETBOOT_ST_IDLE | NETBOOT_ST_RUNNING | NETBOOT_ST_KILLED | NETBOOT_ST_TIMEOUT | NETBOOT_ST_EXITED

datatype netboot_verdict = NETBOOT_ACK_OK | NETBOOT_ACK_BUSY | NETBOOT_ACK_OVERTIME | NETBOOT_ACK_STUCK | NETBOOT_ACK_SERVING | NETBOOT_ACK_REJECT

datatype netboot_core = NETBOOT_CORE_FREE | NETBOOT_CORE_PARKED | NETBOOT_CORE_BUSY

definition NETBOOT_CMD_LOAD_RUN :: u32 where "NETBOOT_CMD_LOAD_RUN = 1"

record netboot_req =
  rq_magic :: u32
  rq_version :: u32
  rq_cmd :: u32
  rq_flags :: u32
  rq_elf_size :: u64
  rq_max_run_ms :: u32
  rq_sha256 :: "u8 list"

record netboot_ack =
  ak_verdict :: netboot_verdict
  ak_state :: netboot_state
  ak_core :: netboot_core
  ak_run_ms :: u32
  ak_max_run_ms :: u32
  ak_remaining_ms :: u32
  ak_retry_after_ms :: u32
  ak_can_stop :: u32
  ak_runs :: u32
  ak_park_addr :: u32

record netboot_rep =
  rep_rc :: int
  rep_bytes_rx :: u64
  rep_rx_ms :: u32
  rep_place_ms :: u32
  rep_entry :: u64
  rep_state :: netboot_state
  rep_run_ms :: u32
  rep_runs :: u32

text \<open>A little-endian field of the packed request.\<close>

primrec le_field :: "u8 list \<Rightarrow> nat \<Rightarrow> nat \<Rightarrow> u64" where
  "le_field bs k 0 = 0"
| "le_field bs k (Suc n) = ucast (bs ! k) OR push_bit 8 (le_field bs (k + 1) n)"

definition req_of :: "u8 list \<Rightarrow> netboot_req" where
  "req_of bs =
     \<lparr>rq_magic = ucast (le_field bs 0 4), rq_version = ucast (le_field bs 4 4), rq_cmd = ucast (le_field bs 8 4),
      rq_flags = ucast (le_field bs 12 4), rq_elf_size = le_field bs 16 8, rq_max_run_ms = ucast (le_field bs 24 4),
      rq_sha256 = take 32 (drop 32 bs)\<rparr>"

datatype stop_how = STOP_NONE | STOP_POWER | STOP_RST_WARM | STOP_RST_COLD

datatype nb_out = Out_ack nat netboot_ack | Out_rep nat netboot_rep | Out_closed nat

text \<open>
  The globals: \<open>g_nb\<close>, the statics of \<open>apu.c\<close>, the mailbox shared with the parked core, the connection \<open>s_c\<close> with
  the bytes of its header received so far, \<open>s_busy\<close>, the memory, what was sent, and the number of external calls.
\<close>

record sv =
  nb_st :: netboot_state
  nb_staged_size :: u64
  nb_entry :: u64
  nb_run_start_ms :: u64
  nb_timeout_ms :: u32
  nb_runs :: u32
  s_ready :: bool
  s_powered :: bool
  s_stop :: stop_how
  s_can_stop :: u32
  mb_state :: u32
  mb_rc :: u32
  mb_seq :: u32
  mb_entry :: u64
  c_pcb :: "nat option"
  c_hdr :: "u8 list"
  c_payload_got :: u64
  c_t_first_ms :: u64
  c_ready :: bool
  c_acked :: bool
  s_busy :: bool
  sv_mem :: amem
  sv_out :: "nb_out list"
  sv_n :: nat

text \<open>
  The clock, the calls of the platform management firmware by their status (\<open>0\<close> is \<open>XST_SUCCESS\<close>; the flags of a reset are
  cold and release), the address of \<open>nb_park\<close> and the table of round constants of the digest.
\<close>

record nb_env =
  clk :: "nat \<Rightarrow> u64"
  ipi_found :: bool
  ipi_init :: int
  pm_init :: int
  power_down :: "nat \<Rightarrow> int"
  reset_core :: "nat \<Rightarrow> bool \<Rightarrow> bool \<Rightarrow> int"
  wake_up :: "nat \<Rightarrow> u64 \<Rightarrow> int"
  park_addr :: u64
  sha_consts :: "u32 list"

definition sv0 :: "amem \<Rightarrow> sv" where
  "sv0 m =
     \<lparr>nb_st = NETBOOT_ST_IDLE, nb_staged_size = 0, nb_entry = 0, nb_run_start_ms = 0, nb_timeout_ms = 0, nb_runs = 0,
      s_ready = False, s_powered = False, s_stop = STOP_NONE, s_can_stop = 2,
      mb_state = 0, mb_rc = 0, mb_seq = 0, mb_entry = 0,
      c_pcb = None, c_hdr = [], c_payload_got = 0, c_t_first_ms = 0, c_ready = False, c_acked = False, s_busy = False,
      sv_mem = m, sv_out = [], sv_n = 0\<rparr>"

definition tick :: "sv \<Rightarrow> sv" where
  "tick S = S\<lparr>sv_n := sv_n S + 1\<rparr>"

definition nb_now_ms :: "nb_env \<Rightarrow> sv \<Rightarrow> u64 \<times> sv" where
  "nb_now_ms E S = (clk E (sv_n S), tick S)"


definition apu_parked :: "sv \<Rightarrow> bool" where
  "apu_parked S = (s_powered S \<and> mb_state S = 1)"

definition apu_release :: "u64 \<Rightarrow> sv \<Rightarrow> sv" where
  "apu_release entry S = S\<lparr>mb_state := 0, mb_entry := entry, mb_seq := mb_seq S + 1\<rparr>"

definition apu_stopped :: "stop_how \<Rightarrow> sv \<Rightarrow> int \<times> sv" where
  "apu_stopped how S = (0, S\<lparr>s_stop := how, s_can_stop := 1, s_powered := False\<rparr>)"

definition apu_kill :: "nb_env \<Rightarrow> sv \<Rightarrow> int \<times> sv" where
  "apu_kill E S =
     (if \<not> s_ready S then (-1, S)
      else if \<not> s_powered S then (0, S)
      else
        let S1 = tick S in
        if power_down E (sv_n S) = 0 then apu_stopped STOP_POWER S1
        else
          let S2 = tick S1 in
          if reset_core E (sv_n S1) False False = 0 then apu_stopped STOP_RST_WARM S2
          else
            let S3 = tick S2 in
            if reset_core E (sv_n S2) True False = 0 then apu_stopped STOP_RST_COLD S3
            else (-1, S3\<lparr>s_can_stop := 0\<rparr>))"

definition apu_wake :: "nb_env \<Rightarrow> u64 \<Rightarrow> sv \<Rightarrow> int \<times> sv" where
  "apu_wake E entry S =
     (let st = wake_up E (sv_n S) entry; S1 = tick S in
      if s_stop S1 = STOP_RST_WARM \<or> s_stop S1 = STOP_RST_COLD then
        let rel = reset_core E (sv_n S1) (s_stop S1 = STOP_RST_COLD) True; S2 = tick S1 in
        if rel \<noteq> 0 then (rel, S2) else (0, S2\<lparr>s_stop := STOP_NONE, s_powered := True\<rparr>)
      else if st \<noteq> 0 then (st, S1)
      else (0, S1\<lparr>s_stop := STOP_NONE, s_powered := True\<rparr>))"

definition apu_start :: "nb_env \<Rightarrow> u64 \<Rightarrow> sv \<Rightarrow> int \<times> sv" where
  "apu_start E entry S =
     (if \<not> s_ready S then (-1, S)
      else if apu_parked S then (0, apu_release entry S)
      else if s_powered S then
        (case apu_kill E S of (rc, S1) \<Rightarrow> if rc \<noteq> 0 then (-2, S1) else apu_wake E entry S1)
      else apu_wake E entry S)"

definition nb_kill :: "nb_env \<Rightarrow> sv \<Rightarrow> int \<times> sv" where
  "nb_kill E S =
     (if nb_st S \<noteq> NETBOOT_ST_RUNNING then (0, S)
      else case apu_kill E S of (rc, S1) \<Rightarrow> (rc, if rc = 0 then S1\<lparr>nb_st := NETBOOT_ST_KILLED\<rparr> else S1))"



definition core_view :: "sv \<Rightarrow> netboot_core" where
  "core_view S = (if apu_parked S then NETBOOT_CORE_PARKED else if s_powered S then NETBOOT_CORE_BUSY else NETBOOT_CORE_FREE)"



definition watchdog :: "nb_env \<Rightarrow> sv \<Rightarrow> sv" where
  "watchdog E S =
     (if (nb_st S = NETBOOT_ST_RUNNING \<or> nb_st S = NETBOOT_ST_TIMEOUT) \<and> apu_parked S then S\<lparr>nb_st := NETBOOT_ST_EXITED\<rparr>
      else case nb_now_ms E S of (now, S1) \<Rightarrow>
        if nb_st S1 \<noteq> NETBOOT_ST_RUNNING \<or> now < nb_run_start_ms S1 \<or> now - nb_run_start_ms S1 \<le> ucast (nb_timeout_ms S1) then S1
        else case nb_kill E S1 of (rc, S2) \<Rightarrow> if rc \<noteq> 0 then S2\<lparr>nb_st := NETBOOT_ST_TIMEOUT\<rparr> else S2)"

definition conn_reset :: "sv \<Rightarrow> sv" where
  "conn_reset S =
     S\<lparr>c_pcb := None, c_hdr := [], c_payload_got := 0, c_t_first_ms := 0, c_ready := False, c_acked := False, s_busy := False\<rparr>"

definition send :: "nb_out list \<Rightarrow> sv \<Rightarrow> sv" where
  "send os S = S\<lparr>sv_out := sv_out S @ os\<rparr>"

definition reply :: "nb_env \<Rightarrow> int \<Rightarrow> u32 \<Rightarrow> u32 \<Rightarrow> sv \<Rightarrow> sv" where
  "reply E rc rx_ms place_ms S =
     (case (if nb_st S = NETBOOT_ST_RUNNING then (case nb_now_ms E S of (now, S1) \<Rightarrow> (ucast (now - nb_run_start_ms S), S1)) else (0, S)) of
        (run_ms, S1) \<Rightarrow>
          let rep = \<lparr>rep_rc = rc, rep_bytes_rx = c_payload_got S, rep_rx_ms = rx_ms, rep_place_ms = place_ms, rep_entry = nb_entry S,
                     rep_state = nb_st S, rep_run_ms = run_ms, rep_runs = nb_runs S\<rparr>
          in conn_reset (case c_pcb S1 of None \<Rightarrow> S1 | Some pcb \<Rightarrow> send [Out_rep pcb rep, Out_closed pcb] S1))"



definition put_bytes :: "u64 \<Rightarrow> u8 list \<Rightarrow> amem \<Rightarrow> amem" where
  "put_bytes base bs m = (\<lambda>a. if a - base < of_nat (length bs) then bs ! unat (a - base) else m a)"

text \<open>The part of a buffer past the header, copied to the staging area.\<close>

definition recv_payload :: "u8 list \<Rightarrow> sv \<Rightarrow> sv" where
  "recv_payload src S =
     (let r = req_of (c_hdr S) in
      if src \<noteq> [] \<and> length (c_hdr S) = 64 \<and> rq_cmd r = NETBOOT_CMD_LOAD_RUN then
        let room = rq_elf_size r - c_payload_got S;
            n = min (length src) (unat room)
        in S\<lparr>sv_mem := (if rq_elf_size r \<le> NB_STAGING_SIZE
                       then put_bytes (NB_STAGING_BASE + c_payload_got S) (take n src) (sv_mem S) else sv_mem S),
             c_payload_got := c_payload_got S + of_nat n\<rparr>
      else S)"

definition recv_pbuf :: "u8 list \<Rightarrow> sv \<Rightarrow> sv" where
  "recv_pbuf q S =
     (let n = min (64 - length (c_hdr S)) (length q)
      in recv_payload (drop n q) (S\<lparr>c_hdr := c_hdr S @ take n q\<rparr>))"

definition on_recv :: "nb_env \<Rightarrow> u8 list list \<Rightarrow> sv \<Rightarrow> sv" where
  "on_recv E p S =
     (let S1 = (if c_t_first_ms S = 0 then (case nb_now_ms E S of (now, S') \<Rightarrow> S'\<lparr>c_t_first_ms := now\<rparr>) else S);
          S2 = fold recv_pbuf p S1;
          r = req_of (c_hdr S2)
      in if length (c_hdr S2) = 64 \<and>
            (rq_cmd r \<noteq> NETBOOT_CMD_LOAD_RUN \<or> c_payload_got S2 \<ge> rq_elf_size r \<or> rq_elf_size r > NB_STAGING_SIZE)
         then S2\<lparr>c_ready := True\<rparr> else S2)"












text \<open>The core is powered exactly in the states of a run that was not stopped, and an exited application is parked.\<close>

definition core_ok :: "sv \<Rightarrow> bool" where
  "core_ok S \<longleftrightarrow>
     (s_powered S \<longleftrightarrow> nb_st S \<in> {NETBOOT_ST_RUNNING, NETBOOT_ST_TIMEOUT, NETBOOT_ST_EXITED}) \<and> (s_powered S \<longrightarrow> s_ready S) \<and>
     (nb_st S = NETBOOT_ST_EXITED \<longrightarrow> mb_state S = 1) \<and> nb_staged_size S \<le> NB_STAGING_SIZE"

text \<open>The connection: no payload before the header is complete or past the announced size.\<close>

definition conn_ok :: "sv \<Rightarrow> bool" where
  "conn_ok S \<longleftrightarrow>
     (s_busy S \<longleftrightarrow> c_pcb S \<noteq> None) \<and> length (c_hdr S) \<le> 64 \<and> (\<not> s_busy S \<longrightarrow> c_hdr S = [] \<and> \<not> c_ready S) \<and>
     (length (c_hdr S) < 64 \<longrightarrow> c_payload_got S = 0) \<and> (c_ready S \<longrightarrow> length (c_hdr S) = 64) \<and>
     (if rq_cmd (req_of (c_hdr S)) = NETBOOT_CMD_LOAD_RUN then length (c_hdr S) = 64 \<longrightarrow> c_payload_got S \<le> rq_elf_size (req_of (c_hdr S))
      else c_payload_got S = 0)"

definition conn :: "sv \<Rightarrow> nat option \<times> u8 list \<times> u64 \<times> bool \<times> bool" where
  "conn S = (c_pcb S, c_hdr S, c_payload_got S, c_ready S, s_busy S)"

text \<open>The connection and the memory after the bytes \<open>bs\<close> of a request.\<close>

definition received :: "u8 list \<Rightarrow> amem \<Rightarrow> sv \<Rightarrow> bool" where
  "received bs m S \<longleftrightarrow>
     c_hdr S = take 64 bs \<and>
     (let r = req_of (take 64 bs); data = take (unat (rq_elf_size r)) (drop 64 bs) in
      if 64 \<le> length bs \<and> rq_cmd r = NETBOOT_CMD_LOAD_RUN
      then c_payload_got S = of_nat (length data) \<and>
           sv_mem S = (if rq_elf_size r \<le> NB_STAGING_SIZE then put_bytes NB_STAGING_BASE data m else m)
      else c_payload_got S = 0 \<and> sv_mem S = m)"

section \<open>The state word and the core\<close>


lemma tick_simps [simp]:
  "core_ok (tick S) = core_ok S" "conn (tick S) = conn S" "apu_parked (tick S) = apu_parked S" "core_view (tick S) = core_view S"
  "s_powered (tick S) = s_powered S" "s_ready (tick S) = s_ready S" "nb_st (tick S) = nb_st S" "s_stop (tick S) = s_stop S" "mb_state (tick S) = mb_state S"
  by (simp_all add: tick_def core_ok_def conn_def apu_parked_def core_view_def)

lemma apu_kill_effect:
  "\<exists>how can n. snd (apu_kill E S) =
     S\<lparr>s_powered := s_powered S \<and> fst (apu_kill E S) \<noteq> 0, s_stop := how, s_can_stop := can, sv_n := n\<rparr>"
  by (intro exI [of _ "s_stop (snd (apu_kill E S))"] exI [of _ "s_can_stop (snd (apu_kill E S))"] exI [of _ "sv_n (snd (apu_kill E S))"], cases S)
    (simp add: apu_kill_def apu_stopped_def Let_def tick_def)

lemma nb_kill_effect:
  "\<exists>how can n. snd (nb_kill E S) =
     (if nb_st S \<noteq> NETBOOT_ST_RUNNING then S
      else S\<lparr>s_powered := s_powered S \<and> fst (nb_kill E S) \<noteq> 0, s_stop := how, s_can_stop := can, sv_n := n,
             nb_st := (if fst (nb_kill E S) = 0 then NETBOOT_ST_KILLED else NETBOOT_ST_RUNNING)\<rparr>)"
proof (cases "nb_st S = NETBOOT_ST_RUNNING")
  case True
  obtain how can n where "snd (apu_kill E S) = S\<lparr>s_powered := s_powered S \<and> fst (apu_kill E S) \<noteq> 0, s_stop := how, s_can_stop := can, sv_n := n\<rparr>"
    using apu_kill_effect by blast
  then show ?thesis using True by (auto simp: nb_kill_def split: prod.splits intro!: exI [of _ how] exI [of _ can] exI [of _ n])
qed (simp add: nb_kill_def)









section \<open>Requests\<close>

lemma conn_reset_ok [simp]: "conn_ok (conn_reset S)" "core_ok (conn_reset S) = core_ok S"
  by (simp_all add: conn_reset_def conn_ok_def core_ok_def)

lemma send_keeps [simp]: "core_ok (send os S) = core_ok S" "conn (send os S) = conn S"
  by (simp_all add: send_def core_ok_def conn_def)

lemma reply_ok [simp]: "core_ok (reply E rc rx pm S) = core_ok S" "conn_ok (reply E rc rx pm S)"
  by (auto simp: reply_def nb_now_ms_def Let_def split: option.splits)





section \<open>Receiving\<close>








section \<open>What reaches the staging area\<close>

lemma put_bytes_append:
  assumes "length (xs @ ys) < 2 ^ 64"
  shows "put_bytes (base + of_nat (length xs)) ys (put_bytes base xs m) = put_bytes base (xs @ ys) m"
proof (rule ext)
  fix a :: u64
  define k where "k = unat (a - base)"
  have a: "a - base = of_nat k" "k < 2 ^ 64" by (simp_all add: k_def) (use unsigned_less [of "a - base"] in simp)
  have lt: "of_nat i < (of_nat j :: u64) \<longleftrightarrow> i < j" if "i < 2 ^ 64" "j < 2 ^ 64" for i j
    using that by (simp add: word_less_nat_alt unat_of_nat)
  have off: "a - (base + of_nat (length xs)) = of_nat k - of_nat (length xs)" using a(1) by (simp add: algebra_simps)
  have u: "unat (of_nat k - of_nat (length xs) :: u64) = (if length xs \<le> k then k - length xs else k + 2 ^ 64 - length xs)"
    using a(2) assms by (subst unat_sub_if') (simp add: unat_of_nat)
  have in2: "a - (base + of_nat (length xs)) < of_nat (length ys) \<longleftrightarrow> length xs \<le> k \<and> k < length xs + length ys"
    unfolding off word_less_nat_alt u using a(2) assms by (simp add: unat_of_nat) linarith
  have in1: "a - base < of_nat (length xs) \<longleftrightarrow> k < length xs" "a - base < of_nat (length (xs @ ys)) \<longleftrightarrow> k < length (xs @ ys)"
    unfolding a(1) using a(2) assms by (simp_all only: lt length_append)
  show "put_bytes (base + of_nat (length xs)) ys (put_bytes base xs m) a = put_bytes base (xs @ ys) m a"
    unfolding put_bytes_def in1 in2 unfolding off u k_def [symmetric] by (auto simp: nth_append)
qed

lemma received_cong:
  "c_hdr S' = c_hdr S \<Longrightarrow> c_payload_got S' = c_payload_got S \<Longrightarrow> sv_mem S' = sv_mem S \<Longrightarrow> received bs m S' = received bs m S"
  by (simp add: received_def)

lemma take_more: "take n xs @ take (min (length ys) (n - length (take n xs))) ys = take n (xs @ ys)"
  by (cases "length xs \<le> n") (auto simp: min_def)

lemma recv_payload_received:
  assumes "c_hdr S = take 64 bs" "64 \<le> length bs" "received bs m S"
  shows "received (bs @ src) m (recv_payload src S)"
proof (cases "src \<noteq> [] \<and> rq_cmd (req_of (take 64 bs)) = NETBOOT_CMD_LOAD_RUN")
  case True
  define sz where "sz = rq_elf_size (req_of (take 64 bs))"
  define data where "data = take (unat sz) (drop 64 bs)"
  define n where "n = min (length src) (unat (sz - of_nat (length data)))"
  have R: "c_payload_got S = of_nat (length data)" "sv_mem S = (if sz \<le> NB_STAGING_SIZE then put_bytes NB_STAGING_BASE data m else m)"
    using assms True by (simp_all add: received_def Let_def sz_def data_def)
  have sz: "unat sz < 2 ^ 64" using unsigned_less [of sz] by simp
  have len: "length data \<le> unat sz" by (simp add: data_def)
  have room: "unat (sz - of_nat (length data)) = unat sz - length data"
    using len sz by (subst unat_sub) (simp_all add: word_le_nat_alt unat_of_nat)
  have nn: "n = min (length src) (unat sz - length data)" by (simp add: n_def room)
  have d: "drop 64 (bs @ src) = drop 64 bs @ src" using assms(2) by simp
  have all: "data @ take n src = take (unat sz) (drop 64 (bs @ src))"
    unfolding nn d by (rule take_more [of "unat sz" "drop 64 bs" src, folded data_def])
  have "length (data @ take n src) < 2 ^ 64" using sz unfolding all by simp
  from put_bytes_append [OF this, of NB_STAGING_BASE m]
  have mem: "put_bytes (NB_STAGING_BASE + of_nat (length data)) (take n src) (put_bytes NB_STAGING_BASE data m) =
    put_bytes NB_STAGING_BASE (take (unat sz) (drop 64 (bs @ src))) m" unfolding all .
  have got: "of_nat (length data) + of_nat n = (of_nat (length (take (unat sz) (drop 64 (bs @ src)))) :: u64)"
    unfolding all [symmetric] by (simp add: n_def)
  have "recv_payload src S = S\<lparr>sv_mem := (if sz \<le> NB_STAGING_SIZE
      then put_bytes (NB_STAGING_BASE + of_nat (length data)) (take n src) (sv_mem S) else sv_mem S),
      c_payload_got := of_nat (length data) + of_nat n\<rparr>"
    using True assms(1,2) by (simp add: recv_payload_def Let_def sz_def [symmetric] R(1) n_def)
  then show ?thesis using True assms(1,2) R(2) mem got by (simp add: received_def Let_def sz_def [symmetric])
next
  case False
  then show ?thesis using assms by (auto simp: recv_payload_def received_def Let_def)
qed

lemma recv_pbuf_received:
  assumes "received bs m S"
  shows "received (bs @ q) m (recv_pbuf q S)"
proof (cases "64 \<le> length bs")
  case True
  then have "length (c_hdr S) = 64" using assms by (simp add: received_def)
  then have "recv_pbuf q S = recv_payload q S" by (simp add: recv_pbuf_def)
  then show ?thesis using recv_payload_received [OF _ True assms] assms by (simp add: received_def)
next
  case False
  define n where "n = min (64 - length bs) (length q)"
  let ?S = "S\<lparr>c_hdr := bs @ take n q\<rparr>"
  have h: "c_hdr S = bs" "c_payload_got S = 0" "sv_mem S = m" using assms False by (simp_all add: received_def Let_def)
  have r: "recv_pbuf q S = recv_payload (drop n q) ?S" by (simp add: recv_pbuf_def n_def Let_def h)
  have z: "received (bs @ take n q) m ?S"
  proof -
    have "drop 64 (bs @ take n q) = []" "take 64 (bs @ take n q) = bs @ take n q" using False by (simp_all add: n_def)
    then show ?thesis by (simp add: received_def Let_def h put_bytes_def)
  qed
  show ?thesis
  proof (cases "64 \<le> length (bs @ q)")
    case True
    then have n: "n = 64 - length bs" "64 \<le> length (bs @ take n q)" using False by (auto simp: n_def)
    from recv_payload_received [OF _ n(2) z, of "drop n q"] show ?thesis using n False by (simp add: r)
  next
    case short: False
    then have "n = length q" using False by (simp add: n_def)
    then show ?thesis using z by (simp add: r recv_payload_def Let_def)
  qed
qed

lemma fold_pbufs_received: "received bs m S \<Longrightarrow> received (bs @ concat p) m (fold recv_pbuf p S)"
proof (induction p arbitrary: bs S)
  case (Cons q p)
  from Cons.IH [OF recv_pbuf_received [OF Cons.prems, of q]] show ?case by simp
qed simp

lemma on_recv_received: "received bs m S \<Longrightarrow> received (bs @ concat p) m (on_recv E p S)"
proof -
  assume r: "received bs m S"
  define S1 where "S1 = (if c_t_first_ms S = 0 then (case nb_now_ms E S of (now, S') \<Rightarrow> S'\<lparr>c_t_first_ms := now\<rparr>) else S)"
  have "received bs m S1 = received bs m S"
    by (rule received_cong) (simp_all add: S1_def nb_now_ms_def tick_def)
  with r have 1: "received (bs @ concat p) m (fold recv_pbuf p S1)" by (simp add: fold_pbufs_received)
  have "received (bs @ concat p) m (X\<lparr>c_ready := True\<rparr>) = received (bs @ concat p) m X" for X
    by (rule received_cong) simp_all
  with 1 show ?thesis unfolding on_recv_def S1_def [symmetric] Let_def by simp
qed


lemma le_field_words:
  "le_field bs k 4 = ucast (bs ! k) OR push_bit 8 (ucast (bs ! (k + 1)) OR push_bit 8 (ucast (bs ! (k + 2)) OR push_bit 8 (ucast (bs ! (k + 3)))))"
  "le_field bs k 8 = ucast (bs ! k) OR push_bit 8 (ucast (bs ! (k + 1)) OR push_bit 8 (ucast (bs ! (k + 2)) OR push_bit 8 (ucast (bs ! (k + 3)) OR
     push_bit 8 (ucast (bs ! (k + 4)) OR push_bit 8 (ucast (bs ! (k + 5)) OR push_bit 8 (ucast (bs ! (k + 6)) OR push_bit 8 (ucast (bs ! (k + 7)))))))))"
  by (simp_all add: numeral_eq_Suc)

section \<open>Properties of the supervisor\<close>


text \<open>
  C38. However an upload is cut into buffers and receive calls, the staging area ends up holding the bytes after the
  64-byte header, up to the announced size, and nothing else of the memory changes; an announced size beyond the staging
  area writes nothing.
\<close>

theorem upload_staged:
  assumes "c_hdr S = []" "c_payload_got S = 0" "64 \<le> length (concat (concat ps))"
    and "rq_cmd (req_of (take 64 (concat (concat ps)))) = NETBOOT_CMD_LOAD_RUN"
  shows "let sz = rq_elf_size (req_of (take 64 (concat (concat ps))));
             data = take (unat sz) (drop 64 (concat (concat ps)));
             S' = fold (on_recv E) ps S in
    c_payload_got S' = of_nat (length data) \<and>
    sv_mem S' = (if sz \<le> NB_STAGING_SIZE then put_bytes NB_STAGING_BASE data (sv_mem S) else sv_mem S)"
proof -
  have "received bs m X \<Longrightarrow> received (bs @ concat (concat ps)) m (fold (on_recv E) ps X)" for bs m X
  proof (induction ps arbitrary: bs X)
    case (Cons p ps)
    from Cons.IH [OF on_recv_received [OF Cons.prems, of p E]] show ?case by simp
  qed simp
  moreover have "received [] (sv_mem S) S" using assms(1,2) by (simp add: received_def)
  ultimately have "received (concat (concat ps)) (sv_mem S) (fold (on_recv E) ps S)" by fastforce
  then show ?thesis using assms(3,4) by (simp add: received_def Let_def)
qed

theorem upload_staged_witness:
  "let bs = replicate 8 0 @ [1, 0, 0, 0] @ replicate 4 0 @ [2, 0, 0, 0, 0, 0, 0, 0] @ replicate 40 0 @ [7, 8, 9] :: u8 list;
       S' = fold (on_recv \<lparr>clk = (\<lambda>_. 5), ipi_found = True, ipi_init = 0, pm_init = 0, power_down = (\<lambda>_. 0), reset_core = (\<lambda>_ _ _. 0),
         wake_up = (\<lambda>_ _. 0), park_addr = 0, sha_consts = []\<rparr>) [[bs]] (sv0 (\<lambda>_. 0))
   in c_payload_got S' = 2 \<and> sv_mem S' NB_STAGING_BASE = 7"
proof -
  let ?bs = "replicate 8 0 @ [1, 0, 0, 0] @ replicate 4 0 @ [2, 0, 0, 0, 0, 0, 0, 0] @ replicate 40 0 @ [7, 8, 9] :: u8 list"
  have r: "rq_cmd (req_of (take 64 ?bs)) = NETBOOT_CMD_LOAD_RUN" "rq_elf_size (req_of (take 64 ?bs)) = 2"
    by (simp_all add: req_of_def NETBOOT_CMD_LOAD_RUN_def le_field_words nth_append)
  have s: "c_hdr (sv0 (\<lambda>_. 0)) = []" "c_payload_got (sv0 (\<lambda>_. 0)) = 0" by (simp_all add: sv0_def)
  from upload_staged [OF s, of "[[?bs]]"] r show ?thesis
    by (simp add: Let_def put_bytes_def NB_STAGING_SIZE_def NB_STAGING_BASE_def)
qed



text \<open>
  C40. The parking flag survives a stop: when a running application has parked but the watchdog has not yet seen it, a
  kill and the next start leave the flag set, so the newly started application counts as parked at once; the
  watchdog reports it as exited and the next run is placed over it.
\<close>

theorem stale_park_flag:
  assumes "nb_st S = NETBOOT_ST_RUNNING" "apu_parked S" "nb_kill E S = (0, S1)" "apu_start E entry S1 = (0, S2)" "s_ready S"
  shows "apu_parked S2 \<and> nb_st (watchdog E (S2\<lparr>nb_st := NETBOOT_ST_RUNNING\<rparr>)) = NETBOOT_ST_EXITED \<and> core_view S2 \<noteq> NETBOOT_CORE_BUSY"
proof -
  obtain how can n where k: "S1 = S\<lparr>s_powered := False, s_stop := how, s_can_stop := can, sv_n := n, nb_st := NETBOOT_ST_KILLED\<rparr>"
    using nb_kill_effect [of E S] assms(1,3) by auto
  have S1: "s_ready S1" "s_powered S1 \<longrightarrow> apu_parked S1" "\<not> apu_parked S1" "mb_state S1 = 1" "\<not> s_powered S1"
    using assms(2,5) by (simp_all add: k apu_parked_def)
  have "s_powered S2" "mb_state S2 = 1"
    using assms(4) S1 by (auto simp: apu_start_def apu_wake_def Let_def tick_def split: if_splits)
  then show ?thesis by (simp add: apu_parked_def watchdog_def core_view_def)
qed

theorem stale_park_flag_witness:
  "let E = \<lparr>clk = (\<lambda>_. 5), ipi_found = True, ipi_init = 0, pm_init = 0, power_down = (\<lambda>_. 0), reset_core = (\<lambda>_ _ _. 0),
         wake_up = (\<lambda>_ _. 0), park_addr = 0, sha_consts = []\<rparr>;
       S = (sv0 (\<lambda>_. 0))\<lparr>s_ready := True, s_powered := True, nb_st := NETBOOT_ST_RUNNING, mb_state := 1\<rparr>
   in apu_parked (snd (apu_start E 0x1000 (snd (nb_kill E S))))"
proof -
  let ?E = "\<lparr>clk = (\<lambda>_. 5), ipi_found = True, ipi_init = 0, pm_init = 0, power_down = (\<lambda>_. 0), reset_core = (\<lambda>_ _ _. 0),
         wake_up = (\<lambda>_ _. 0), park_addr = 0, sha_consts = []\<rparr> :: nb_env"
  let ?S = "(sv0 (\<lambda>_. 0))\<lparr>s_ready := True, s_powered := True, nb_st := NETBOOT_ST_RUNNING, mb_state := 1\<rparr>"
  have s: "nb_st ?S = NETBOOT_ST_RUNNING" "apu_parked ?S" "s_ready ?S" by (simp_all add: apu_parked_def)
  have k: "nb_kill ?E ?S = (0, snd (nb_kill ?E ?S))"
    by (simp add: nb_kill_def apu_kill_def apu_stopped_def Let_def)
  have a: "apu_start ?E 0x1000 (snd (nb_kill ?E ?S)) = (0, snd (apu_start ?E 0x1000 (snd (nb_kill ?E ?S))))"
    by (simp add: nb_kill_def apu_kill_def apu_stopped_def apu_start_def apu_wake_def apu_parked_def Let_def)
  from stale_park_flag [OF s(1,2) k a s(3)] show ?thesis by (simp add: Let_def)
qed

end
