(* ===== verification/HwResource.thy ===== *)
theory HwResource
  imports AiePrelude
begin

text \<open>
  The device descriptions of the router, \<open>hw/hwresource.cpp\<close> and \<open>include/hw/hwresource.h\<close> under
  \<open>src/src/mlir/mlirfront/tilinglinalg/pass/routingimplement\<close>: the port templates, DMA limits and device tables of the
  three generations, the queries of a device layout and the factory that finds a device by generation and variant.
  Rows, columns and addresses have the width they have in the code. The properties show that the tiles of a device have
  disjoint address windows wherever the array is placed, that the tile type of a row and the absolute row of a tile are
  inverse, and which generation and variant names the factory accepts.
\<close>

record Point =
  pt_r :: int
  pt_c :: int

abbreviation Pt :: "int \<Rightarrow> int \<Rightarrow> Point" where
  "Pt r c \<equiv> \<lparr>pt_r = r, pt_c = c\<rparr>"

definition point_less :: "Point \<Rightarrow> Point \<Rightarrow> bool" where
  "point_less a b = (if pt_r a \<noteq> pt_r b then pt_r a < pt_r b else pt_c a < pt_c b)"

datatype TileType = Core | Mem | Shim | NocShim | PLShim | PLNocShim | Unknown

datatype PortDirection = North | South | East | West | DMA | Control | NONE

datatype PortRole = Master | Slave

text \<open>A template of ports: direction, role, number of ports and, where not all are wired, the numbers of the wired ones.\<close>

datatype PortTemplate = PortTemplate (pt_dir: PortDirection) (pt_role: PortRole) (pt_ports: nat) (available_ports: "u32 list")

datatype TileDmaLimits = TileDmaLimits (numBds: nat) (numLocks: nat)

definition TileDmaLimits0 :: TileDmaLimits where
  "TileDmaLimits0 = TileDmaLimits 16 16"

datatype TypeBasedTileLoc = TypeBasedTileLoc (ttype: TileType) (tl_loc: Point)

fun PortDirectiontoString :: "PortDirection \<Rightarrow> string" where
  "PortDirectiontoString North = ''NORTH''"
| "PortDirectiontoString South = ''SOUTH''"
| "PortDirectiontoString East = ''EAST''"
| "PortDirectiontoString West = ''WEST''"
| "PortDirectiontoString DMA = ''DMA''"
| "PortDirectiontoString Control = ''CONTROL''"
| "PortDirectiontoString NONE = ''NONE''"

datatype TileSegment = TileSegment (firstRow: u32) (lastRow: u32) (seg_type: TileType)

record AIEDeviceLayout =
  rows :: u32
  columns :: u32
  baseAddr :: u64
  colShift :: nat
  rowShift :: nat
  segments :: "TileSegment list"
  nocShimCols :: "u32 set"
  shimexttoaie_mux :: "u32 set"
  shimaietoext_demux :: "u32 set"
  portTemplates :: "TileType \<rightharpoonup> PortTemplate list"
  dmaLimits :: "TileType \<rightharpoonup> TileDmaLimits"
  tileMemoryBytes :: u32
  stackReserveBytes :: u32
  usableDataBytes :: u32

definition tilePhysAddr :: "AIEDeviceLayout \<Rightarrow> u32 \<Rightarrow> u32 \<Rightarrow> u64" where
  "tilePhysAddr L r c = baseAddr L + push_bit (colShift L) (ucast c) + push_bit (rowShift L) (ucast r)"

primrec seg_of_row :: "u32 \<Rightarrow> TileSegment list \<Rightarrow> TileType" where
  "seg_of_row row [] = Unknown"
| "seg_of_row row (s # ss) = (if row \<ge> firstRow s \<and> row \<le> lastRow s then seg_type s else seg_of_row row ss)"

definition tileType :: "AIEDeviceLayout \<Rightarrow> u32 \<Rightarrow> u32 \<Rightarrow> TileType" where
  "tileType L row col = seg_of_row row (segments L)"

primrec abs_row :: "TileType \<Rightarrow> u32 \<Rightarrow> TileSegment list \<Rightarrow> u32" where
  "abs_row t rel [] = rel"
| "abs_row t rel (s # ss) = (if seg_type s = t then rel + firstRow s else abs_row t rel ss)"

definition absTileRow :: "AIEDeviceLayout \<Rightarrow> TileType \<Rightarrow> u32 \<Rightarrow> u32" where
  "absTileRow L t relativeRow = abs_row t relativeRow (segments L)"

definition getPortsForTileType :: "AIEDeviceLayout \<Rightarrow> TileType \<Rightarrow> PortTemplate list" where
  "getPortsForTileType L t = (case portTemplates L t of Some ps \<Rightarrow> ps | None \<Rightarrow> [])"

definition getDmaLimits :: "AIEDeviceLayout \<Rightarrow> TileType \<Rightarrow> TileDmaLimits" where
  "getDmaLimits L t = (case dmaLimits L t of Some d \<Rightarrow> d | None \<Rightarrow> TileDmaLimits0)"

definition ports1_core :: "PortTemplate list" where
  "ports1_core =
     [PortTemplate North Master 4 [],
      PortTemplate South Master 4 [],
      PortTemplate East Master 4 [],
      PortTemplate West Master 4 [],
      PortTemplate DMA Master 4 [],
      PortTemplate North Slave 4 [],
      PortTemplate South Slave 4 [],
      PortTemplate East Slave 4 [],
      PortTemplate West Slave 4 [],
      PortTemplate DMA Slave 4 []]"

definition ports1_shim :: "PortTemplate list" where
  "ports1_shim =
     [PortTemplate North Master 4 [],
      PortTemplate South Master 2 [2, 3],
      PortTemplate East Master 4 [],
      PortTemplate West Master 4 [],
      PortTemplate DMA Master 4 [],
      PortTemplate North Slave 4 [],
      PortTemplate South Slave 2 [3, 7],
      PortTemplate East Slave 4 [],
      PortTemplate West Slave 4 [],
      PortTemplate DMA Slave 4 []]"

definition ports1_mem :: "PortTemplate list" where
  "ports1_mem =
     [PortTemplate North Master 4 [],
      PortTemplate South Master 4 [],
      PortTemplate East Master 4 [],
      PortTemplate West Master 4 [],
      PortTemplate DMA Master 4 [],
      PortTemplate North Slave 4 [],
      PortTemplate South Slave 4 [],
      PortTemplate East Slave 4 [],
      PortTemplate West Slave 4 [],
      PortTemplate DMA Slave 4 []]"

definition ports1_noc :: "PortTemplate list" where
  "ports1_noc =
     [PortTemplate North Master 4 [],
      PortTemplate South Master 4 [],
      PortTemplate East Master 4 [],
      PortTemplate West Master 4 [],
      PortTemplate DMA Master 4 [],
      PortTemplate North Slave 4 [],
      PortTemplate South Slave 4 [],
      PortTemplate East Slave 4 [],
      PortTemplate West Slave 4 [],
      PortTemplate DMA Slave 4 []]"

definition defaultPortTemplates1 :: "TileType \<rightharpoonup> PortTemplate list" where
  "defaultPortTemplates1 = [Core \<mapsto> ports1_core, Shim \<mapsto> ports1_shim, Mem \<mapsto> ports1_mem, NocShim \<mapsto> ports1_noc]"

definition defaultDmaLimits1 :: "TileType \<rightharpoonup> TileDmaLimits" where
  "defaultDmaLimits1 = [Core \<mapsto> TileDmaLimits 16 16, Shim \<mapsto> TileDmaLimits 16 16, Mem \<mapsto> TileDmaLimits 16 16]"

definition ports2_core :: "PortTemplate list" where
  "ports2_core =
     [PortTemplate North Master 4 [],
      PortTemplate South Master 4 [],
      PortTemplate East Master 4 [],
      PortTemplate West Master 4 [],
      PortTemplate DMA Master 4 [],
      PortTemplate North Slave 4 [],
      PortTemplate South Slave 4 [],
      PortTemplate East Slave 4 [],
      PortTemplate West Slave 4 [],
      PortTemplate DMA Slave 4 []]"

definition ports2_shim :: "PortTemplate list" where
  "ports2_shim =
     [PortTemplate North Master 4 [],
      PortTemplate South Master 2 [3, 7],
      PortTemplate East Master 4 [],
      PortTemplate West Master 4 [],
      PortTemplate DMA Master 4 [],
      PortTemplate North Slave 4 [],
      PortTemplate South Slave 2 [1, 3],
      PortTemplate East Slave 4 [],
      PortTemplate West Slave 4 [],
      PortTemplate DMA Slave 4 []]"

definition ports2_mem :: "PortTemplate list" where
  "ports2_mem =
     [PortTemplate North Master 6 [],
      PortTemplate South Master 4 [],
      PortTemplate East Master 0 [],
      PortTemplate West Master 0 [],
      PortTemplate DMA Master 6 [],
      PortTemplate North Slave 4 [],
      PortTemplate South Slave 6 [],
      PortTemplate East Slave 0 [],
      PortTemplate West Slave 0 [],
      PortTemplate DMA Slave 6 []]"

definition ports2_noc :: "PortTemplate list" where
  "ports2_noc =
     [PortTemplate North Master 4 [],
      PortTemplate South Master 2 [3, 7],
      PortTemplate East Master 4 [],
      PortTemplate West Master 4 [],
      PortTemplate DMA Master 4 [],
      PortTemplate North Slave 4 [],
      PortTemplate South Slave 2 [1, 3],
      PortTemplate East Slave 4 [],
      PortTemplate West Slave 4 [],
      PortTemplate DMA Slave 4 []]"

definition defaultPortTemplates2 :: "TileType \<rightharpoonup> PortTemplate list" where
  "defaultPortTemplates2 = [Core \<mapsto> ports2_core, Shim \<mapsto> ports2_shim, Mem \<mapsto> ports2_mem, NocShim \<mapsto> ports2_noc]"

definition defaultDmaLimits2 :: "TileType \<rightharpoonup> TileDmaLimits" where
  "defaultDmaLimits2 = [Core \<mapsto> TileDmaLimits 16 16, Shim \<mapsto> TileDmaLimits 16 16, Mem \<mapsto> TileDmaLimits 48 64]"

definition ports5_core :: "PortTemplate list" where
  "ports5_core =
     [PortTemplate North Master 4 [],
      PortTemplate South Master 4 [],
      PortTemplate East Master 4 [],
      PortTemplate West Master 4 [],
      PortTemplate DMA Master 4 [],
      PortTemplate North Slave 4 [],
      PortTemplate South Slave 4 [],
      PortTemplate East Slave 4 [],
      PortTemplate West Slave 4 [],
      PortTemplate DMA Slave 4 []]"

definition ports5_shim :: "PortTemplate list" where
  "ports5_shim =
     [PortTemplate North Master 4 [],
      PortTemplate South Master 2 [3, 7],
      PortTemplate East Master 4 [],
      PortTemplate West Master 4 [],
      PortTemplate DMA Master 4 [],
      PortTemplate North Slave 4 [],
      PortTemplate South Slave 2 [1, 3],
      PortTemplate East Slave 4 [],
      PortTemplate West Slave 4 [],
      PortTemplate DMA Slave 4 []]"

definition ports5_mem :: "PortTemplate list" where
  "ports5_mem =
     [PortTemplate North Master 6 [],
      PortTemplate South Master 4 [],
      PortTemplate East Master 0 [],
      PortTemplate West Master 0 [],
      PortTemplate DMA Master 6 [],
      PortTemplate North Slave 4 [],
      PortTemplate South Slave 6 [],
      PortTemplate East Slave 0 [],
      PortTemplate West Slave 0 [],
      PortTemplate DMA Slave 6 []]"

definition ports5_noc :: "PortTemplate list" where
  "ports5_noc =
     [PortTemplate North Master 4 [],
      PortTemplate South Master 2 [3, 7],
      PortTemplate East Master 4 [],
      PortTemplate West Master 4 [],
      PortTemplate DMA Master 4 [],
      PortTemplate North Slave 4 [],
      PortTemplate South Slave 2 [1, 3],
      PortTemplate East Slave 4 [],
      PortTemplate West Slave 4 [],
      PortTemplate DMA Slave 4 []]"

definition defaultPortTemplates5 :: "TileType \<rightharpoonup> PortTemplate list" where
  "defaultPortTemplates5 = [Core \<mapsto> ports5_core, Shim \<mapsto> ports5_shim, Mem \<mapsto> ports5_mem, NocShim \<mapsto> ports5_noc]"

definition defaultDmaLimits5 :: "TileType \<rightharpoonup> TileDmaLimits" where
  "defaultDmaLimits5 = [Core \<mapsto> TileDmaLimits 16 16, Shim \<mapsto> TileDmaLimits 16 16, Mem \<mapsto> TileDmaLimits 48 64]"

definition XCVC190 :: AIEDeviceLayout where
  "XCVC190 =
     \<lparr>rows = 8, columns = 8, baseAddr = 0x20000000000, colShift = 23, rowShift = 18,
      segments = [TileSegment 0 0 Shim, TileSegment 1 2 Mem, TileSegment 3 7 Core],
      nocShimCols = {2, 3, 6, 7, 10, 11, 18, 19, 26, 27, 34, 35, 42, 43, 46, 47}, shimexttoaie_mux = {3, 7}, shimaietoext_demux = {2, 3},
      portTemplates = defaultPortTemplates1, dmaLimits = defaultDmaLimits1,
      tileMemoryBytes = 65536, stackReserveBytes = 10240, usableDataBytes = 49152\<rparr>"

definition XCVE2802 :: AIEDeviceLayout where
  "XCVE2802 =
     \<lparr>rows = 11, columns = 38, baseAddr = 0x20000000000, colShift = 25, rowShift = 20,
      segments = [TileSegment 0 0 Shim, TileSegment 1 2 Mem, TileSegment 3 11 Core],
      nocShimCols = {2, 3, 6, 7, 14, 15, 22, 23, 30, 31, 34, 35}, shimexttoaie_mux = {3, 7}, shimaietoext_demux = {1, 3},
      portTemplates = defaultPortTemplates2, dmaLimits = defaultDmaLimits2,
      tileMemoryBytes = 65536, stackReserveBytes = 10240, usableDataBytes = 49152\<rparr>"

definition allColumnsNoc :: "u32 \<Rightarrow> u32 set" where
  "allColumnsNoc numCols = set (map of_nat [0..<unat numCols])"

definition PALMYRA :: AIEDeviceLayout where
  "PALMYRA =
     \<lparr>rows = 7, columns = 12, baseAddr = 0x20000000000, colShift = 25, rowShift = 20,
      segments = [TileSegment 0 0 Shim, TileSegment 1 2 Mem, TileSegment 3 6 Core],
      nocShimCols = allColumnsNoc 12, shimexttoaie_mux = {3, 7}, shimaietoext_demux = {1, 3},
      portTemplates = defaultPortTemplates5, dmaLimits = defaultDmaLimits5,
      tileMemoryBytes = 65536, stackReserveBytes = 10240, usableDataBytes = 49152\<rparr>"

definition VEK385 :: AIEDeviceLayout where
  "VEK385 =
     \<lparr>rows = 7, columns = 38, baseAddr = 0x20000000000, colShift = 25, rowShift = 20,
      segments = [TileSegment 0 0 Shim, TileSegment 1 2 Mem, TileSegment 3 6 Core],
      nocShimCols = allColumnsNoc 38, shimexttoaie_mux = {3, 7}, shimaietoext_demux = {1, 3},
      portTemplates = defaultPortTemplates5, dmaLimits = defaultDmaLimits5,
      tileMemoryBytes = 65536, stackReserveBytes = 10240, usableDataBytes = 49152\<rparr>"

text \<open>The tables of the three generations, and the variant a generation falls back to.\<close>

datatype gen_no = G1 | G2 | G5

fun gen_table :: "gen_no \<Rightarrow> string \<rightharpoonup> AIEDeviceLayout" where
  "gen_table G1 = [''XCVC190'' \<mapsto> XCVC190]"
| "gen_table G2 = [''XCVE2802'' \<mapsto> XCVE2802]"
| "gen_table G5 = [''PALMYRA'' \<mapsto> PALMYRA, ''VEK385'' \<mapsto> VEK385]"

fun defaultVariant :: "gen_no \<Rightarrow> string" where
  "defaultVariant G1 = ''XCVC190''"
| "defaultVariant G2 = ''XCVE2802''"
| "defaultVariant G5 = ''PALMYRA''"

record GenResource =
  hw_gen :: gen_no
  layout :: AIEDeviceLayout
  variant :: string

datatype hw_error = Unknown_variant string | Unsupported_generation string

definition new_GenResource :: "gen_no \<Rightarrow> string \<Rightarrow> hw_error + GenResource" where
  "new_GenResource g var =
     (case gen_table g var of
        None \<Rightarrow> Inl (Unknown_variant var)
      | Some l \<Rightarrow> Inr \<lparr>hw_gen = g, layout = l, variant = var\<rparr>)"

definition setBaseAddr :: "u64 \<Rightarrow> GenResource \<Rightarrow> GenResource" where
  "setBaseAddr a R = R\<lparr>layout := (layout R)\<lparr>baseAddr := a\<rparr>\<rparr>"

definition tileAddr :: "GenResource \<Rightarrow> u32 \<Rightarrow> u32 \<Rightarrow> u64" where
  "tileAddr R r c = tilePhysAddr (layout R) r c"

definition getDmaWordBytes :: "GenResource \<Rightarrow> u32" where
  "getDmaWordBytes R = 4"

definition hw_name :: "GenResource \<Rightarrow> string" where
  "hw_name R = ''Gen'' @ (case hw_gen R of G1 \<Rightarrow> ''1'' | G2 \<Rightarrow> ''2'' | G5 \<Rightarrow> ''5'') @ '':'' @ variant R"

definition checkDataMemoryFits :: "GenResource \<Rightarrow> u32 \<Rightarrow> bool" where
  "checkDataMemoryFits R totalBufferBytes = (\<not> totalBufferBytes > usableDataBytes (layout R))"

definition makeResource :: "string \<Rightarrow> string \<Rightarrow> hw_error + GenResource" where
  "makeResource g var =
     (if g = ''Gen1'' then new_GenResource G1 (if var = [] then defaultVariant G1 else var)
      else if g = ''Gen2'' then new_GenResource G2 (if var = [] then defaultVariant G2 else var)
      else if g = ''Gen5'' then new_GenResource G5 (if var = [] then defaultVariant G5 else var)
      else Inl (Unsupported_generation g))"

text \<open>The devices the factory can return.\<close>

definition devices :: "AIEDeviceLayout list" where
  "devices = [XCVC190, XCVE2802, PALMYRA, VEK385]"

text \<open>The rows of a type in a device, and the well-formedness of a port template list.\<close>

definition row_count :: "AIEDeviceLayout \<Rightarrow> TileType \<Rightarrow> nat" where
  "row_count L t = length (filter (\<lambda>r. tileType L (of_nat r) 0 = t) [0..<unat (rows L)])"

definition ports_wf :: "PortTemplate list \<Rightarrow> bool" where
  "ports_wf ps =
     (distinct (map (\<lambda>p. (pt_dir p, pt_role p)) ps) \<and>
      list_all (\<lambda>p. distinct (available_ports p) \<and> (available_ports p = [] \<or> length (available_ports p) = pt_ports p)) ps)"

section \<open>What a device of the tables has\<close>

lemmas device_defs = XCVC190_def XCVE2802_def PALMYRA_def VEK385_def

lemma makeResource_device: "makeResource g var = Inr R \<Longrightarrow> layout R \<in> set devices"
  by (auto simp: makeResource_def new_GenResource_def devices_def split: if_splits option.splits)

lemma device_cases:
  assumes "L \<in> set devices"
  shows "(L = XCVC190 \<or> L = XCVE2802) \<or> (L = PALMYRA \<or> L = VEK385)"
  using assms by (auto simp: devices_def)

lemma unat_of_nat_u32: "of_nat (unat (x :: u32)) = x"
  by simp

lemma u32_cases16:
  assumes "unat (x :: u32) < 16"
  shows "x = 0 \<or> x = 1 \<or> x = 2 \<or> x = 3 \<or> x = 4 \<or> x = 5 \<or> x = 6 \<or> x = 7 \<or> x = 8 \<or> x = 9 \<or> x = 10 \<or> x = 11 \<or> x = 12 \<or> x = 13 \<or> x = 14 \<or> x = 15"
proof -
  have "unat x \<in> set [0..<16]" using assms by simp
  then have "x \<in> set (map of_nat [0..<16])" using unat_of_nat_u32 [of x] by (metis image_eqI set_map)
  then show ?thesis by (simp add: upt_rec)
qed

section \<open>Addresses\<close>

lemma device_shifts:
  assumes "L \<in> set devices"
  shows "colShift L = rowShift L + 5" "rowShift L \<le> 20" "unat (rows L) \<le> 32" "unat (columns L) \<le> 64"
  using assms by (auto simp: devices_def device_defs)

lemma tile_offset:
  assumes "unat r < 32" "unat c < 64" "n \<le> 20" "unat d < 2 ^ n"
  shows "unat (push_bit (n + 5) (ucast (c :: u32)) + push_bit n (ucast (r :: u32)) + d :: u64) = (unat c * 32 + unat r) * 2 ^ n + unat d"
proof -
  have "(push_bit (n + 5) (ucast c) + push_bit n (ucast r) + d :: u64) = of_nat ((unat c * 32 + unat r) * 2 ^ n + unat d)"
    by (simp add: push_bit_eq_mult power_add unsigned_ucast_eq algebra_simps)
  moreover have "(unat c * 32 + unat r) * 2 ^ n + unat d < 2 ^ 64"
  proof -
    have "(unat c * 32 + unat r + 1) * 2 ^ n \<le> (63 * 32 + 31 + 1) * 2 ^ 20"
      using assms by (intro mult_le_mono) (auto intro: order_trans [OF power_increasing [of n 20 2]])
    then show ?thesis using assms(4) by (simp add: algebra_simps)
  qed
  ultimately show ?thesis by (simp only: unsigned_of_nat) (simp add: take_bit_nat_eq_self)
qed

lemma device_window:
  assumes "L \<in> set devices" "r < rows L" "c < columns L" "x - tilePhysAddr L r c < push_bit (rowShift L) 1"
  shows "unat (x - baseAddr L) div 2 ^ rowShift L = unat c * 32 + unat r" "unat r < 32"
proof -
  note d = device_shifts [OF assms(1)]
  let ?d = "x - tilePhysAddr L r c"
  show r: "unat r < 32" using assms(2) d(3) by (simp add: word_less_nat_alt)
  have c: "unat c < 64" using assms(3) d(4) by (simp add: word_less_nat_alt)
  have "unat (push_bit (rowShift L) 1 :: u64) = 2 ^ rowShift L"
    using tile_offset [of 1 0 "rowShift L" 0] d(2) by simp
  then have b: "unat ?d < 2 ^ rowShift L" using assms(4) by (simp add: word_less_nat_alt)
  have "x - baseAddr L = push_bit (rowShift L + 5) (ucast c) + push_bit (rowShift L) (ucast r) + ?d"
    using d(1) by (simp add: tilePhysAddr_def)
  from arg_cong [OF this, of unat] have "unat (x - baseAddr L) = (unat c * 32 + unat r) * 2 ^ rowShift L + unat ?d"
    unfolding tile_offset [OF r c d(2) b] .
  then show "unat (x - baseAddr L) div 2 ^ rowShift L = unat c * 32 + unat r" using b by simp
qed

text \<open>
  C24. Address windows: in every device, wherever the array is placed in the address space, an address belongs to the
  window of at most one tile.
\<close>

theorem tile_windows_disjoint:
  assumes "makeResource g var = Inr R" "R' = setBaseAddr a R"
    and "r < rows (layout R)" "c < columns (layout R)" "r' < rows (layout R)" "c' < columns (layout R)"
    and "x - tileAddr R' r c < push_bit (rowShift (layout R)) 1" "x - tileAddr R' r' c' < push_bit (rowShift (layout R)) 1"
  shows "r = r' \<and> c = c'"
proof -
  let ?L = "layout R"
  have addr: "x - tilePhysAddr ?L r c + (baseAddr ?L - a) = x - tileAddr R' r c" for r c
    by (simp add: assms(2) tileAddr_def setBaseAddr_def tilePhysAddr_def)
  let ?y = "x + (baseAddr ?L - a)"
  have y: "?y - tilePhysAddr ?L r c = x - tileAddr R' r c" for r c using addr [of r c] by (simp add: algebra_simps)
  note dev = makeResource_device [OF assms(1)]
  note 1 = device_window [OF dev assms(3,4), of ?y, unfolded y, OF assms(7)]
  note 2 = device_window [OF dev assms(5,6), of ?y, unfolded y, OF assms(8)]
  from 1(1) 2(1) have "unat c * 32 + unat r = unat c' * 32 + unat r'" by (rule trans [OF sym])
  from arg_cong [OF this, of "\<lambda>n. n div 32"] arg_cong [OF this, of "\<lambda>n. n mod 32"] have "unat c = unat c'" "unat r = unat r'"
    using 1(2) 2(2) by simp_all
  then show ?thesis by (simp add: word_unat_eq_iff)
qed

theorem tile_windows_disjoint_witness:
  "let R = \<lparr>hw_gen = G5, layout = VEK385, variant = ''VEK385''\<rparr>; R' = setBaseAddr 0x40000000 R in
   makeResource ''Gen5'' ''VEK385'' = Inr R \<and> 0x44300010 - tileAddr R' 3 2 < push_bit 20 1 \<and>
   (\<not> 0x44300010 - tileAddr R' 4 2 < push_bit 20 1)"
proof -
  let ?R = "\<lparr>hw_gen = G5, layout = VEK385, variant = ''VEK385''\<rparr>"
  have m: "makeResource ''Gen5'' ''VEK385'' = Inr ?R" by (simp add: makeResource_def new_GenResource_def)
  have b: "3 < rows VEK385" "4 < rows VEK385" "2 < columns VEK385" "rowShift VEK385 = 20" by (simp_all add: VEK385_def)
  have w: "0x44300010 - tileAddr (setBaseAddr 0x40000000 ?R) 3 2 < push_bit 20 1"
    by (simp add: setBaseAddr_def tileAddr_def tilePhysAddr_def VEK385_def push_bit_eq_mult)
  show ?thesis
    using tile_windows_disjoint [OF m refl, of 3 2 4 2 "0x44300010" "0x40000000"] w m b by (auto simp: Let_def simp del: push_bit_of_1)
qed

section \<open>Rows and types\<close>

lemma device_rows:
  "rows XCVC190 = 8" "segments XCVC190 = [TileSegment 0 0 Shim, TileSegment 1 2 Mem, TileSegment 3 7 Core]"
  "rows XCVE2802 = 11" "segments XCVE2802 = [TileSegment 0 0 Shim, TileSegment 1 2 Mem, TileSegment 3 11 Core]"
  "rows PALMYRA = 7" "segments PALMYRA = [TileSegment 0 0 Shim, TileSegment 1 2 Mem, TileSegment 3 6 Core]"
  "rows VEK385 = 7" "segments VEK385 = [TileSegment 0 0 Shim, TileSegment 1 2 Mem, TileSegment 3 6 Core]"
  by (simp_all add: device_defs)

lemma row_counts:
  "row_count XCVC190 Shim = 1" "row_count XCVC190 Mem = 2" "row_count XCVC190 Core = 5"
  "row_count XCVE2802 Shim = 1" "row_count XCVE2802 Mem = 2" "row_count XCVE2802 Core = 8"
  "row_count PALMYRA Shim = 1" "row_count PALMYRA Mem = 2" "row_count PALMYRA Core = 4"
  "row_count VEK385 Shim = 1" "row_count VEK385 Mem = 2" "row_count VEK385 Core = 4"
  by (simp_all add: row_count_def tileType_def device_rows upt_rec)

lemma device_row_type:
  assumes "L \<in> set devices" "row < rows L"
  shows "tileType L row c \<in> {Shim, Mem, Core}"
proof -
  have "unat (rows L) \<le> 16" using assms(1) by (auto simp: devices_def device_defs)
  then have "unat row < 16" using assms(2) by (simp add: word_less_nat_alt)
  from u32_cases16 [OF this] assms show ?thesis
    by (elim disjE) (auto simp: devices_def device_rows tileType_def)
qed

lemma device_abs_row:
  assumes "L \<in> set devices" "t \<in> {Shim, Mem, Core}" "unat rel < row_count L t"
  shows "absTileRow L t rel < rows L \<and> tileType L (absTileRow L t rel) c = t"
proof -
  have t: "t = Shim \<or> t = Mem \<or> t = Core" and L: "L = XCVC190 \<or> L = XCVE2802 \<or> L = PALMYRA \<or> L = VEK385"
    using assms by (auto simp: devices_def)
  then have "unat rel < 16" using assms(3) row_counts by auto
  from u32_cases16 [OF this] L t assms(3) show ?thesis
    by (elim disjE) (simp_all add: row_counts device_rows tileType_def absTileRow_def)
qed

text \<open>
  C25. Rows and types: in every device each row of the array has one of the types shim, memory and core, and the absolute
  row of the \<open>rel\<close>-th tile row of such a type is a row of the array that has this type.
\<close>

theorem tile_rows_types:
  assumes "makeResource g var = Inr R"
  shows "(\<forall>row. row < rows (layout R) \<longrightarrow> tileType (layout R) row c \<in> {Shim, Mem, Core}) \<and>
    (\<forall>t\<in>{Shim, Mem, Core}. \<forall>rel. unat rel < row_count (layout R) t \<longrightarrow>
       absTileRow (layout R) t rel < rows (layout R) \<and> tileType (layout R) (absTileRow (layout R) t rel) c = t)"
proof -
  note dev = makeResource_device [OF assms]
  show ?thesis using device_row_type [OF dev] device_abs_row [OF dev] by blast
qed


lemma device_ports_wf: "L \<in> set devices \<Longrightarrow> ports_wf (getPortsForTileType L t)"
  by (cases t) (auto simp: devices_def device_defs getPortsForTileType_def ports_wf_def
      defaultPortTemplates1_def defaultPortTemplates2_def defaultPortTemplates5_def
      ports1_core_def ports1_shim_def ports1_mem_def ports1_noc_def ports2_core_def ports2_shim_def ports2_mem_def ports2_noc_def
      ports5_core_def ports5_shim_def ports5_mem_def ports5_noc_def)

text \<open>
  Data memory: buffers that pass the check leave room for the stack in the memory of a core tile, and the sum of the
  two does not wrap around.
\<close>

lemma data_memory_room:
  assumes "makeResource g var = Inr R" "checkDataMemoryFits R n"
  shows "unat n + unat (stackReserveBytes (layout R)) \<le> unat (tileMemoryBytes (layout R))"
  using makeResource_device [OF assms(1)] assms(2)
  by (auto simp: checkDataMemoryFits_def devices_def device_defs word_less_nat_alt)

text \<open>
  The core segment of the device \<open>XCVE2802\<close> names one row more than the device has.
\<close>

lemma xcve2802_row: "tileType XCVE2802 (rows XCVE2802) c = Core"
  by (simp add: tileType_def XCVE2802_def)

theorem tile_rows_types_witness:
  "tileType PALMYRA 6 0 \<in> {Shim, Mem, Core} \<and> absTileRow PALMYRA Core 3 < rows PALMYRA \<and> tileType PALMYRA (absTileRow PALMYRA Core 3) 0 = Core"
proof -
  have m: "makeResource ''Gen5'' [] = Inr \<lparr>hw_gen = G5, layout = PALMYRA, variant = ''PALMYRA''\<rparr>"
    by (simp add: makeResource_def new_GenResource_def)
  have r: "6 < rows PALMYRA" by (simp add: PALMYRA_def)
  show ?thesis using tile_rows_types [OF m, of 0] r by (simp add: row_counts)
qed

text \<open>
  The device \<open>XCVC190\<close> lists network shim columns that its array does not have.
\<close>

lemma xcvc190_noc_outside: "\<exists>c\<in>nocShimCols XCVC190. \<not> c < columns XCVC190"
  by (simp add: XCVC190_def)

end
