(* ===== verification/ResourceManager.thy ===== *)
theory ResourceManager
  imports HwResource CtrlResource "HOL-Library.AList"
begin

text \<open>
  The resource manager of the router, \<open>hw/ResourceManager.cpp\<close> and \<open>include/hw/ResourceManager.h\<close> under
  \<open>src/src/mlir/mlirfront/tilinglinalg/pass/routingimplement\<close>: stream-switch ports, buffer descriptors, locks, packet
  ids, shim DMA channels, tile reservations and core data memory, and the exclusion of what the control plane occupies.
  Identifiers and coordinates are the integers of the code, data-memory addresses are 32-bit words. Reading a vector out
  of range and the exceptions of the code are values of \<open>rm_error\<close>; an operation that can throw returns the state it
  leaves behind together with the error.
\<close>

section \<open>Core data memory\<close>

record CoreMemSlot =
  symbolName :: string
  cm_address :: u32
  cm_size :: u32
  cm_ownerId :: int

record CoreMemAllocator =
  cm_baseAddr :: u32
  cm_totalSize :: u32
  cm_nextFree :: u32
  cm_allocations :: "CoreMemSlot list"

definition new_CoreMemAllocator :: "u32 \<Rightarrow> u32 \<Rightarrow> CoreMemAllocator" where
  "new_CoreMemAllocator base tot = \<lparr>cm_baseAddr = base, cm_totalSize = tot, cm_nextFree = base, cm_allocations = []\<rparr>"

definition cm_find :: "string \<Rightarrow> CoreMemAllocator \<Rightarrow> CoreMemSlot option" where
  "cm_find name A = List.find (\<lambda>s. symbolName s = name) (cm_allocations A)"

definition cm_align :: "u32 \<Rightarrow> u32 \<Rightarrow> u32" where
  "cm_align a alignment = (a + alignment - 1) AND NOT (alignment - 1)"

definition cm_allocate :: "string \<Rightarrow> u32 \<Rightarrow> u32 \<Rightarrow> int \<Rightarrow> CoreMemAllocator \<Rightarrow> u32 option \<times> CoreMemAllocator" where
  "cm_allocate name sz alignment ownerId A =
     (case cm_find name A of
        Some s \<Rightarrow> (Some (cm_address s), A)
      | None \<Rightarrow>
          let aligned = cm_align (cm_nextFree A) alignment in
          if aligned + sz > cm_baseAddr A + cm_totalSize A then (None, A)
          else (Some aligned,
                A\<lparr>cm_allocations := cm_allocations A @ [\<lparr>symbolName = name, cm_address = aligned, cm_size = sz, cm_ownerId = ownerId\<rparr>],
                  cm_nextFree := aligned + sz\<rparr>))"

definition cm_getAddress :: "string \<Rightarrow> CoreMemAllocator \<Rightarrow> u32" where
  "cm_getAddress name A = (case cm_find name A of Some s \<Rightarrow> cm_address s | None \<Rightarrow> 0)"

definition cm_getSize :: "string \<Rightarrow> CoreMemAllocator \<Rightarrow> u32" where
  "cm_getSize name A = (case cm_find name A of Some s \<Rightarrow> cm_size s | None \<Rightarrow> 0)"

definition cm_reset :: "CoreMemAllocator \<Rightarrow> CoreMemAllocator" where
  "cm_reset A = A\<lparr>cm_nextFree := cm_baseAddr A, cm_allocations := []\<rparr>"

definition cm_getFreeSpace :: "CoreMemAllocator \<Rightarrow> u32" where
  "cm_getFreeSpace A = cm_baseAddr A + cm_totalSize A - cm_nextFree A"

section \<open>Pools of numbered slots\<close>

text \<open>The descriptor, lock and packet-id slots have the same two fields.\<close>

record pool_slot =
  sl_used :: bool
  sl_ownerId :: int

type_synonym BdSlot = pool_slot
type_synonym LockSlot = pool_slot
type_synonym PktIdSlot = pool_slot

definition slot0 :: pool_slot where
  "slot0 = \<lparr>sl_used = False, sl_ownerId = -1\<rparr>"

definition slot_taken :: "int \<Rightarrow> pool_slot" where
  "slot_taken ownerId = \<lparr>sl_used = True, sl_ownerId = ownerId\<rparr>"

text \<open>The scan for the first free slot from index \<open>start\<close> on.\<close>

definition first_free :: "nat \<Rightarrow> pool_slot list \<Rightarrow> nat option" where
  "first_free start pool = List.find (\<lambda>i. \<not> sl_used (pool ! i)) [start..<length pool]"

definition pool_allocate :: "nat \<Rightarrow> int \<Rightarrow> pool_slot list \<Rightarrow> int option \<times> pool_slot list" where
  "pool_allocate start ownerId pool =
     (case first_free start pool of
        Some i \<Rightarrow> (Some (int i), pool[i := slot_taken ownerId])
      | None \<Rightarrow> (None, pool))"

definition pool_release :: "int \<Rightarrow> int \<Rightarrow> pool_slot list \<Rightarrow> bool \<times> pool_slot list" where
  "pool_release i ownerId pool =
     (if i < 0 \<or> i \<ge> int (length pool) then (False, pool)
      else if \<not> sl_used (pool ! nat i) then (False, pool)
      else if ownerId \<ge> 0 \<and> sl_ownerId (pool ! nat i) \<noteq> ownerId then (False, pool)
      else (True, pool[nat i := slot0]))"

definition pool_free :: "int \<Rightarrow> pool_slot list \<Rightarrow> bool" where
  "pool_free i pool = (if i < 0 \<or> i \<ge> int (length pool) then False else \<not> sl_used (pool ! nat i))"

definition pool_count :: "pool_slot list \<Rightarrow> nat" where
  "pool_count pool = length (filter (\<lambda>s. \<not> sl_used s) pool)"

definition pool_reserve :: "int \<Rightarrow> int \<Rightarrow> pool_slot list \<Rightarrow> bool \<times> pool_slot list" where
  "pool_reserve i ownerId pool =
     (if i < 0 \<or> i \<ge> int (length pool) then (False, pool)
      else if sl_used (pool ! nat i) \<and> sl_ownerId (pool ! nat i) \<noteq> ownerId then (False, pool)
      else (True, pool[nat i := slot_taken ownerId]))"

section \<open>Routing tiles\<close>

datatype rm_error = Bad_index | No_bank | Not_neighbours | Bad_optional | Pkt_conflict | No_spine_dma | Spine_dma_conflict
  | Port_conflict | Spine_port_conflict | No_row_dma | Row_dma_conflict | Row_port_conflict

fun opposite :: "PortDirection \<Rightarrow> PortDirection" where
  "opposite North = South"
| "opposite South = North"
| "opposite East = West"
| "opposite West = East"
| "opposite d = d"

definition getDir :: "Point \<Rightarrow> Point \<Rightarrow> rm_error + PortDirection" where
  "getDir a b =
     (if pt_r a = pt_r b - 1 \<and> pt_c b = pt_c a then Inr North
      else if pt_r a = pt_r b + 1 \<and> pt_c b = pt_c a then Inr South
      else if pt_c b = pt_c a - 1 \<and> pt_r b = pt_r a then Inr West
      else if pt_c b = pt_c a + 1 \<and> pt_r b = pt_r a then Inr East
      else Inl Not_neighbours)"

record PortSlot =
  ps_used :: bool
  ps_invalid :: bool
  ps_ioId :: int
  ps_portNum :: int

definition PortSlot0 :: PortSlot where
  "PortSlot0 = \<lparr>ps_used = False, ps_invalid = False, ps_ioId = -1, ps_portNum = -1\<rparr>"

record DirBank =
  bk_master :: "PortSlot list"
  bk_slave :: "PortSlot list"

definition DirBank0 :: DirBank where
  "DirBank0 = \<lparr>bk_master = [], bk_slave = []\<rparr>"

datatype IOType = Input | Output | TileDMA

datatype ReservationStrategy = COLUMN_FIRST | ROW_FIRST

record RoutingTile =
  rt_row :: int
  rt_col :: int
  rt_type :: TileType
  rt_banks :: "PortDirection \<rightharpoonup> DirBank"
  rt_bdPool :: "BdSlot list"
  rt_lockPool :: "LockSlot list"
  rt_reserved :: bool
  rt_reservedByIoId :: int

text \<open>\<open>banks_[dir]\<close> finds the bank of a direction or adds an empty one; its ports of a role are a vector.\<close>

definition bank_of :: "PortDirection \<Rightarrow> (PortDirection \<rightharpoonup> DirBank) \<Rightarrow> DirBank" where
  "bank_of d B = (case B d of Some b \<Rightarrow> b | None \<Rightarrow> DirBank0)"

fun ports_of :: "PortRole \<Rightarrow> DirBank \<Rightarrow> PortSlot list" where
  "ports_of Master b = bk_master b"
| "ports_of Slave b = bk_slave b"

fun set_ports :: "PortRole \<Rightarrow> PortSlot list \<Rightarrow> DirBank \<Rightarrow> DirBank" where
  "set_ports Master v b = b\<lparr>bk_master := v\<rparr>"
| "set_ports Slave v b = b\<lparr>bk_slave := v\<rparr>"

definition put_ports :: "PortDirection \<Rightarrow> PortRole \<Rightarrow> PortSlot list \<Rightarrow> (PortDirection \<rightharpoonup> DirBank) \<Rightarrow> (PortDirection \<rightharpoonup> DirBank)" where
  "put_ports d r v B = B(d \<mapsto> set_ports r v (bank_of d B))"

definition get_ports :: "PortDirection \<Rightarrow> PortRole \<Rightarrow> (PortDirection \<rightharpoonup> DirBank) \<Rightarrow> PortSlot list" where
  "get_ports d r B = ports_of r (bank_of d B)"

definition resize :: "nat \<Rightarrow> PortSlot list \<Rightarrow> PortSlot list" where
  "resize n v = take n v @ replicate (n - length v) PortSlot0"

text \<open>The loop that gives the wired ports their hardware numbers.\<close>

definition number_ports :: "PortTemplate \<Rightarrow> PortSlot list \<Rightarrow> PortSlot list" where
  "number_ports tp v =
     fold (\<lambda>i v. v[i := (v ! i)\<lparr>ps_portNum := uint (available_ports tp ! i)\<rparr>]) [0..<min (pt_ports tp) (length (available_ports tp))] v"

definition add_template :: "PortTemplate \<Rightarrow> (PortDirection \<rightharpoonup> DirBank) \<Rightarrow> (PortDirection \<rightharpoonup> DirBank)" where
  "add_template tp B =
     put_ports (pt_dir tp) (pt_role tp) (number_ports tp (resize (pt_ports tp) (get_ports (pt_dir tp) (pt_role tp) B))) B"

definition new_RoutingTile :: "int \<Rightarrow> int \<Rightarrow> TileType \<Rightarrow> PortTemplate list \<Rightarrow> nat \<Rightarrow> nat \<Rightarrow> RoutingTile" where
  "new_RoutingTile r c tt Portinfo nBds nLocks =
     \<lparr>rt_row = r, rt_col = c, rt_type = tt, rt_banks = fold add_template Portinfo Map.empty,
      rt_bdPool = replicate nBds slot0, rt_lockPool = replicate nLocks slot0, rt_reserved = False, rt_reservedByIoId = -1\<rparr>"

definition setReserved :: "bool \<Rightarrow> int \<Rightarrow> RoutingTile \<Rightarrow> RoutingTile" where
  "setReserved res ioId t = t\<lparr>rt_reserved := res, rt_reservedByIoId := (if res then ioId else -1)\<rparr>"

definition allocateBd :: "int \<Rightarrow> RoutingTile \<Rightarrow> int option \<times> RoutingTile" where
  "allocateBd ownerId t = (case pool_allocate 0 ownerId (rt_bdPool t) of (r, p) \<Rightarrow> (r, t\<lparr>rt_bdPool := p\<rparr>))"

definition releaseBd :: "int \<Rightarrow> int \<Rightarrow> RoutingTile \<Rightarrow> bool \<times> RoutingTile" where
  "releaseBd bdId ownerId t = (case pool_release bdId ownerId (rt_bdPool t) of (r, p) \<Rightarrow> (r, t\<lparr>rt_bdPool := p\<rparr>))"

definition reserveBd :: "int \<Rightarrow> int \<Rightarrow> RoutingTile \<Rightarrow> bool \<times> RoutingTile" where
  "reserveBd bdId ownerId t = (case pool_reserve bdId ownerId (rt_bdPool t) of (r, p) \<Rightarrow> (r, t\<lparr>rt_bdPool := p\<rparr>))"

definition isBdFree :: "int \<Rightarrow> RoutingTile \<Rightarrow> bool" where
  "isBdFree bdId t = pool_free bdId (rt_bdPool t)"

definition freeBdCount :: "RoutingTile \<Rightarrow> nat" where
  "freeBdCount t = pool_count (rt_bdPool t)"

definition allocateLock :: "int \<Rightarrow> RoutingTile \<Rightarrow> int option \<times> RoutingTile" where
  "allocateLock ownerId t = (case pool_allocate 0 ownerId (rt_lockPool t) of (r, p) \<Rightarrow> (r, t\<lparr>rt_lockPool := p\<rparr>))"

text \<open>
  The scan for two free locks: \<open>first\<close> is the first one found so far. The result is the pair of locks; both are
  marked in one step when the second is found.
\<close>

fun lock_pair_scan :: "nat option \<Rightarrow> nat list \<Rightarrow> LockSlot list \<Rightarrow> (nat \<times> nat) option" where
  "lock_pair_scan fst_free [] pool = None"
| "lock_pair_scan fst_free (i # idxs) pool =
     (if sl_used (pool ! i) then lock_pair_scan fst_free idxs pool
      else case fst_free of None \<Rightarrow> lock_pair_scan (Some i) idxs pool | Some j \<Rightarrow> Some (j, i))"

definition allocateLockPair :: "int \<Rightarrow> RoutingTile \<Rightarrow> (int \<times> int) option \<times> RoutingTile" where
  "allocateLockPair ownerId t =
     (case lock_pair_scan None [0..<length (rt_lockPool t)] (rt_lockPool t) of
        None \<Rightarrow> (None, t)
      | Some (a, b) \<Rightarrow> (Some (int a, int b), t\<lparr>rt_lockPool := (rt_lockPool t)[a := slot_taken ownerId, b := slot_taken ownerId]\<rparr>))"

definition releaseLock :: "int \<Rightarrow> int \<Rightarrow> RoutingTile \<Rightarrow> bool \<times> RoutingTile" where
  "releaseLock lockId ownerId t = (case pool_release lockId ownerId (rt_lockPool t) of (r, p) \<Rightarrow> (r, t\<lparr>rt_lockPool := p\<rparr>))"

definition isLockFree :: "int \<Rightarrow> RoutingTile \<Rightarrow> bool" where
  "isLockFree lockId t = pool_free lockId (rt_lockPool t)"

definition freeLockCount :: "RoutingTile \<Rightarrow> nat" where
  "freeLockCount t = pool_count (rt_lockPool t)"

text \<open>The query adds the bank of the direction when there is none, hence it returns the tile.\<close>

definition getPortnumFromPortIdx :: "PortDirection \<Rightarrow> PortRole \<Rightarrow> int \<Rightarrow> RoutingTile \<Rightarrow> (rm_error + int) \<times> RoutingTile" where
  "getPortnumFromPortIdx d r portidx t =
     (let v = get_ports d r (rt_banks t); t' = t\<lparr>rt_banks := (rt_banks t)(d \<mapsto> bank_of d (rt_banks t))\<rparr> in
      if v = [] then (Inr portidx, t')
      else if portidx < 0 \<or> portidx \<ge> int (length v) then (Inl Bad_index, t')
      else if ps_portNum (v ! nat portidx) = -1 then (Inr portidx, t')
      else (Inr (ps_portNum (v ! nat portidx)), t'))"

fun io_bank :: "IOType \<Rightarrow> PortRole" where
  "io_bank Input = Master"
| "io_bank Output = Slave"
| "io_bank TileDMA = Slave"

definition rt_allocate :: "IOType \<Rightarrow> int \<Rightarrow> PortDirection \<Rightarrow> int \<Rightarrow> RoutingTile \<Rightarrow> (rm_error + int option) \<times> RoutingTile" where
  "rt_allocate io portidx d ioId t =
     (let v = get_ports d (io_bank io) (rt_banks t) in
      if portidx < 0 \<or> portidx \<ge> int (length v) then (Inl Bad_index, t)
      else if \<not> ps_used (v ! nat portidx) then
        (Inr (Some portidx),
         t\<lparr>rt_banks := put_ports d (io_bank io) (v[nat portidx := (v ! nat portidx)\<lparr>ps_used := True, ps_invalid := False, ps_ioId := ioId\<rparr>]) (rt_banks t)\<rparr>)
      else (Inr None, t))"

fun occupy_scan :: "IOType \<Rightarrow> int list \<Rightarrow> PortDirection \<Rightarrow> int \<Rightarrow> RoutingTile \<Rightarrow> int option \<times> RoutingTile" where
  "occupy_scan io [] d ioId t = (None, t)"
| "occupy_scan io (i # idxs) d ioId t =
     (case rt_allocate io i d ioId t of
        (Inr (Some p), t') \<Rightarrow> (Some p, t')
      | (_, t') \<Rightarrow> occupy_scan io idxs d ioId t')"

definition occupyport :: "IOType \<Rightarrow> PortDirection \<Rightarrow> int \<Rightarrow> RoutingTile \<Rightarrow> int option \<times> RoutingTile" where
  "occupyport io d ioId t =
     occupy_scan io (map int [0..<length (get_ports d (io_bank io) (rt_banks t))]) d ioId
       (t\<lparr>rt_banks := (rt_banks t)(d \<mapsto> bank_of d (rt_banks t))\<rparr>)"

fun release_bank :: "IOType \<Rightarrow> PortRole" where
  "release_bank Input = Slave"
| "release_bank Output = Master"
| "release_bank TileDMA = Master"

definition releaseByIo :: "IOType \<Rightarrow> int \<Rightarrow> PortDirection \<Rightarrow> int \<Rightarrow> RoutingTile \<Rightarrow> (rm_error + bool) \<times> RoutingTile" where
  "releaseByIo io portidx d ioId t =
     (let v = get_ports d (release_bank io) (rt_banks t) in
      if portidx < 0 \<or> portidx \<ge> int (length v) then (Inl Bad_index, t)
      else if ps_used (v ! nat portidx) \<and> ps_ioId (v ! nat portidx) = ioId then
        (Inr True, t\<lparr>rt_banks := put_ports d (release_bank io) (v[nat portidx := PortSlot0]) (rt_banks t)\<rparr>)
      else (Inr False, t))"

definition hardwarePort :: "PortSlot list \<Rightarrow> nat \<Rightarrow> int" where
  "hardwarePort v i = (if ps_portNum (v ! i) < 0 then int i else ps_portNum (v ! i))"

definition reservePortNumber :: "PortDirection \<Rightarrow> PortRole \<Rightarrow> int \<Rightarrow> int \<Rightarrow> RoutingTile \<Rightarrow> bool \<times> RoutingTile" where
  "reservePortNumber d r portNum ownerId t =
     (case rt_banks t d of
        None \<Rightarrow> (True, t)
      | Some b \<Rightarrow>
          let v = ports_of r b in
          case List.find (\<lambda>i. hardwarePort v i = portNum) [0..<length v] of
            None \<Rightarrow> (True, t)
          | Some i \<Rightarrow>
              if ps_used (v ! i) \<and> ps_ioId (v ! i) \<noteq> ownerId then (False, t)
              else (True, t\<lparr>rt_banks := put_ports d r (v[i := (v ! i)\<lparr>ps_used := True, ps_invalid := False, ps_ioId := ownerId\<rparr>]) (rt_banks t)\<rparr>))"

section \<open>Shim tiles\<close>

datatype DMADIRECTION = MM2S | S2MM

record FoundDmaSlot =
  fd_direct :: DMADIRECTION
  fd_loc :: Point
  fd_channel :: int

record ChannelState =
  ch_allocated :: bool
  ch_allocatedBy :: int

definition ChannelState0 :: ChannelState where
  "ChannelState0 = \<lparr>ch_allocated = False, ch_allocatedBy = -1\<rparr>"

record ShimTile =
  sh_row :: int
  sh_col :: int
  sh_reserved :: bool
  sh_reservedByIoId :: int
  sh_mm2s :: "ChannelState list"
  sh_s2mm :: "ChannelState list"

definition new_ShimTile :: "int \<Rightarrow> int \<Rightarrow> nat \<Rightarrow> nat \<Rightarrow> ShimTile" where
  "new_ShimTile r c n1 n2 =
     \<lparr>sh_row = r, sh_col = c, sh_reserved = False, sh_reservedByIoId = -1,
      sh_mm2s = replicate n1 ChannelState0, sh_s2mm = replicate n2 ChannelState0\<rparr>"

definition sh_setReserved :: "bool \<Rightarrow> int \<Rightarrow> ShimTile \<Rightarrow> ShimTile" where
  "sh_setReserved res ioId t = t\<lparr>sh_reserved := res, sh_reservedByIoId := (if res then ioId else -1)\<rparr>"

fun channels :: "DMADIRECTION \<Rightarrow> ShimTile \<Rightarrow> ChannelState list" where
  "channels MM2S t = sh_mm2s t"
| "channels S2MM t = sh_s2mm t"

fun put_channels :: "DMADIRECTION \<Rightarrow> ChannelState list \<Rightarrow> ShimTile \<Rightarrow> ShimTile" where
  "put_channels MM2S v t = t\<lparr>sh_mm2s := v\<rparr>"
| "put_channels S2MM v t = t\<lparr>sh_s2mm := v\<rparr>"

definition set_channel :: "DMADIRECTION \<Rightarrow> nat \<Rightarrow> bool \<Rightarrow> int \<Rightarrow> ShimTile \<Rightarrow> ShimTile" where
  "set_channel d ch al ioId t = put_channels d ((channels d t)[ch := \<lparr>ch_allocated = al, ch_allocatedBy = ioId\<rparr>]) t"

definition numChannels :: "DMADIRECTION \<Rightarrow> ShimTile \<Rightarrow> nat" where
  "numChannels d t = length (channels d t)"

definition isHardReservedByOther :: "int \<Rightarrow> ShimTile \<Rightarrow> bool" where
  "isHardReservedByOther ioId t = (sh_reserved t \<and> sh_reservedByIoId t \<noteq> ioId)"

definition isValidChannel :: "DMADIRECTION \<Rightarrow> int \<Rightarrow> ShimTile \<Rightarrow> bool" where
  "isValidChannel d ch t = (if ch < 0 then False else ch < int (numChannels d t))"

definition first_channel :: "DMADIRECTION \<Rightarrow> ShimTile \<Rightarrow> nat option" where
  "first_channel d t = List.find (\<lambda>ch. \<not> ch_allocated (channels d t ! ch)) [0..<numChannels d t]"

definition sh_allocate :: "DMADIRECTION \<Rightarrow> int \<Rightarrow> int \<Rightarrow> ShimTile \<Rightarrow> int option \<times> ShimTile" where
  "sh_allocate d preferred ioId t =
     (if isHardReservedByOther ioId t then (None, t)
      else if preferred \<ge> 0 then
        (if \<not> isValidChannel d preferred t then (None, t)
         else if \<not> ch_allocated (channels d t ! nat preferred) \<or> ch_allocatedBy (channels d t ! nat preferred) = ioId
         then (Some preferred, set_channel d (nat preferred) True ioId t)
         else (None, t))
      else case first_channel d t of
             Some ch \<Rightarrow> (Some (int ch), set_channel d ch True ioId t)
           | None \<Rightarrow> (None, t))"

definition sh_occupy :: "DMADIRECTION \<Rightarrow> int \<Rightarrow> int \<Rightarrow> ShimTile \<Rightarrow> int option \<times> ShimTile" where
  "sh_occupy d preferred ioId t =
     (if isHardReservedByOther ioId t then (None, t)
      else if preferred < 0 then
        (case first_channel d t of
           Some ch \<Rightarrow> (Some (int ch), set_channel d ch True ioId t)
         | None \<Rightarrow> (None, t))
      else if \<not> isValidChannel d preferred t then (None, t)
      else if \<not> ch_allocated (channels d t ! nat preferred) then (Some preferred, set_channel d (nat preferred) True ioId t)
      else (None, t))"

definition sh_release :: "DMADIRECTION \<Rightarrow> int \<Rightarrow> int \<Rightarrow> ShimTile \<Rightarrow> bool \<times> ShimTile" where
  "sh_release d ch ioId t =
     (if \<not> isValidChannel d ch t then (False, t)
      else if ch_allocated (channels d t ! nat ch) \<and> ch_allocatedBy (channels d t ! nat ch) = ioId
      then (True, set_channel d (nat ch) False (-1) t)
      else (False, t))"

definition sh_forceRelease :: "DMADIRECTION \<Rightarrow> int \<Rightarrow> ShimTile \<Rightarrow> bool \<times> ShimTile" where
  "sh_forceRelease d ch t =
     (if \<not> isValidChannel d ch t then (False, t) else (True, set_channel d (nat ch) False (-1) t))"

definition isChannelFree :: "DMADIRECTION \<Rightarrow> int \<Rightarrow> ShimTile \<Rightarrow> bool" where
  "isChannelFree d ch t = (if \<not> isValidChannel d ch t then False else \<not> ch_allocated (channels d t ! nat ch))"

definition freeChannels :: "DMADIRECTION \<Rightarrow> ShimTile \<Rightarrow> int list" where
  "freeChannels d t = map int (filter (\<lambda>ch. \<not> ch_allocated (channels d t ! ch)) [0..<numChannels d t])"

definition freed_by :: "int \<Rightarrow> ChannelState \<Rightarrow> ChannelState" where
  "freed_by ioId c = (if ch_allocated c \<and> ch_allocatedBy c = ioId then ChannelState0 else c)"

definition releaseAllByIoId :: "int \<Rightarrow> ShimTile \<Rightarrow> nat \<times> ShimTile" where
  "releaseAllByIoId ioId t =
     (let hit = (\<lambda>c. ch_allocated c \<and> ch_allocatedBy c = ioId);
          n = length (filter hit (sh_mm2s t)) + length (filter hit (sh_s2mm t));
          t' = t\<lparr>sh_mm2s := map (freed_by ioId) (sh_mm2s t), sh_s2mm := map (freed_by ioId) (sh_s2mm t)\<rparr>
      in (n, if sh_reserved t \<and> sh_reservedByIoId t = ioId then t'\<lparr>sh_reserved := False, sh_reservedByIoId := -1\<rparr> else t'))"

definition hasAnyFreeChannelForEngine :: "DMADIRECTION \<Rightarrow> ShimTile \<Rightarrow> bool" where
  "hasAnyFreeChannelForEngine d t = list_ex (\<lambda>ch. isChannelFree d (int ch) t) [0..<numChannels d t]"

definition isEngineCompletelyFree :: "DMADIRECTION \<Rightarrow> ShimTile \<Rightarrow> bool" where
  "isEngineCompletelyFree d t = list_all (\<lambda>ch. isChannelFree d (int ch) t) [0..<numChannels d t]"

section \<open>Data flows and the manager\<close>

datatype ShimIOPort = ShimIOPort IOType PortDirection int

record DataIO =
  io_id :: int
  io_rowpos :: int
  io_colpos :: int
  io_channel :: int
  io_dmadir :: DMADIRECTION
  io_type :: IOType
  io_name :: string
  io_comment :: string
  io_reservedTiles :: "Point list"
  io_shimport :: "ShimIOPort option"

definition new_DataIO :: "int \<Rightarrow> IOType \<Rightarrow> int \<Rightarrow> int \<Rightarrow> DMADIRECTION \<Rightarrow> int \<Rightarrow> string \<Rightarrow> string \<Rightarrow> DataIO" where
  "new_DataIO i tp r c d ch nm cmt =
     \<lparr>io_id = i, io_rowpos = r, io_colpos = c, io_channel = ch, io_dmadir = d, io_type = tp, io_name = nm, io_comment = cmt,
      io_reservedTiles = [], io_shimport = None\<rparr>"

record CoreOffloadTileConfig =
  co_col :: int
  co_row :: int
  co_isOutput :: bool
  co_channel :: int
  co_packetId :: int
  co_enablePacket :: bool
  co_oooBdId :: int
  co_bdLenBytes :: int
  co_ppDepth :: int
  co_flowIndex :: int
  co_pingBdId :: int
  co_pongBdId :: int
  co_pingL1Offset :: int
  co_pongL1Offset :: int
  co_bdAcquireLockId :: int
  co_bdReleaseLockId :: int
  co_acquireLockVal :: int
  co_releaseLockVal :: int
  co_repeatCount :: int

definition same_offload :: "CoreOffloadTileConfig \<Rightarrow> CoreOffloadTileConfig \<Rightarrow> bool" where
  "same_offload e cfg = (co_col e = co_col cfg \<and> co_row e = co_row cfg \<and> co_isOutput e = co_isOutput cfg \<and> co_flowIndex e = co_flowIndex cfg)"

fun offload_upsert :: "CoreOffloadTileConfig \<Rightarrow> CoreOffloadTileConfig list \<Rightarrow> CoreOffloadTileConfig list" where
  "offload_upsert cfg [] = [cfg]"
| "offload_upsert cfg (e # es) = (if same_offload e cfg then cfg # es else e # offload_upsert cfg es)"

record ControlShimPlacement =
  cp_col :: int
  cp_mm2sCh :: int
  cp_s2mmCh :: int
  cp_exclusive :: bool
  cp_shimRow :: bool

definition ControlShimPlacement0 :: ControlShimPlacement where
  "ControlShimPlacement0 = \<lparr>cp_col = -1, cp_mm2sCh = 0, cp_s2mmCh = 0, cp_exclusive = False, cp_shimRow = False\<rparr>"

definition kMaxPktId :: nat where "kMaxPktId = 32"
definition kNumPortTypes :: nat where "kNumPortTypes = 5"
definition kControlPlaneOwner :: int where "kControlPlaneOwner = -2"

text \<open>
  The manager. The iteration order of the two hash tables the code walks is not specified: \<open>rm_shimTiles\<close> lists the
  shim tiles with their coordinates in the order of the table, and \<open>rm_noc\<close> the network columns of the device in the
  order of their set. The counter of flow ids, a static of the class \<open>DataIO\<close>, is a field.
\<close>

record ResourceMgr =
  rm_resource :: GenResource
  rm_noc :: "u32 list"
  rm_tiles :: "RoutingTile list list"
  rm_shimTiles :: "((int \<times> int) \<times> ShimTile) list"
  rm_dataIOMap :: "int \<rightharpoonup> DataIO"
  rm_next :: int
  rm_lastdioid :: u32
  rm_coreMem :: CoreMemAllocator
  rm_offload :: "CoreOffloadTileConfig list"
  rm_shimChannel :: "(int \<times> int \<times> DMADIRECTION) \<rightharpoonup> int"
  rm_startCol :: int
  rm_endCol :: int
  rm_startRow :: int
  rm_endRow :: int
  rm_pktIdPool :: "PktIdSlot list"
  rm_arbiterMask :: u32
  rm_slotMask :: "(u32 \<times> u32) list"
  rm_controlReserved :: bool
  rm_ctrlPlacement :: ControlShimPlacement

definition new_tile :: "GenResource \<Rightarrow> nat \<Rightarrow> nat \<Rightarrow> RoutingTile" where
  "new_tile R r c =
     (let tt = tileType (layout R) (of_nat r) (of_nat c); lim = getDmaLimits (layout R) tt
      in new_RoutingTile (int r) (int c) tt (getPortsForTileType (layout R) tt) (numBds lim) (numLocks lim))"

definition addShimTile :: "ShimTile \<Rightarrow> ((int \<times> int) \<times> ShimTile) list \<Rightarrow> ((int \<times> int) \<times> ShimTile) list" where
  "addShimTile s ts = AList.update (sh_row s, sh_col s) s ts"

definition InitSHIMNocList :: "u32 list \<Rightarrow> ((int \<times> int) \<times> ShimTile) list" where
  "InitSHIMNocList noc = fold (\<lambda>x. addShimTile (new_ShimTile 0 (uint x) 2 2)) noc []"

definition new_ResourceMgr :: "GenResource \<Rightarrow> u32 list \<Rightarrow> int \<Rightarrow> ResourceMgr" where
  "new_ResourceMgr R noc nxt =
     \<lparr>rm_resource = R, rm_noc = noc,
      rm_tiles = map (\<lambda>r. map (new_tile R r) [0..<unat (columns (layout R))]) [0..<unat (rows (layout R))],
      rm_shimTiles = InitSHIMNocList noc, rm_dataIOMap = Map.empty, rm_next = nxt, rm_lastdioid = 0,
      rm_coreMem = new_CoreMemAllocator 0x78000 0x8000, rm_offload = [], rm_shimChannel = Map.empty,
      rm_startCol = -1, rm_endCol = -1, rm_startRow = -1, rm_endRow = -1,
      rm_pktIdPool = replicate kMaxPktId slot0, rm_arbiterMask = 0, rm_slotMask = replicate kNumPortTypes (0, 0),
      rm_controlReserved = False, rm_ctrlPlacement = ControlShimPlacement0\<rparr>"

definition setPartitionBounds :: "int \<Rightarrow> int \<Rightarrow> int \<Rightarrow> int \<Rightarrow> ResourceMgr \<Rightarrow> ResourceMgr" where
  "setPartitionBounds startCol endCol startRow endRow M =
     M\<lparr>rm_startCol := startCol, rm_endCol := endCol, rm_startRow := startRow, rm_endRow := endRow\<rparr>"

definition hasPartition :: "ResourceMgr \<Rightarrow> bool" where
  "hasPartition M = (rm_startCol M \<ge> 0)"

definition isColInPartition :: "ResourceMgr \<Rightarrow> int \<Rightarrow> bool" where
  "isColInPartition M c = (\<not> hasPartition M \<or> (c \<ge> rm_startCol M \<and> c \<le> rm_endCol M))"

definition isRowInPartition :: "ResourceMgr \<Rightarrow> int \<Rightarrow> bool" where
  "isRowInPartition M r = (\<not> hasPartition M \<or> rm_startRow M < 0 \<or> (r \<ge> rm_startRow M \<and> r \<le> rm_endRow M))"

definition isTileInPartition :: "ResourceMgr \<Rightarrow> int \<Rightarrow> int \<Rightarrow> bool" where
  "isTileInPartition M r c = (isColInPartition M c \<and> isRowInPartition M r)"

definition rm_rows :: "ResourceMgr \<Rightarrow> int" where
  "rm_rows M = uint (rows (layout (rm_resource M)))"

definition rm_cols :: "ResourceMgr \<Rightarrow> int" where
  "rm_cols M = uint (columns (layout (rm_resource M)))"

definition allocdioid :: "ResourceMgr \<Rightarrow> u32 \<times> ResourceMgr" where
  "allocdioid M = (rm_lastdioid M + 1, M\<lparr>rm_lastdioid := rm_lastdioid M + 1\<rparr>)"

text \<open>\<open>tiles_[r][c]\<close>, and its update.\<close>

definition has_tile :: "ResourceMgr \<Rightarrow> int \<Rightarrow> int \<Rightarrow> bool" where
  "has_tile M r c = (0 \<le> r \<and> r < int (length (rm_tiles M)) \<and> 0 \<le> c \<and> c < int (length (rm_tiles M ! nat r)))"

definition tile :: "ResourceMgr \<Rightarrow> int \<Rightarrow> int \<Rightarrow> RoutingTile" where
  "tile M r c = rm_tiles M ! nat r ! nat c"

definition put_tile :: "int \<Rightarrow> int \<Rightarrow> RoutingTile \<Rightarrow> ResourceMgr \<Rightarrow> ResourceMgr" where
  "put_tile r c t M = M\<lparr>rm_tiles := (rm_tiles M)[nat r := (rm_tiles M ! nat r)[nat c := t]]\<rparr>"

definition addCoreOffloadTile :: "CoreOffloadTileConfig \<Rightarrow> ResourceMgr \<Rightarrow> ResourceMgr" where
  "addCoreOffloadTile cfg M = M\<lparr>rm_offload := offload_upsert cfg (rm_offload M)\<rparr>"

definition registerShimChannelMapping :: "int \<Rightarrow> int \<Rightarrow> DMADIRECTION \<Rightarrow> int \<Rightarrow> ResourceMgr \<Rightarrow> ResourceMgr" where
  "registerShimChannelMapping shimCol ch d ioId M = M\<lparr>rm_shimChannel := (rm_shimChannel M)((shimCol, ch, d) \<mapsto> ioId)\<rparr>"

definition findIoIdByShimChannel :: "int \<Rightarrow> int \<Rightarrow> DMADIRECTION \<Rightarrow> ResourceMgr \<Rightarrow> int option" where
  "findIoIdByShimChannel shimCol ch d M = rm_shimChannel M (shimCol, ch, d)"

definition findDataIOByShimChannel :: "int \<Rightarrow> int \<Rightarrow> DMADIRECTION \<Rightarrow> ResourceMgr \<Rightarrow> DataIO option" where
  "findDataIOByShimChannel shimCol ch d M =
     (case findIoIdByShimChannel shimCol ch d M of
        Some ioId \<Rightarrow> rm_dataIOMap M ioId
      | None \<Rightarrow> None)"

definition createDataIO ::
  "IOType \<Rightarrow> int \<Rightarrow> int \<Rightarrow> DMADIRECTION \<Rightarrow> int \<Rightarrow> string \<Rightarrow> string \<Rightarrow> ResourceMgr \<Rightarrow> (rm_error + DataIO) \<times> ResourceMgr"
where
  "createDataIO tp r c d ch nm cmt M =
     (let i = rm_next M + 1; dio = new_DataIO i tp r c d ch nm cmt;
          M1 = M\<lparr>rm_next := i, rm_dataIOMap := (rm_dataIOMap M)(i \<mapsto> dio)\<rparr> in
      if tileType (layout (rm_resource M)) (of_int r) (of_int c) \<noteq> Shim then (Inr dio, M1)
      else if \<not> has_tile M r c then (Inl Bad_index, M1)
      else case occupyport tp South i (tile M r c) of
        (None, t) \<Rightarrow> (Inr dio, registerShimChannelMapping c ch d i (put_tile r c t M1))
      | (Some portidx, t) \<Rightarrow>
          (case getPortnumFromPortIdx South (if tp = Input then Master else Slave) portidx t of
             (Inl e, t') \<Rightarrow> (Inl e, put_tile r c t' M1)
           | (Inr portnum, t') \<Rightarrow>
               let dio' = dio\<lparr>io_shimport := Some (ShimIOPort tp South portnum)\<rparr>
               in (Inr dio', registerShimChannelMapping c ch d i
                     (put_tile r c t' (M1\<lparr>rm_dataIOMap := (rm_dataIOMap M)(i \<mapsto> dio')\<rparr>)))))"

section \<open>Links\<close>

definition tile_bank :: "ResourceMgr \<Rightarrow> Point \<Rightarrow> PortDirection \<Rightarrow> rm_error + DirBank" where
  "tile_bank M p d =
     (if \<not> has_tile M (pt_r p) (pt_c p) then Inl Bad_index
      else case rt_banks (tile M (pt_r p) (pt_c p)) d of None \<Rightarrow> Inl No_bank | Some b \<Rightarrow> Inr b)"

definition port_used :: "PortSlot list \<Rightarrow> nat \<Rightarrow> bool" where
  "port_used v ch = (ch < length v \<and> ps_used (v ! ch))"

definition linkAvailable :: "Point \<Rightarrow> Point \<Rightarrow> ResourceMgr \<Rightarrow> rm_error + int option" where
  "linkAvailable a b M =
     (case getDir a b of
        Inl e \<Rightarrow> Inl e
      | Inr d \<Rightarrow>
         (case (tile_bank M a d, tile_bank M b (opposite d)) of
            (Inl e, _) \<Rightarrow> Inl e
          | (_, Inl e) \<Rightarrow> Inl e
          | (Inr ba, Inr bb) \<Rightarrow>
              Inr (map_option int (List.find
                (\<lambda>ch. \<not> (ps_used (bk_slave ba ! ch) \<or> ps_used (bk_master bb ! ch)) \<and>
                      \<not> (port_used (bk_master ba) ch \<or> port_used (bk_slave bb) ch))
                [0..<min (length (bk_slave ba)) (length (bk_master bb))]))))"

definition portDirAvailable :: "Point \<Rightarrow> PortDirection \<Rightarrow> bool \<Rightarrow> ResourceMgr \<Rightarrow> rm_error + int option" where
  "portDirAvailable a d master M =
     (case tile_bank M a d of
        Inl e \<Rightarrow> Inl e
      | Inr b \<Rightarrow>
          let va = (if master then bk_master b else bk_slave b)
          in Inr (map_option int (List.find (\<lambda>ch. \<not> ps_used (va ! ch)) [0..<length va])))"

text \<open>An operation of a routing tile, performed on the tile at a point.\<close>

definition at_tile :: "Point \<Rightarrow> (RoutingTile \<Rightarrow> (rm_error + 'a) \<times> RoutingTile) \<Rightarrow> ResourceMgr \<Rightarrow> (rm_error + 'a) \<times> ResourceMgr" where
  "at_tile p f M =
     (if \<not> has_tile M (pt_r p) (pt_c p) then (Inl Bad_index, M)
      else case f (tile M (pt_r p) (pt_c p)) of (x, t) \<Rightarrow> (x, put_tile (pt_r p) (pt_c p) t M))"

text \<open>The result of \<open>occupyLink\<close> is the port and the two directions, or nothing when no port is free.\<close>

definition occupyLink ::
  "Point \<Rightarrow> Point \<Rightarrow> int \<Rightarrow> ResourceMgr \<Rightarrow> (rm_error + (int \<times> PortDirection \<times> PortDirection) option) \<times> ResourceMgr"
where
  "occupyLink a b ioId M =
     (case linkAvailable a b M of
        Inl e \<Rightarrow> (Inl e, M)
      | Inr None \<Rightarrow> (Inr None, M)
      | Inr (Some portidx) \<Rightarrow>
          (case getDir a b of
             Inl e \<Rightarrow> (Inl e, M)
           | Inr d \<Rightarrow>
              (case at_tile a (rt_allocate Output portidx d ioId) M of
                 (Inl e, M1) \<Rightarrow> (Inl e, M1)
               | (Inr None, M1) \<Rightarrow> (Inr None, M1)
               | (Inr (Some _), M1) \<Rightarrow>
                  (case at_tile b (rt_allocate Input portidx (opposite d) ioId) M1 of
                     (Inl e, M2) \<Rightarrow> (Inl e, M2)
                   | (Inr None, M2) \<Rightarrow> (Inr None, M2)
                   | (Inr (Some _), M2) \<Rightarrow> (Inr (Some (portidx, d, opposite d)), M2)))))"

definition occupyPointDirection :: "Point \<Rightarrow> PortDirection \<Rightarrow> bool \<Rightarrow> ResourceMgr \<Rightarrow> (rm_error + int option) \<times> ResourceMgr" where
  "occupyPointDirection a pd slave M =
     (case portDirAvailable a pd (\<not> slave) M of
        Inl e \<Rightarrow> (Inl e, M)
      | Inr None \<Rightarrow> (Inr None, M)
      | Inr (Some portidx) \<Rightarrow> at_tile a (rt_allocate Output portidx pd 0) M)"

definition releaseLink :: "Point \<Rightarrow> Point \<Rightarrow> int \<Rightarrow> int \<Rightarrow> ResourceMgr \<Rightarrow> (rm_error + bool) \<times> ResourceMgr" where
  "releaseLink a b ioId portidx M =
     (case getDir a b of
        Inl e \<Rightarrow> (Inl e, M)
      | Inr d \<Rightarrow>
         (case at_tile a (releaseByIo Output portidx d ioId) M of
            (Inl e, M1) \<Rightarrow> (Inl e, M1)
          | (Inr r1, M1) \<Rightarrow>
             (case at_tile b (releaseByIo Input portidx (opposite d) ioId) M1 of
                (Inl e, M2) \<Rightarrow> (Inl e, M2)
              | (Inr r2, M2) \<Rightarrow> (Inr (r1 \<or> r2), M2))))"

section \<open>Free shim tiles\<close>

definition shim_candidate :: "ResourceMgr \<Rightarrow> DMADIRECTION \<Rightarrow> int \<Rightarrow> ShimTile \<Rightarrow> bool" where
  "shim_candidate M d requester t =
     (if hasPartition M \<and> \<not> isColInPartition M (sh_col t) then False
      else if requester \<ge> 0 \<and> sh_reserved t \<and> sh_reservedByIoId t \<noteq> requester then False
      else hasAnyFreeChannelForEngine d t)"

definition closer_shim ::
  "ResourceMgr \<Rightarrow> DMADIRECTION \<Rightarrow> int \<Rightarrow> int \<Rightarrow> (int \<times> int) \<times> ShimTile \<Rightarrow> ((int \<times> int) \<times> ShimTile) option \<Rightarrow> ((int \<times> int) \<times> ShimTile) option"
where
  "closer_shim M d requester dstc kv found =
     (if \<not> shim_candidate M d requester (snd kv) then found
      else case found of
             None \<Rightarrow> Some kv
           | Some old \<Rightarrow> if \<bar>sh_col (snd kv) - dstc\<bar> < \<bar>sh_col (snd old) - dstc\<bar> then Some kv else found)"

text \<open>The method is \<open>const\<close> but allocates the channel through the shared pointer to the shim tile.\<close>

definition freeShimDma ::
  "TypeBasedTileLoc option \<Rightarrow> DMADIRECTION \<Rightarrow> int \<Rightarrow> ResourceMgr \<Rightarrow> (rm_error + FoundDmaSlot option) \<times> ResourceMgr"
where
  "freeShimDma dstloc d requester M =
     (case dstloc of
        None \<Rightarrow> (Inl Bad_optional, M)
      | Some l \<Rightarrow>
         (case fold (closer_shim M d requester (pt_c (tl_loc l))) (rm_shimTiles M) None of
            None \<Rightarrow> (Inr None, M)
          | Some (k, s) \<Rightarrow>
             (case sh_allocate d (-1) requester s of
                (None, s') \<Rightarrow> (Inr None, M\<lparr>rm_shimTiles := AList.update k s' (rm_shimTiles M)\<rparr>)
              | (Some ch, s') \<Rightarrow>
                  (Inr (Some \<lparr>fd_direct = d, fd_loc = Pt 0 (sh_col s), fd_channel = ch\<rparr>),
                   M\<lparr>rm_shimTiles := AList.update k s' (rm_shimTiles M)\<rparr>))))"

text \<open>
  The scan over the network columns: \<open>best\<close> is the column found so far. Each further free port of a column repeats a
  comparison that then changes nothing, so a column counts once.
\<close>

fun noc_scan :: "ResourceMgr \<Rightarrow> Point option \<Rightarrow> u32 list \<Rightarrow> int option \<Rightarrow> rm_error + Point option" where
  "noc_scan M dst [] best = Inr (map_option (Pt 0) best)"
| "noc_scan M dst (x # xs) best =
     (let c = uint x in
      if hasPartition M \<and> \<not> isColInPartition M c then noc_scan M dst xs best
      else if \<not> has_tile M 0 c then Inl Bad_index
      else if rt_type (tile M 0 c) \<noteq> Shim then noc_scan M dst xs best
      else case rt_banks (tile M 0 c) North of
             None \<Rightarrow> Inl No_bank
           | Some b \<Rightarrow>
               if \<not> list_ex (\<lambda>p. \<not> ps_used p) (bk_slave b) then noc_scan M dst xs best
               else case dst of
                      None \<Rightarrow> Inr (Some (Pt 0 c))
                    | Some p \<Rightarrow>
                       (case best of
                          None \<Rightarrow> noc_scan M dst xs (Some c)
                        | Some o' \<Rightarrow> noc_scan M dst xs (if \<bar>c - pt_c p\<bar> < \<bar>o' - pt_c p\<bar> then Some c else best)))"

definition freeShimNoc :: "Point option \<Rightarrow> ResourceMgr \<Rightarrow> rm_error + Point option" where
  "freeShimNoc dst M = noc_scan M dst (rm_noc M) None"

definition freeShimNocLoc :: "TypeBasedTileLoc option \<Rightarrow> ResourceMgr \<Rightarrow> rm_error + Point option" where
  "freeShimNocLoc l M =
     (case l of
        None \<Rightarrow> Inr None
      | Some tloc \<Rightarrow>
          let p = tl_loc tloc;
              absrow = (\<lambda>t. p\<lparr>pt_r := uint (absTileRow (layout (rm_resource M)) t (of_int (pt_r p)))\<rparr>) in
          case ttype tloc of
            Core \<Rightarrow> freeShimNoc (Some (absrow Core)) M
          | Mem \<Rightarrow> freeShimNoc (Some (absrow Mem)) M
          | Unknown \<Rightarrow> Inr None
          | _ \<Rightarrow> freeShimNoc (Some (absrow Shim)) M)"

section \<open>The singleton\<close>

definition rm_init :: "GenResource \<Rightarrow> u32 list \<Rightarrow> int \<Rightarrow> ResourceMgr option \<Rightarrow> bool \<times> ResourceMgr option" where
  "rm_init R noc nxt st = (case st of None \<Rightarrow> (True, Some (new_ResourceMgr R noc nxt)) | Some M \<Rightarrow> (False, Some M))"

section \<open>Tile reservation\<close>

definition in_mesh :: "ResourceMgr \<Rightarrow> int \<Rightarrow> int \<Rightarrow> bool" where
  "in_mesh M r c = (\<not> (r < 0 \<or> r \<ge> rm_rows M \<or> c < 0 \<or> c \<ge> rm_cols M))"

definition isTileReserved :: "ResourceMgr \<Rightarrow> int \<Rightarrow> int \<Rightarrow> bool" where
  "isTileReserved M r c = (if \<not> in_mesh M r c then True else rt_reserved (tile M r c))"

definition addReservedTile :: "Point \<Rightarrow> DataIO \<Rightarrow> DataIO" where
  "addReservedTile p d = d\<lparr>io_reservedTiles := io_reservedTiles d @ [p]\<rparr>"

definition reserveTile :: "int \<Rightarrow> int \<Rightarrow> int \<Rightarrow> ResourceMgr \<Rightarrow> bool \<times> ResourceMgr" where
  "reserveTile r c ioId M =
     (if \<not> in_mesh M r c then (False, M)
      else if rt_reserved (tile M r c) then (False, M)
      else
        let M1 = put_tile r c (setReserved True ioId (tile M r c)) M in
        (True, case rm_dataIOMap M ioId of
                 Some d \<Rightarrow> M1\<lparr>rm_dataIOMap := (rm_dataIOMap M)(ioId \<mapsto> addReservedTile (Pt r c) d)\<rparr>
               | None \<Rightarrow> M1))"

definition unreserve_by :: "int \<Rightarrow> RoutingTile \<Rightarrow> RoutingTile" where
  "unreserve_by ioId t = (if rt_reserved t \<and> rt_reservedByIoId t = ioId then setReserved False (-1) t else t)"

definition releaseReservedTiles :: "int \<Rightarrow> ResourceMgr \<Rightarrow> ResourceMgr" where
  "releaseReservedTiles ioId M =
     (let M1 = M\<lparr>rm_tiles := map (map (unreserve_by ioId)) (rm_tiles M)\<rparr> in
      case rm_dataIOMap M ioId of
        Some d \<Rightarrow> M1\<lparr>rm_dataIOMap := (rm_dataIOMap M)(ioId \<mapsto> d\<lparr>io_reservedTiles := []\<rparr>)\<rparr>
      | None \<Rightarrow> M1)"

definition getReservedTilesForDataIo :: "int \<Rightarrow> ResourceMgr \<Rightarrow> Point list" where
  "getReservedTilesForDataIo ioId M = (case rm_dataIOMap M ioId of Some d \<Rightarrow> io_reservedTiles d | None \<Rightarrow> [])"

text \<open>
  Reservation of a run of tiles. The two branches of the code mirror each other: a line is a column or a row, a position
  in it a row or a column, and \<open>line_pt\<close> is the tile there. \<open>find_run\<close> is the scan of a line with its counter of
  consecutive available tiles and the first of them.
\<close>

fun line_pt :: "ReservationStrategy \<Rightarrow> int \<Rightarrow> int \<Rightarrow> Point" where
  "line_pt COLUMN_FIRST l p = Pt p l"
| "line_pt ROW_FIRST l p = Pt l p"

definition tile_available :: "ResourceMgr \<Rightarrow> TileType option \<Rightarrow> Point \<Rightarrow> bool" where
  "tile_available M requested p =
     (\<not> isTileReserved M (pt_r p) (pt_c p) \<and>
      (case requested of None \<Rightarrow> True | Some tt \<Rightarrow> rt_type (tile M (pt_r p) (pt_c p)) = tt))"

fun find_run :: "(int \<Rightarrow> bool) \<Rightarrow> nat \<Rightarrow> nat \<Rightarrow> int \<Rightarrow> int list \<Rightarrow> int option" where
  "find_run avail n cnt fst_avail [] = None"
| "find_run avail n cnt fst_avail (p # ps) =
     (if avail p then
        let f = (if cnt = 0 then p else fst_avail) in
        if Suc cnt = n then Some f else find_run avail n (Suc cnt) f ps
      else find_run avail n 0 fst_avail ps)"

fun reserve_seq :: "int \<Rightarrow> Point list \<Rightarrow> Point list \<Rightarrow> ResourceMgr \<Rightarrow> bool \<times> Point list \<times> ResourceMgr" where
  "reserve_seq ioId [] temp M = (True, temp, M)"
| "reserve_seq ioId (p # ps) temp M =
     (case reserveTile (pt_r p) (pt_c p) ioId M of
        (True, M') \<Rightarrow> reserve_seq ioId ps (temp @ [p]) M'
      | (False, M') \<Rightarrow> (False, temp, M'))"

definition rollback :: "Point list \<Rightarrow> ResourceMgr \<Rightarrow> ResourceMgr" where
  "rollback temp M = fold (\<lambda>p M. put_tile (pt_r p) (pt_c p) (setReserved False (-1) (tile M (pt_r p) (pt_c p))) M) temp M"

fun reserve_lines ::
  "int \<Rightarrow> nat \<Rightarrow> ReservationStrategy \<Rightarrow> TileType option \<Rightarrow> int list \<Rightarrow> int list \<Rightarrow> ResourceMgr \<Rightarrow> bool \<times> Point list \<times> ResourceMgr"
where
  "reserve_lines ioId n strategy requested [] pos M = (False, [], M)"
| "reserve_lines ioId n strategy requested (l # ls) pos M =
     (case find_run (\<lambda>p. tile_available M requested (line_pt strategy l p)) n 0 (-1) pos of
        None \<Rightarrow> reserve_lines ioId n strategy requested ls pos M
      | Some f \<Rightarrow>
         (case reserve_seq ioId (map (\<lambda>i. line_pt strategy l (f + int i)) [0..<n]) [] M of
            (True, temp, M') \<Rightarrow> (True, temp, M')
          | (False, temp, M') \<Rightarrow> reserve_lines ioId n strategy requested ls pos (rollback temp M')))"

definition upto_int :: "int \<Rightarrow> int list" where
  "upto_int n = map int [0..<nat n]"

text \<open>
  \<open>srt key xs\<close> is what \<open>std::sort\<close> makes of \<open>xs\<close> with the comparison of the keys: some ordering of \<open>xs\<close> by \<open>key\<close>, with
  elements of equal key in an order the standard does not fix.
\<close>

definition reserveTiles ::
  "((int \<Rightarrow> int) \<Rightarrow> int list \<Rightarrow> int list) \<Rightarrow> int \<Rightarrow> int \<Rightarrow> ReservationStrategy \<Rightarrow> TileType option \<Rightarrow> Point option \<Rightarrow>
     ResourceMgr \<Rightarrow> bool \<times> Point list \<times> ResourceMgr"
where
  "reserveTiles srt ioId numTiles strategy requested startPoint M =
     (if numTiles \<le> 0 then (True, [], M)
      else case rm_dataIOMap M ioId of
             None \<Rightarrow> (False, [], M)
           | Some d \<Rightarrow>
               let row = (case startPoint of Some p \<Rightarrow> pt_r p | None \<Rightarrow> io_rowpos d);
                   col = (case startPoint of Some p \<Rightarrow> pt_c p | None \<Rightarrow> io_colpos d) in
               case strategy of
                 COLUMN_FIRST \<Rightarrow>
                   reserve_lines ioId (nat numTiles) strategy requested
                     (srt (\<lambda>a. \<bar>a - col\<bar>) (filter (\<lambda>c. isTileInPartition M 0 c) (upto_int (rm_cols M))))
                     (filter (isRowInPartition M) (upto_int (rm_rows M))) M
               | ROW_FIRST \<Rightarrow>
                   reserve_lines ioId (nat numTiles) strategy requested
                     (srt (\<lambda>a. \<bar>a - row\<bar>) (filter (isRowInPartition M) (upto_int (rm_rows M))))
                     (filter (isColInPartition M) (upto_int (rm_cols M))) M)"

section \<open>Descriptors, locks and packet ids of the manager\<close>

definition mesh_op :: "'a \<Rightarrow> int \<Rightarrow> int \<Rightarrow> (RoutingTile \<Rightarrow> 'a \<times> RoutingTile) \<Rightarrow> ResourceMgr \<Rightarrow> 'a \<times> ResourceMgr" where
  "mesh_op dflt r c f M =
     (if \<not> in_mesh M r c then (dflt, M) else case f (tile M r c) of (x, t) \<Rightarrow> (x, put_tile r c t M))"

definition allocateTileBd :: "int \<Rightarrow> int \<Rightarrow> int \<Rightarrow> ResourceMgr \<Rightarrow> int option \<times> ResourceMgr" where
  "allocateTileBd r c ownerId = mesh_op None r c (allocateBd ownerId)"

definition releaseTileBd :: "int \<Rightarrow> int \<Rightarrow> int \<Rightarrow> int \<Rightarrow> ResourceMgr \<Rightarrow> bool \<times> ResourceMgr" where
  "releaseTileBd r c bdId ownerId = mesh_op False r c (releaseBd bdId ownerId)"

definition freeTileBdCount :: "int \<Rightarrow> int \<Rightarrow> ResourceMgr \<Rightarrow> nat" where
  "freeTileBdCount r c M = (if \<not> in_mesh M r c then 0 else freeBdCount (tile M r c))"

definition allocateTileLock :: "int \<Rightarrow> int \<Rightarrow> int \<Rightarrow> ResourceMgr \<Rightarrow> int option \<times> ResourceMgr" where
  "allocateTileLock r c ownerId = mesh_op None r c (allocateLock ownerId)"

definition allocateTileLockPair :: "int \<Rightarrow> int \<Rightarrow> int \<Rightarrow> ResourceMgr \<Rightarrow> (int \<times> int) option \<times> ResourceMgr" where
  "allocateTileLockPair r c ownerId = mesh_op None r c (allocateLockPair ownerId)"

definition releaseTileLock :: "int \<Rightarrow> int \<Rightarrow> int \<Rightarrow> int \<Rightarrow> ResourceMgr \<Rightarrow> bool \<times> ResourceMgr" where
  "releaseTileLock r c lockId ownerId = mesh_op False r c (releaseLock lockId ownerId)"

definition freeTileLockCount :: "int \<Rightarrow> int \<Rightarrow> ResourceMgr \<Rightarrow> nat" where
  "freeTileLockCount r c M = (if \<not> in_mesh M r c then 0 else freeLockCount (tile M r c))"

definition allocatePktId :: "int \<Rightarrow> ResourceMgr \<Rightarrow> int option \<times> ResourceMgr" where
  "allocatePktId ownerId M = (case pool_allocate 1 ownerId (rm_pktIdPool M) of (r, p) \<Rightarrow> (r, M\<lparr>rm_pktIdPool := p\<rparr>))"

definition releasePktId :: "int \<Rightarrow> int \<Rightarrow> ResourceMgr \<Rightarrow> bool \<times> ResourceMgr" where
  "releasePktId pktId ownerId M = (case pool_release pktId ownerId (rm_pktIdPool M) of (r, p) \<Rightarrow> (r, M\<lparr>rm_pktIdPool := p\<rparr>))"

definition isPktIdFree :: "int \<Rightarrow> ResourceMgr \<Rightarrow> bool" where
  "isPktIdFree pktId M = pool_free pktId (rm_pktIdPool M)"

section \<open>Control-plane reservation\<close>

definition RT_RES_VFWD_PORT :: int where "RT_RES_VFWD_PORT = 4"
definition RT_RES_VRET_PORT :: int where "RT_RES_VRET_PORT = 3"
definition RT_RES_CTRL_BD_LO :: int where "RT_RES_CTRL_BD_LO = 2"
definition RT_RES_CTRL_BD_HI :: int where "RT_RES_CTRL_BD_HI = 6"
definition RT_RES_CTRL_ACK_BD_LO :: int where "RT_RES_CTRL_ACK_BD_LO = 12"
definition RT_RES_CTRL_ACK_BD_HI :: int where "RT_RES_CTRL_ACK_BD_HI = 14"
definition RT_RES_SHIMROW_CH :: int where "RT_RES_SHIMROW_CH = 1"
definition RT_RES_SHIMROW_ACK_BD :: int where "RT_RES_SHIMROW_ACK_BD = 15"
definition RT_RES_SHIMROW_PORT :: int where "RT_RES_SHIMROW_PORT = 0"

text \<open>Steps that may throw: the error, if any, and the state at that point.\<close>

type_synonym rm_step = "ResourceMgr \<Rightarrow> rm_error option \<times> ResourceMgr"

definition rm_then :: "rm_step \<Rightarrow> rm_step \<Rightarrow> rm_step" where
  "rm_then f g M = (case f M of (Some e, M') \<Rightarrow> (Some e, M') | (None, M') \<Rightarrow> g M')"

definition rm_ok :: rm_step where
  "rm_ok M = (None, M)"

definition rm_when :: "bool \<Rightarrow> rm_step \<Rightarrow> rm_step" where
  "rm_when b f = (if b then f else rm_ok)"

primrec rm_each :: "('a \<Rightarrow> rm_step) \<Rightarrow> 'a list \<Rightarrow> rm_step" where
  "rm_each f [] = rm_ok"
| "rm_each f (x # xs) = rm_then (f x) (rm_each f xs)"

definition reserve_port :: "rm_error \<Rightarrow> int \<Rightarrow> int \<Rightarrow> PortDirection \<Rightarrow> PortRole \<Rightarrow> int \<Rightarrow> rm_step" where
  "reserve_port e r c d role portNum M =
     (case reservePortNumber d role portNum kControlPlaneOwner (tile M r c) of
        (True, t) \<Rightarrow> (None, put_tile r c t M)
      | (False, t) \<Rightarrow> (Some e, put_tile r c t M))"

text \<open>The reservation of the hardware port behind an index of the south bank.\<close>

definition reserve_south :: "rm_error \<Rightarrow> int \<Rightarrow> int \<Rightarrow> PortRole \<Rightarrow> int \<Rightarrow> rm_step" where
  "reserve_south e r c role idx M =
     (case getPortnumFromPortIdx South role idx (tile M r c) of
        (Inl x, t) \<Rightarrow> (Some x, put_tile r c t M)
      | (Inr n, t) \<Rightarrow> reserve_port e r c South role n (put_tile r c t M))"

definition reserve_pkt :: "u32 \<Rightarrow> nat \<Rightarrow> rm_step" where
  "reserve_pkt pmask i M =
     (if bit pmask i then
        (if sl_used (rm_pktIdPool M ! i) \<and> sl_ownerId (rm_pktIdPool M ! i) \<noteq> kControlPlaneOwner then (Some Pkt_conflict, M)
         else (None, M\<lparr>rm_pktIdPool := (rm_pktIdPool M)[i := slot_taken kControlPlaneOwner]\<rparr>))
      else (None, M))"

definition reserve_masks :: "rt_res_gen \<Rightarrow> rm_step" where
  "reserve_masks gen M =
     (None, M\<lparr>rm_arbiterMask := res_reserved_arbiter_mask gen,
              rm_slotMask := map (\<lambda>p. (res_reserved_slot_mask gen (of_nat p) 0, res_reserved_slot_mask gen (of_nat p) 1)) [0..<kNumPortTypes]\<rparr>)"

text \<open>The two channels of the shim tile of the spine column, both or an error.\<close>

definition reserve_dma :: "rm_error \<Rightarrow> rm_error \<Rightarrow> int \<Rightarrow> int \<Rightarrow> int \<Rightarrow> rm_step" where
  "reserve_dma missing conflict col ch1 ch2 M =
     (case map_of (rm_shimTiles M) (0, col) of
        None \<Rightarrow> (Some missing, M)
      | Some s \<Rightarrow>
         (case sh_allocate MM2S ch1 kControlPlaneOwner s of
            (None, s1) \<Rightarrow> (Some conflict, M\<lparr>rm_shimTiles := AList.update (0, col) s1 (rm_shimTiles M)\<rparr>)
          | (Some _, s1) \<Rightarrow>
             (case sh_allocate S2MM ch2 kControlPlaneOwner s1 of
                (r, s2) \<Rightarrow> (if r = None then Some conflict else None,
                             M\<lparr>rm_shimTiles := AList.update (0, col) s2 (rm_shimTiles M)\<rparr>))))"

definition reserve_core_tile :: "int \<times> int \<Rightarrow> rm_step" where
  "reserve_core_tile rc M =
     (case rc of (r, c) \<Rightarrow>
        if \<not> isTileInPartition M r c then (None, M)
        else if rt_type (tile M r c) \<noteq> Core then (None, M)
        else rm_each (\<lambda>(d, role). reserve_port Port_conflict r c d role 0)
               [(West, Master), (West, Slave), (East, Master), (East, Slave)] M)"

definition reserve_spine_tile :: "int \<Rightarrow> int \<Rightarrow> rm_step" where
  "reserve_spine_tile spineCol row M =
     (if \<not> isTileInPartition M row spineCol then (None, M)
      else if \<not> has_tile M row spineCol then (Some Bad_index, M)
      else rm_then (reserve_port Spine_port_conflict row spineCol North Master RT_RES_VFWD_PORT)
          (rm_then (reserve_port Spine_port_conflict row spineCol North Slave RT_RES_VRET_PORT)
          (if row \<noteq> 0 then
             rm_then (reserve_port Spine_port_conflict row spineCol South Slave RT_RES_VFWD_PORT)
                     (reserve_port Spine_port_conflict row spineCol South Master RT_RES_VRET_PORT)
           else rm_when (cp_exclusive (rm_ctrlPlacement M))
             (rm_then (reserve_south Spine_port_conflict row spineCol Master (cp_mm2sCh (rm_ctrlPlacement M)))
                      (reserve_south Spine_port_conflict row spineCol Slave (cp_s2mmCh (rm_ctrlPlacement M)))))) M)"

definition reserveControlSpinePorts :: "int \<Rightarrow> rm_step" where
  "reserveControlSpinePorts spineCol M = rm_each (reserve_spine_tile spineCol) (upto_int (rm_rows M)) M"

definition reserve_row_tile :: "int \<Rightarrow> rm_step" where
  "reserve_row_tile col M =
     (if \<not> isTileInPartition M 0 col then (None, M)
      else rm_each (\<lambda>(d, role). reserve_port Row_port_conflict 0 col d role RT_RES_SHIMROW_PORT)
             [(West, Master), (West, Slave), (East, Master), (East, Slave)] M)"

definition reserve_row_spine :: "int \<Rightarrow> rm_step" where
  "reserve_row_spine spineCol M =
     (if \<not> isTileInPartition M 0 spineCol then (None, M)
      else if \<not> has_tile M 0 spineCol then (Some Bad_index, M)
      else rm_then (reserve_south Row_port_conflict 0 spineCol Master RT_RES_SHIMROW_CH)
          (rm_then (reserve_south Row_port_conflict 0 spineCol Slave RT_RES_SHIMROW_CH)
          (rm_each (\<lambda>role. reserve_port Row_port_conflict 0 spineCol East role RT_RES_SHIMROW_PORT) [Master, Slave])) M)"

definition reserveShimRowControl :: "int \<Rightarrow> rm_step" where
  "reserveShimRowControl spineCol M =
     rm_then (reserve_dma No_row_dma Row_dma_conflict spineCol RT_RES_SHIMROW_CH RT_RES_SHIMROW_CH)
       (rm_then (reserve_row_spine spineCol)
         (rm_each reserve_row_tile (filter (\<lambda>c. c > spineCol) (upto_int (rm_cols M))))) M"

definition spine_col :: "ResourceMgr \<Rightarrow> int" where
  "spine_col M =
     (if cp_col (rm_ctrlPlacement M) \<ge> 0 then cp_col (rm_ctrlPlacement M) else if hasPartition M then rm_startCol M else 0)"

definition mesh_points :: "ResourceMgr \<Rightarrow> (int \<times> int) list" where
  "mesh_points M = List.product (upto_int (rm_rows M)) (upto_int (rm_cols M))"

definition reserveControlPlaneResources :: "rt_res_gen \<Rightarrow> rm_step" where
  "reserveControlPlaneResources gen M =
     (if rm_controlReserved M then (None, M)
      else
        let cp = rm_ctrlPlacement M; spineCol = spine_col M in
        rm_then (rm_each (reserve_pkt (res_reserved_pktid_mask gen)) [0..<kMaxPktId])
          (rm_then (reserve_masks gen)
          (rm_then (rm_when (cp_exclusive cp) (reserve_dma No_spine_dma Spine_dma_conflict spineCol (cp_mm2sCh cp) (cp_s2mmCh cp)))
          (rm_then (rm_each reserve_core_tile (mesh_points M))
          (rm_then (reserveControlSpinePorts spineCol)
          (rm_then (rm_when (cp_exclusive cp \<and> cp_shimRow cp) (reserveShimRowControl spineCol))
             (\<lambda>M. (None, M\<lparr>rm_controlReserved := True\<rparr>))))))) M)"

definition setControlPlacement :: "ControlShimPlacement \<Rightarrow> ResourceMgr \<Rightarrow> ResourceMgr" where
  "setControlPlacement p M = M\<lparr>rm_ctrlPlacement := p\<rparr>"

definition findFreeControlChannels :: "int \<Rightarrow> ResourceMgr \<Rightarrow> ControlShimPlacement option" where
  "findFreeControlChannels col M =
     (case map_of (rm_shimTiles M) (0, col) of
        None \<Rightarrow> None
      | Some s \<Rightarrow>
          let mm2s = freeChannels MM2S s; s2mm = freeChannels S2MM s in
          if mm2s = [] \<or> s2mm = [] then None
          else Some (ControlShimPlacement0\<lparr>cp_col := col, cp_mm2sCh := last mm2s, cp_s2mmCh := last s2mm, cp_exclusive := True\<rparr>))"

definition ctrl_bds :: "bool \<Rightarrow> int list" where
  "ctrl_bds shimRow =
     [RT_RES_CTRL_BD_LO..RT_RES_CTRL_BD_HI] @ [RT_RES_CTRL_ACK_BD_LO..RT_RES_CTRL_ACK_BD_HI] @
     (if shimRow then [int RT_RES_SHIMROW_BD_LO..int RT_RES_SHIMROW_BD_HI] @ [RT_RES_SHIMROW_ACK_BD] else [])"

definition reserveControlShimBds :: "int \<Rightarrow> bool \<Rightarrow> ResourceMgr \<Rightarrow> bool \<times> ResourceMgr" where
  "reserveControlShimBds col shimRow M =
     (if col < 0 \<or> col \<ge> rm_cols M then (False, M)
      else case fold (\<lambda>bd (ok, t). case reserveBd bd kControlPlaneOwner t of (r, t') \<Rightarrow> (ok \<and> r, t')) (ctrl_bds shimRow) (True, tile M 0 col) of
             (ok, t) \<Rightarrow> (ok, put_tile 0 col t M))"

definition reservedSlotMask :: "u8 \<Rightarrow> u8 \<Rightarrow> ResourceMgr \<Rightarrow> u32" where
  "reservedSlotMask p is_master M =
     (if unat p \<ge> kNumPortTypes \<or> is_master > 1 then 0
      else let m = rm_slotMask M ! unat p in if is_master = 0 then fst m else snd m)"

definition dataPlanePktArbiter :: "ResourceMgr \<Rightarrow> nat option" where
  "dataPlanePktArbiter M = List.find (\<lambda>a. \<not> bit (rm_arbiterMask M) a) [0..<8]"

definition free_slave_slot :: "u8 \<Rightarrow> ResourceMgr \<Rightarrow> nat option" where
  "free_slave_slot resourcePort M = List.find (\<lambda>s. \<not> bit (reservedSlotMask resourcePort 0 M) s) [0..<RT_RES_NUM_SLOTS]"

definition dataPlanePktSlaveSlot :: "PortDirection \<Rightarrow> ResourceMgr \<Rightarrow> nat option" where
  "dataPlanePktSlaveSlot d M =
     (case d of
        West \<Rightarrow> free_slave_slot RT_RES_PORT_WEST M
      | East \<Rightarrow> free_slave_slot RT_RES_PORT_EAST M
      | North \<Rightarrow> free_slave_slot RT_RES_PORT_NORTH M
      | South \<Rightarrow> free_slave_slot RT_RES_PORT_SOUTH M
      | Control \<Rightarrow> free_slave_slot RT_RES_PORT_CTRL M
      | _ \<Rightarrow> Some 0)"

end
