(* ===== verification/ResourceLinks.thy ===== *)
theory ResourceLinks
  imports ResourceManager
begin

text \<open>
  Links between neighbouring tiles: what \<open>occupyLink\<close> claims, that it claims both ends or none, and that \<open>releaseLink\<close>
  does not give back what \<open>occupyLink\<close> claimed.
\<close>

text \<open>A mesh of two tiles, one above the other, with one port in each direction of the link between them.\<close>

definition sample_tile :: "int \<Rightarrow> TileType \<Rightarrow> PortDirection \<Rightarrow> RoutingTile" where
  "sample_tile r tt d = new_RoutingTile r 0 tt [PortTemplate d Master 1 [], PortTemplate d Slave 1 []] 2 2"

definition sample_mgr :: ResourceMgr where
  "sample_mgr = (new_ResourceMgr \<lparr>hw_gen = G5, layout = PALMYRA\<lparr>rows := 0\<rparr>, variant = ''PALMYRA''\<rparr> [] 0)
     \<lparr>rm_tiles := [[sample_tile 0 Shim North], [sample_tile 1 Mem South]]\<rparr>"

text \<open>The port slot with index \<open>k\<close> of a role in a direction of the tile at a point.\<close>

definition port_at :: "ResourceMgr \<Rightarrow> Point \<Rightarrow> PortDirection \<Rightarrow> PortRole \<Rightarrow> int \<Rightarrow> PortSlot option" where
  "port_at M p d role k =
     (if \<not> has_tile M (pt_r p) (pt_c p) then None
      else case rt_banks (tile M (pt_r p) (pt_c p)) d of
             None \<Rightarrow> None
           | Some b \<Rightarrow> if 0 \<le> k \<and> k < int (length (ports_of role b)) then Some (ports_of role b ! nat k) else None)"

definition claimed :: "int \<Rightarrow> PortSlot \<Rightarrow> PortSlot" where
  "claimed ioId s = s\<lparr>ps_used := True, ps_invalid := False, ps_ioId := ioId\<rparr>"

text \<open>What an occupied link looks like: the two ports were free, are now claimed by the flow, and no other port changed.\<close>

definition link_claimed :: "ResourceMgr \<Rightarrow> Point \<Rightarrow> Point \<Rightarrow> PortDirection \<Rightarrow> int \<Rightarrow> int \<Rightarrow> ResourceMgr \<Rightarrow> bool" where
  "link_claimed M a b d k ioId M' =
     (\<exists>s t. port_at M a d Slave k = Some s \<and> \<not> ps_used s \<and> port_at M b (opposite d) Master k = Some t \<and> \<not> ps_used t \<and>
        port_at M' = (\<lambda>q e role j. if q = a \<and> e = d \<and> role = Slave \<and> j = k then Some (claimed ioId s)
          else if q = b \<and> e = opposite d \<and> role = Master \<and> j = k then Some (claimed ioId t) else port_at M q e role j))"

section \<open>Ports of the mesh\<close>

lemma has_tile_put [simp]: "has_tile (put_tile r c t M) r' c' = has_tile M r' c'"
  by (cases "nat r = nat r'"; cases "nat r' < length (rm_tiles M)") (auto simp: has_tile_def put_tile_def nth_list_update)

lemma tile_put:
  "has_tile M r c \<Longrightarrow> has_tile M r' c' \<Longrightarrow> tile (put_tile r c t M) r' c' = (if r' = r \<and> c' = c then t else tile M r' c')"
  by (auto simp: has_tile_def put_tile_def tile_def nth_list_update)

lemma put_tile_same [simp]: "put_tile r c (tile M r c) M = M"
  by (simp add: put_tile_def tile_def)

lemma ports_of_set [simp]: "ports_of role (set_ports role' v b) = (if role' = role then v else ports_of role b)"
  by (cases role; cases role') auto

lemma getDir_neq: "getDir a b = Inr d \<Longrightarrow> a \<noteq> b"
  by (auto simp: getDir_def split: if_splits)

lemma getDir_cases: "getDir a b = Inr d \<Longrightarrow> d \<in> {North, South, East, West}"
  by (auto simp: getDir_def split: if_splits)

lemma rt_allocate_port:
  assumes "port_at M p d (io_bank io) k = Some s" "\<not> ps_used s"
  shows "\<exists>M'. at_tile p (rt_allocate io k d ioId) M = (Inr (Some k), M') \<and>
     port_at M' = (\<lambda>q e role j. if q = p \<and> e = d \<and> role = io_bank io \<and> j = k then Some (claimed ioId s) else port_at M q e role j)"
proof -
  obtain b where b: "has_tile M (pt_r p) (pt_c p)" "rt_banks (tile M (pt_r p) (pt_c p)) d = Some b"
      "0 \<le> k" "k < int (length (ports_of (io_bank io) b))" "s = ports_of (io_bank io) b ! nat k"
    using assms(1) by (auto simp: port_at_def split: if_splits option.splits)
  let ?t = "tile M (pt_r p) (pt_c p)" and ?v = "ports_of (io_bank io) b"
  let ?t' = "?t\<lparr>rt_banks := put_ports d (io_bank io) (?v[nat k := claimed ioId s]) (rt_banks ?t)\<rparr>"
  have "rt_allocate io k d ioId ?t = (Inr (Some k), ?t')"
    using b assms(2) by (simp add: rt_allocate_def get_ports_def bank_of_def claimed_def Let_def)
  then have "at_tile p (rt_allocate io k d ioId) M = (Inr (Some k), put_tile (pt_r p) (pt_c p) ?t' M)"
    using b(1) by (simp add: at_tile_def)
  moreover have "port_at (put_tile (pt_r p) (pt_c p) ?t' M) q e role j =
      (if q = p \<and> e = d \<and> role = io_bank io \<and> j = k then Some (claimed ioId s) else port_at M q e role j)" for q e role j
  proof (cases "pt_r q = pt_r p \<and> pt_c q = pt_c p")
    case True
    then have "q = p" by (cases q, cases p) simp
    then show ?thesis
      using b by (auto simp: port_at_def tile_put put_ports_def bank_of_def nth_list_update split: option.splits)
  next
    case False
    then show ?thesis using b by (auto simp: port_at_def tile_put)
  qed
  ultimately show ?thesis by blast
qed

lemma linkAvailable_Some:
  assumes "linkAvailable a b M = Inr (Some k)" "getDir a b = Inr d"
  shows "\<exists>s. port_at M a d Slave k = Some s \<and> \<not> ps_used s" "\<exists>s. port_at M b (opposite d) Master k = Some s \<and> \<not> ps_used s"
    "\<forall>s. port_at M a d Master k = Some s \<longrightarrow> \<not> ps_used s" "\<forall>s. port_at M b (opposite d) Slave k = Some s \<longrightarrow> \<not> ps_used s"
proof -
  obtain ba bb n where n: "tile_bank M a d = Inr ba" "tile_bank M b (opposite d) = Inr bb" "k = int n"
      "n < length (bk_slave ba)" "n < length (bk_master bb)" "\<not> ps_used (bk_slave ba ! n)" "\<not> ps_used (bk_master bb ! n)"
      "\<not> port_used (bk_master ba) n" "\<not> port_used (bk_slave bb) n"
    using assms by (auto simp: linkAvailable_def find_Some_iff split: sum.splits)
  then have "has_tile M (pt_r a) (pt_c a)" "rt_banks (tile M (pt_r a) (pt_c a)) d = Some ba"
      "has_tile M (pt_r b) (pt_c b)" "rt_banks (tile M (pt_r b) (pt_c b)) (opposite d) = Some bb"
    by (auto simp: tile_bank_def split: if_splits option.splits)
  with n show "\<exists>s. port_at M a d Slave k = Some s \<and> \<not> ps_used s" "\<exists>s. port_at M b (opposite d) Master k = Some s \<and> \<not> ps_used s"
    "\<forall>s. port_at M a d Master k = Some s \<longrightarrow> \<not> ps_used s" "\<forall>s. port_at M b (opposite d) Slave k = Some s \<longrightarrow> \<not> ps_used s"
    by (auto simp: port_at_def port_used_def)
qed

lemma occupyLink_available:
  assumes "linkAvailable a b M = Inr (Some k)" "getDir a b = Inr d"
  shows "\<exists>M'. occupyLink a b ioId M = (Inr (Some (k, d, opposite d)), M') \<and> link_claimed M a b d k ioId M'"
proof -
  obtain s where s: "port_at M a d (io_bank Output) k = Some s" "\<not> ps_used s" using linkAvailable_Some(1) [OF assms] by auto
  obtain t where t: "port_at M b (opposite d) Master k = Some t" "\<not> ps_used t" using linkAvailable_Some(2) [OF assms] by auto
  obtain M1 where 1: "at_tile a (rt_allocate Output k d ioId) M = (Inr (Some k), M1)"
      "port_at M1 = (\<lambda>q e role j. if q = a \<and> e = d \<and> role = io_bank Output \<and> j = k then Some (claimed ioId s) else port_at M q e role j)"
    using rt_allocate_port [OF s] by blast
  have "port_at M1 b (opposite d) (io_bank Input) k = Some t" using t(1) getDir_neq [OF assms(2)] by (simp add: 1(2))
  from rt_allocate_port [OF this t(2)] obtain M2 where 2: "at_tile b (rt_allocate Input k (opposite d) ioId) M1 = (Inr (Some k), M2)"
      "port_at M2 = (\<lambda>q e role j. if q = b \<and> e = opposite d \<and> role = io_bank Input \<and> j = k then Some (claimed ioId t) else port_at M1 q e role j)"
    by blast
  have "link_claimed M a b d k ioId M2" unfolding link_claimed_def 2(2) 1(2) using s t getDir_neq [OF assms(2)] by (intro exI [of _ s] exI [of _ t]) (auto simp: fun_eq_iff)
  then show ?thesis using 1(1) 2(1) by (simp add: occupyLink_def assms)
qed

text \<open>
  C30. A link is claimed at both ends or not at all: when \<open>occupyLink\<close> succeeds, the slave port of the sending tile and the
  master port of the receiving tile with the returned index were free and now belong to the flow, and no other port of
  the mesh has changed; otherwise nothing has changed.
\<close>

theorem occupyLink_atomic:
  "case occupyLink a b ioId M of
     (Inr (Some (k, d, d')), M') \<Rightarrow> getDir a b = Inr d \<and> d' = opposite d \<and> link_claimed M a b d k ioId M'
   | (_, M') \<Rightarrow> M' = M"
proof (cases "\<exists>k. linkAvailable a b M = Inr (Some k)")
  case True
  then obtain k where "linkAvailable a b M = Inr (Some k)" by blast
  moreover from this obtain d where "getDir a b = Inr d" by (cases "getDir a b") (auto simp: linkAvailable_def)
  ultimately have k: "linkAvailable a b M = Inr (Some k)" "getDir a b = Inr d" by simp_all
  from occupyLink_available [OF k, of ioId] k show ?thesis by auto
next
  case False
  then show ?thesis by (auto simp: occupyLink_def split: sum.splits option.splits)
qed

lemma releaseByIo_unused:
  assumes "\<forall>s. port_at M p d (release_bank io) k = Some s \<longrightarrow> \<not> ps_used s" "has_tile M (pt_r p) (pt_c p)"
    "rt_banks (tile M (pt_r p) (pt_c p)) d \<noteq> None"
  shows "at_tile p (releaseByIo io k d ioId) M \<in> {(Inl Bad_index, M), (Inr False, M)}"
  using assms by (auto simp: at_tile_def releaseByIo_def port_at_def get_ports_def bank_of_def Let_def not_le split: option.splits if_splits)

text \<open>
  C33. \<open>releaseLink\<close> does not release a link: right after \<open>occupyLink\<close> has claimed a link for a flow, releasing it for
  the same flow and port leaves the manager as it is and does not report success.
\<close>

theorem releaseLink_leaks:
  assumes "occupyLink a b ioId M = (Inr (Some (k, d, d')), M')"
  shows "snd (releaseLink a b ioId k M') = M' \<and> fst (releaseLink a b ioId k M') \<noteq> Inr True"
proof -
  obtain l where "linkAvailable a b M = Inr (Some l)" using assms by (auto simp: occupyLink_def split: sum.splits option.splits)
  moreover obtain d0 where d0: "getDir a b = Inr d0" using assms by (auto simp: occupyLink_def split: sum.splits option.splits)
  ultimately have l: "linkAvailable a b M = Inr (Some k)" "d0 = d" "link_claimed M a b d k ioId M'"
    using occupyLink_available [of a b M l d0 ioId] assms by auto
  note g = d0 [unfolded l(2)]
  have p: "port_at M' a d Master k = port_at M a d Master k" "port_at M' b (opposite d) Slave k = port_at M b (opposite d) Slave k"
    "port_at M' a d Slave k \<noteq> None" "port_at M' b (opposite d) Master k \<noteq> None"
    using l(3) getDir_neq [OF g] by (auto simp: link_claimed_def)
  have "has_tile M' (pt_r q) (pt_c q) \<and> rt_banks (tile M' (pt_r q) (pt_c q)) e \<noteq> None" if "port_at M' q e role k \<noteq> None" for q e role
    using that by (auto simp: port_at_def split: if_splits option.splits)
  note h = this [OF p(3)] this [OF p(4)]
  have "at_tile a (releaseByIo Output k d ioId) M' \<in> {(Inl Bad_index, M'), (Inr False, M')}"
    by (rule releaseByIo_unused) (use linkAvailable_Some(3) [OF l(1) g] p(1) h(1) in auto)
  moreover have "at_tile b (releaseByIo Input k (opposite d) ioId) M' \<in> {(Inl Bad_index, M'), (Inr False, M')}"
    by (rule releaseByIo_unused) (use linkAvailable_Some(4) [OF l(1) g] p(2) h(2) in auto)
  ultimately show ?thesis by (auto simp: releaseLink_def g split: sum.splits prod.splits)
qed

lemma sample_occupied:
  "\<exists>M'. occupyLink (Pt 0 0) (Pt 1 0) 5 sample_mgr = (Inr (Some (0, North, South)), M')"
proof -
  have d: "getDir (Pt 0 0) (Pt 1 0) = Inr North" by (simp add: getDir_def)
  have "linkAvailable (Pt 0 0) (Pt 1 0) sample_mgr = Inr (Some 0)"
    by (simp add: linkAvailable_def d tile_bank_def has_tile_def tile_def sample_mgr_def sample_tile_def new_RoutingTile_def
        add_template_def put_ports_def get_ports_def bank_of_def number_ports_def resize_def DirBank0_def PortSlot0_def port_used_def)
  from occupyLink_available [OF this d, of 5] show ?thesis by auto
qed

theorem releaseLink_leaks_witness:
  "\<exists>M'. occupyLink (Pt 0 0) (Pt 1 0) 5 sample_mgr = (Inr (Some (0, North, South)), M') \<and>
     snd (releaseLink (Pt 0 0) (Pt 1 0) 5 0 M') = M'"
proof -
  obtain M' where m: "occupyLink (Pt 0 0) (Pt 1 0) 5 sample_mgr = (Inr (Some (0, North, South)), M')"
    using sample_occupied by blast
  from releaseLink_leaks [OF m] m show ?thesis by blast
qed

end
