(* ===== verification/ResourceTiles.thy ===== *)
theory ResourceTiles
  imports ResourceLinks "HOL-Library.Multiset"
begin

text \<open>
  Reservation of tiles: the mesh invariant, the scan for a run of adjacent free tiles, and what \<open>reserveTiles\<close> takes, in
  both strategies.
\<close>

text \<open>The tiles of the manager are the mesh of its device.\<close>

definition mesh_wf :: "ResourceMgr \<Rightarrow> bool" where
  "mesh_wf M = (int (length (rm_tiles M)) = rm_rows M \<and> list_all (\<lambda>ts. int (length ts) = rm_cols M) (rm_tiles M))"

text \<open>The state after the reservation of tiles for a flow.\<close>

definition reserved_for :: "int \<Rightarrow> Point list \<Rightarrow> ResourceMgr \<Rightarrow> ResourceMgr \<Rightarrow> bool" where
  "reserved_for ioId pts M M' =
     ((\<forall>r c. in_mesh M r c \<longrightarrow> tile M' r c = (if Pt r c \<in> set pts then setReserved True ioId (tile M r c) else tile M r c)) \<and>
      getReservedTilesForDataIo ioId M' = getReservedTilesForDataIo ioId M @ pts)"

text \<open>A run of \<open>n\<close> available tiles on line \<open>l\<close> from position \<open>f\<close> on, within the given positions.\<close>

definition run_at :: "ResourceMgr \<Rightarrow> ReservationStrategy \<Rightarrow> TileType option \<Rightarrow> int list \<Rightarrow> nat \<Rightarrow> int \<Rightarrow> int \<Rightarrow> bool" where
  "run_at M strategy requested pos n l f = (\<forall>i<n. f + int i \<in> set pos \<and> tile_available M requested (line_pt strategy l (f + int i)))"

definition res_lines :: "ReservationStrategy \<Rightarrow> ResourceMgr \<Rightarrow> int list" where
  "res_lines strategy M =
     (case strategy of COLUMN_FIRST \<Rightarrow> filter (\<lambda>c. isTileInPartition M 0 c) (upto_int (rm_cols M))
      | ROW_FIRST \<Rightarrow> filter (isRowInPartition M) (upto_int (rm_rows M)))"

definition res_positions :: "ReservationStrategy \<Rightarrow> ResourceMgr \<Rightarrow> int list" where
  "res_positions strategy M =
     (case strategy of COLUMN_FIRST \<Rightarrow> filter (isRowInPartition M) (upto_int (rm_rows M))
      | ROW_FIRST \<Rightarrow> filter (isColInPartition M) (upto_int (rm_cols M)))"

text \<open>The first line of a list that has a run.\<close>

definition took_run ::
  "ResourceMgr \<Rightarrow> int \<Rightarrow> ReservationStrategy \<Rightarrow> TileType option \<Rightarrow> int list \<Rightarrow> nat \<Rightarrow> int list \<Rightarrow> Point list \<Rightarrow> ResourceMgr \<Rightarrow> bool"
where
  "took_run M ioId strategy requested pos n ls pts M' =
     (\<exists>ls1 l ls2 f. ls = ls1 @ l # ls2 \<and> (\<forall>l'\<in>set ls1. \<forall>f. \<not> run_at M strategy requested pos n l' f) \<and>
       run_at M strategy requested pos n l f \<and> pts = map (\<lambda>i. line_pt strategy l (f + int i)) [0..<n] \<and> reserved_for ioId pts M M')"

text \<open>What the code may rely on for \<open>std::sort\<close>: a permutation, ordered by the key.\<close>

definition is_std_sort :: "((int \<Rightarrow> int) \<Rightarrow> int list \<Rightarrow> int list) \<Rightarrow> bool" where
  "is_std_sort srt = (\<forall>key xs. mset (srt key xs) = mset xs \<and> sorted (map key (srt key xs)))"

definition res_origin :: "ReservationStrategy \<Rightarrow> Point option \<Rightarrow> DataIO \<Rightarrow> int" where
  "res_origin strategy startPoint d =
     (case strategy of COLUMN_FIRST \<Rightarrow> (case startPoint of Some p \<Rightarrow> pt_c p | None \<Rightarrow> io_colpos d)
      | ROW_FIRST \<Rightarrow> (case startPoint of Some p \<Rightarrow> pt_r p | None \<Rightarrow> io_rowpos d))"

text \<open>A free mesh with two rows and one column, and a flow.\<close>

definition sample_mesh :: ResourceMgr where
  "sample_mesh = (new_ResourceMgr \<lparr>hw_gen = G5, layout = PALMYRA\<lparr>rows := 2, columns := 1\<rparr>, variant = ''PALMYRA''\<rparr> [] 0)
     \<lparr>rm_dataIOMap := [5 \<mapsto> new_DataIO 5 Input 0 0 MM2S 0 [] []]\<rparr>"

section \<open>The mesh\<close>

lemma in_mesh_has_tile: "mesh_wf M \<Longrightarrow> in_mesh M r c \<Longrightarrow> has_tile M r c"
  by (auto simp: mesh_wf_def in_mesh_def has_tile_def list_all_iff not_le not_less dest!: bspec [of _ _ "rm_tiles M ! nat r"])

lemma mesh_put [simp]: "rm_rows (put_tile r c t M) = rm_rows M" "rm_cols (put_tile r c t M) = rm_cols M"
  "rm_dataIOMap (put_tile r c t M) = rm_dataIOMap M"
  by (simp_all add: put_tile_def rm_rows_def rm_cols_def)

lemma mesh_wf_put [simp]:
  assumes "mesh_wf M"
  shows "mesh_wf (put_tile r c t M)"
proof -
  have "list_all (\<lambda>ts. int (length ts) = rm_cols M) ((rm_tiles M)[nat r := (rm_tiles M ! nat r)[nat c := t]])"
    using assms by (cases "nat r < length (rm_tiles M)")
      (auto simp: mesh_wf_def list_all_iff list_update_beyond dest!: subsetD [OF set_update_subset_insert])
  then show ?thesis using assms by (simp add: mesh_wf_def) (simp add: put_tile_def rm_rows_def rm_cols_def)
qed

lemma new_ResourceMgr_wf: "mesh_wf (new_ResourceMgr R noc nxt)"
  by (auto simp: mesh_wf_def new_ResourceMgr_def rm_rows_def rm_cols_def list_all_iff)

section \<open>The scan of a line\<close>

lemma upto_int_eq: "upto_int n = [0..n - 1]"
proof (rule sorted_distinct_set_unique)
  have "x \<in> int ` {0..<nat n}" if "0 \<le> x" "x \<le> n - 1" for x using that by (intro image_eqI [of _ _ "nat x"]) auto
  then show "set (upto_int n) = set [0..n - 1]" by (auto simp: upto_int_def)
qed (auto simp: upto_int_def sorted_map distinct_map sorted_wrt_map)

lemma upto_filter: "filter (\<lambda>x. a \<le> x \<and> x \<le> b) [i..j] = [max i a..min b j]" for i :: int
  by (rule sorted_distinct_set_unique) (auto simp: sorted_wrt_filter)

lemma find_run_Some:
  assumes "find_run avail n cnt f [p..q] = Some g" "cnt < n" "cnt \<noteq> 0 \<longrightarrow> f = p - int cnt" "\<forall>i<cnt. avail (p - int cnt + int i)"
  shows "p - int cnt \<le> g \<and> g + int n - 1 \<le> q \<and> (\<forall>i<n. avail (g + int i))"
  using assms
proof (induction p q arbitrary: cnt f rule: upto.induct)
  case (1 p q)
  show ?case
  proof (cases "p \<le> q")
    case True
    show ?thesis
    proof (cases "avail p")
      case a: True
      let ?f = "if cnt = 0 then p else f"
      have f: "?f = p - int cnt" using "1.prems"(3) by auto
      have run: "\<forall>i<Suc cnt. avail (p - int cnt + int i)" using "1.prems"(4) a by (auto simp: less_Suc_eq)
      show ?thesis
      proof (cases "Suc cnt = n")
        case True
        then have "g = p - int cnt" using "1.prems"(1) a f \<open>p \<le> q\<close> by (simp add: upto_rec1 Let_def split: if_splits)
        then show ?thesis using run True \<open>p \<le> q\<close> by auto
      next
        case False
        then have "find_run avail n (Suc cnt) ?f [p + 1..q] = Some g" using "1.prems"(1) a \<open>p \<le> q\<close> by (simp add: upto_rec1 Let_def)
        from "1.IH" [OF \<open>p \<le> q\<close> this] show ?thesis using "1.prems"(2) False f run by auto
      qed
    next
      case False
      then have "find_run avail n 0 f [p + 1..q] = Some g" using "1.prems"(1) \<open>p \<le> q\<close> by (simp add: upto_rec1)
      from "1.IH" [OF \<open>p \<le> q\<close> this] show ?thesis using "1.prems"(2) by auto
    qed
  qed (use "1.prems"(1) in simp)
qed

lemma find_run_None:
  assumes "find_run avail n cnt f [p..q] = None" "cnt < n" "p - int cnt \<le> g" "g + int n - 1 \<le> q"
  shows "\<exists>i<n. \<not> avail (g + int i)"
  using assms
proof (induction p q arbitrary: cnt f rule: upto.induct)
  case (1 p q)
  show ?case
  proof (cases "p \<le> q")
    case True
    show ?thesis
    proof (cases "avail p")
      case a: True
      have n: "Suc cnt \<noteq> n" using "1.prems"(1) a True by (auto simp: upto_rec1 Let_def split: if_splits)
      then have "find_run avail n (Suc cnt) (if cnt = 0 then p else f) [p + 1..q] = None" using "1.prems"(1) a True by (simp add: upto_rec1 Let_def)
      from "1.IH" [OF True this] show ?thesis using "1.prems" n by auto
    next
      case np: False
      then have *: "find_run avail n 0 f [p + 1..q] = None" using "1.prems"(1) True by (simp add: upto_rec1)
      show ?thesis
      proof (cases "p < g")
        case True
        from "1.IH" [OF \<open>p \<le> q\<close> *] show ?thesis using "1.prems" True by auto
      next
        case False
        then have "p = g + int (nat (p - g))" "nat (p - g) < n" using "1.prems"(2,3) by auto
        then show ?thesis using np by metis
      qed
    qed
  next
    case False
    then show ?thesis using "1.prems" by auto
  qed
qed

lemma res_positions_interval: "\<exists>p q. res_positions strategy M = [p..q]"
proof -
  have r: "\<exists>p q. filter (isRowInPartition M) (upto_int n) = [p..q]" for n
  proof (cases "\<not> hasPartition M \<or> rm_startRow M < 0")
    case True
    then have "isRowInPartition M = (\<lambda>_. True)" by (auto simp: isRowInPartition_def fun_eq_iff)
    then show ?thesis by (auto simp: upto_int_eq)
  next
    case False
    then have "isRowInPartition M = (\<lambda>x. rm_startRow M \<le> x \<and> x \<le> rm_endRow M)" by (auto simp: isRowInPartition_def fun_eq_iff)
    then show ?thesis by (simp add: upto_int_eq upto_filter) blast
  qed
  have c: "\<exists>p q. filter (isColInPartition M) (upto_int n) = [p..q]" for n
  proof (cases "hasPartition M")
    case False
    then have "isColInPartition M = (\<lambda>_. True)" by (auto simp: isColInPartition_def fun_eq_iff)
    then show ?thesis by (auto simp: upto_int_eq)
  next
    case True
    then have "isColInPartition M = (\<lambda>x. rm_startCol M \<le> x \<and> x \<le> rm_endCol M)" by (auto simp: isColInPartition_def fun_eq_iff)
    then show ?thesis by (simp add: upto_int_eq upto_filter) blast
  qed
  show ?thesis using r c by (cases strategy) (auto simp: res_positions_def)
qed

lemma run_scan:
  assumes "pos = [p..q]" "0 < n"
  shows "find_run (\<lambda>x. tile_available M requested (line_pt strategy l x)) n 0 (-1) pos = Some f \<Longrightarrow> run_at M strategy requested pos n l f"
    "find_run (\<lambda>x. tile_available M requested (line_pt strategy l x)) n 0 (-1) pos = None \<Longrightarrow> \<not> run_at M strategy requested pos n l g"
proof -
  assume "find_run (\<lambda>x. tile_available M requested (line_pt strategy l x)) n 0 (-1) pos = Some f"
  from find_run_Some [OF this [unfolded assms(1)]] assms(2) show "run_at M strategy requested pos n l f"
    by (auto simp: run_at_def assms(1))
next
  assume *: "find_run (\<lambda>x. tile_available M requested (line_pt strategy l x)) n 0 (-1) pos = None"
  show "\<not> run_at M strategy requested pos n l g"
  proof
    assume run: "run_at M strategy requested pos n l g"
    have "p \<le> g" "g + int n - 1 \<le> q"
      using run [unfolded run_at_def, rule_format, of 0] run [unfolded run_at_def, rule_format, of "n - 1"] assms(2) by (auto simp: assms(1))
    from find_run_None [OF * [unfolded assms(1)] assms(2), of g] this run show False by (auto simp: run_at_def)
  qed
qed

section \<open>Reserving a run\<close>

lemma tile_dataIO [simp]: "tile (M\<lparr>rm_dataIOMap := m\<rparr>) = tile M" "in_mesh (M\<lparr>rm_dataIOMap := m\<rparr>) = in_mesh M"
  "mesh_wf (M\<lparr>rm_dataIOMap := m\<rparr>) = mesh_wf M"
  by (auto simp: tile_def in_mesh_def mesh_wf_def rm_rows_def rm_cols_def fun_eq_iff)

lemma in_mesh_put [simp]: "in_mesh (put_tile r c t M) = in_mesh M"
  by (simp add: in_mesh_def fun_eq_iff)

lemma reserveTile_free:
  assumes "mesh_wf M" "\<not> isTileReserved M r c" "rm_dataIOMap M ioId = Some d"
  shows "\<exists>M'. reserveTile r c ioId M = (True, M') \<and> mesh_wf M' \<and> in_mesh M' = in_mesh M \<and> rm_dataIOMap M' ioId \<noteq> None \<and>
    (\<forall>r' c'. in_mesh M r' c' \<longrightarrow> tile M' r' c' = (if r' = r \<and> c' = c then setReserved True ioId (tile M r c) else tile M r' c')) \<and>
    getReservedTilesForDataIo ioId M' = getReservedTilesForDataIo ioId M @ [Pt r c]"
proof -
  have m: "in_mesh M r c" "\<not> rt_reserved (tile M r c)" using assms(2) by (auto simp: isTileReserved_def split: if_splits)
  have t: "tile (put_tile r c t M) r' c' = (if r' = r \<and> c' = c then t else tile M r' c')" if "in_mesh M r' c'" for r' c' t
    using tile_put in_mesh_has_tile assms(1) m(1) that by blast
  show ?thesis using m assms t by (auto simp: reserveTile_def Let_def getReservedTilesForDataIo_def addReservedTile_def)
qed

lemma reserve_seq_free:
  assumes "mesh_wf M" "distinct pts" "\<forall>p\<in>set pts. \<not> isTileReserved M (pt_r p) (pt_c p)" "rm_dataIOMap M ioId \<noteq> None"
  shows "\<exists>M'. reserve_seq ioId pts temp M = (True, temp @ pts, M') \<and> reserved_for ioId pts M M'"
  using assms
proof (induction pts arbitrary: M temp)
  case (Cons p pts)
  obtain d where "rm_dataIOMap M ioId = Some d" using Cons.prems(4) by blast
  with reserveTile_free [of M "pt_r p" "pt_c p" ioId d] Cons.prems obtain M1 where 1: "reserveTile (pt_r p) (pt_c p) ioId M = (True, M1)" "mesh_wf M1"
      "in_mesh M1 = in_mesh M" "rm_dataIOMap M1 ioId \<noteq> None"
      "\<forall>r' c'. in_mesh M r' c' \<longrightarrow> tile M1 r' c' = (if r' = pt_r p \<and> c' = pt_c p then setReserved True ioId (tile M (pt_r p) (pt_c p)) else tile M r' c')"
      "getReservedTilesForDataIo ioId M1 = getReservedTilesForDataIo ioId M @ [Pt (pt_r p) (pt_c p)]"
    by auto
  have p: "Pt (pt_r p) (pt_c p) = p" by simp
  have "\<not> isTileReserved M1 (pt_r q) (pt_c q)" if "q \<in> set pts" for q
  proof -
    have "q \<noteq> p" using that Cons.prems(2) by auto
    then have "\<not> (pt_r q = pt_r p \<and> pt_c q = pt_c p)" by (metis Point.equality unit.exhaust)
    moreover have "\<not> isTileReserved M (pt_r q) (pt_c q)" using that Cons.prems(3) by simp
    ultimately show ?thesis using 1(3,5) by (auto simp: isTileReserved_def split: if_splits)
  qed
  then obtain M2 where 2: "reserve_seq ioId pts (temp @ [p]) M1 = (True, (temp @ [p]) @ pts, M2)" "reserved_for ioId pts M1 M2"
    using Cons.IH [OF 1(2) _ _ 1(4)] Cons.prems(2) by (metis distinct.simps(2))
  have q: "Pt r c = p \<longleftrightarrow> r = pt_r p \<and> c = pt_c p" for r c by (metis p Point.select_convs)
  have "reserved_for ioId (p # pts) M M2"
    using 2(2) 1(3,5,6) Cons.prems(2) p by (auto simp: reserved_for_def q setReserved_def)
  then show ?case using 1(1) 2(1) by simp
qed (simp add: reserved_for_def)

lemma line_pt_inj: "line_pt strategy l x = line_pt strategy l y \<Longrightarrow> x = y"
  by (cases strategy) auto

lemma reserve_run:
  assumes "mesh_wf M" "rm_dataIOMap M ioId \<noteq> None" "run_at M strategy requested pos n l f"
  shows "\<exists>M'. reserve_seq ioId (map (\<lambda>i. line_pt strategy l (f + int i)) [0..<n]) [] M =
      (True, map (\<lambda>i. line_pt strategy l (f + int i)) [0..<n], M') \<and> reserved_for ioId (map (\<lambda>i. line_pt strategy l (f + int i)) [0..<n]) M M'"
proof -
  let ?pts = "map (\<lambda>i. line_pt strategy l (f + int i)) [0..<n]"
  have "distinct ?pts" by (auto simp: distinct_map inj_on_def dest: line_pt_inj)
  moreover have "\<forall>p\<in>set ?pts. \<not> isTileReserved M (pt_r p) (pt_c p)" using assms(3) by (auto simp: run_at_def tile_available_def)
  ultimately show ?thesis using reserve_seq_free [of M ?pts ioId "[]"] assms(1,2) by simp
qed

lemma took_run_Cons:
  "took_run M ioId strategy requested pos n ls pts M' \<Longrightarrow> (\<And>f. \<not> run_at M strategy requested pos n l f) \<Longrightarrow>
   took_run M ioId strategy requested pos n (l # ls) pts M'"
  unfolding took_run_def by (metis append_Cons set_ConsD)

lemma took_run_hd:
  "run_at M strategy requested pos n l f \<Longrightarrow> reserved_for ioId (map (\<lambda>i. line_pt strategy l (f + int i)) [0..<n]) M M' \<Longrightarrow>
   took_run M ioId strategy requested pos n (l # ls) (map (\<lambda>i. line_pt strategy l (f + int i)) [0..<n]) M'"
  unfolding took_run_def by (intro exI [of _ "[]"] exI [of _ l] exI [of _ ls] exI [of _ f]) simp

lemma reserve_lines_spec:
  assumes "mesh_wf M" "rm_dataIOMap M ioId \<noteq> None" "pos = [p..q]" "0 < n"
  shows "case reserve_lines ioId n strategy requested ls pos M of
    (True, pts, M') \<Rightarrow> took_run M ioId strategy requested pos n ls pts M'
  | (False, pts, M') \<Rightarrow> pts = [] \<and> M' = M \<and> (\<forall>l\<in>set ls. \<forall>f. \<not> run_at M strategy requested pos n l f)"
proof (induction ls)
  case (Cons l ls)
  show ?case
  proof (cases "find_run (\<lambda>p. tile_available M requested (line_pt strategy l p)) n 0 (-1) pos")
    case None
    note no = run_scan(2) [OF assms(3,4) None]
    obtain b pts M' where r: "reserve_lines ioId n strategy requested ls pos M = (b, pts, M')" by (metis prod.exhaust)
    have e: "reserve_lines ioId n strategy requested (l # ls) pos M = (b, pts, M')" using None r by simp
    show ?thesis unfolding e using Cons.IH [unfolded r] no by (cases b) (auto intro: took_run_Cons)
  next
    case (Some f)
    note run = run_scan(1) [OF assms(3,4) Some]
    from reserve_run [OF assms(1,2) run] Some show ?thesis by (auto intro: took_run_hd [OF run])
  qed
qed simp

lemma reserveTiles_lines:
  assumes "0 < numTiles" "rm_dataIOMap M ioId = Some d"
  shows "reserveTiles srt ioId numTiles strategy requested startPoint M =
    reserve_lines ioId (nat numTiles) strategy requested (srt (\<lambda>a. \<bar>a - res_origin strategy startPoint d\<bar>) (res_lines strategy M)) (res_positions strategy M) M"
  using assms by (cases strategy) (simp_all add: reserveTiles_def Let_def res_lines_def res_positions_def res_origin_def)

text \<open>
  C29. Reserving tiles: with a mesh as the constructor builds it and a known flow, \<open>reserveTiles\<close> takes exactly the
  requested number of adjacent tiles on one line of the partition, all free and of the requested type, marks them and
  no other tile for the flow and records them with it; no line nearer to the origin has such a run. When it fails, no
  line has one and nothing has changed.
\<close>

theorem reserveTiles_spec:
  assumes "mesh_wf M" "0 < numTiles" "rm_dataIOMap M ioId = Some d" "is_std_sort srt"
  shows "case reserveTiles srt ioId numTiles strategy requested startPoint M of
    (True, pts, M') \<Rightarrow> \<exists>l f. l \<in> set (res_lines strategy M) \<and> run_at M strategy requested (res_positions strategy M) (nat numTiles) l f \<and>
       pts = map (\<lambda>i. line_pt strategy l (f + int i)) [0..<nat numTiles] \<and> reserved_for ioId pts M M' \<and>
       (\<forall>l'\<in>set (res_lines strategy M). \<bar>l' - res_origin strategy startPoint d\<bar> < \<bar>l - res_origin strategy startPoint d\<bar> \<longrightarrow>
          (\<forall>f. \<not> run_at M strategy requested (res_positions strategy M) (nat numTiles) l' f))
  | (False, pts, M') \<Rightarrow> pts = [] \<and> M' = M \<and>
       (\<forall>l\<in>set (res_lines strategy M). \<forall>f. \<not> run_at M strategy requested (res_positions strategy M) (nat numTiles) l f)"
proof -
  let ?key = "\<lambda>a. \<bar>a - res_origin strategy startPoint d\<bar>"
  let ?ls = "srt ?key (res_lines strategy M)"
  obtain p q where pos: "res_positions strategy M = [p..q]" using res_positions_interval by blast
  have srt: "set ?ls = set (res_lines strategy M)" "sorted (map ?key ?ls)"
    using assms(4) by (auto simp: is_std_sort_def dest: mset_eq_setD)
  have near: "l' \<in> set ls1" if "?ls = ls1 @ l # ls2" "l' \<in> set ?ls" "?key l' < ?key l" for ls1 l ls2 l'
    using that srt(2) by (auto simp: sorted_append)
  obtain b pts M' where r: "reserveTiles srt ioId numTiles strategy requested startPoint M = (b, pts, M')" by (metis prod.exhaust)
  have spec: "case reserve_lines ioId (nat numTiles) strategy requested ?ls (res_positions strategy M) M of
      (True, pts, M') \<Rightarrow> took_run M ioId strategy requested (res_positions strategy M) (nat numTiles) ?ls pts M'
    | (False, pts, M') \<Rightarrow> pts = [] \<and> M' = M \<and> (\<forall>l\<in>set ?ls. \<forall>f. \<not> run_at M strategy requested (res_positions strategy M) (nat numTiles) l f)"
    by (rule reserve_lines_spec [OF assms(1) _ pos]) (use assms(2,3) in auto)
  show ?thesis
  proof (cases b)
    case True
    with spec r obtain ls1 l ls2 f where *: "?ls = ls1 @ l # ls2" "\<forall>l'\<in>set ls1. \<forall>f. \<not> run_at M strategy requested (res_positions strategy M) (nat numTiles) l' f"
       "run_at M strategy requested (res_positions strategy M) (nat numTiles) l f" "pts = map (\<lambda>i. line_pt strategy l (f + int i)) [0..<nat numTiles]"
       "reserved_for ioId pts M M'"
      using assms(2,3) by (auto simp: reserveTiles_lines took_run_def)
    have "l \<in> set (res_lines strategy M)" using *(1) srt(1) by auto
    moreover have "\<forall>f. \<not> run_at M strategy requested (res_positions strategy M) (nat numTiles) l' f"
      if "l' \<in> set (res_lines strategy M)" "?key l' < ?key l" for l'
      using near [OF *(1) _ that(2)] that(1) srt(1) *(2) by blast
    ultimately show ?thesis unfolding r using True *(3-5) by auto
  next
    case False
    then show ?thesis using spec r assms(2,3) srt(1) by (auto simp: reserveTiles_lines)
  qed
qed

lemma sort_key_is_std_sort: "is_std_sort (\<lambda>key. sort_key key)"
  by (simp add: is_std_sort_def)

text \<open>
  C34. With a partition whose rows start above row 0, reserving by columns always fails: the candidate columns are
  tested with row 0, which is then outside the partition.
\<close>

theorem column_first_needs_row0:
  assumes "0 \<le> rm_startCol M" "0 < rm_startRow M" "0 < numTiles" "is_std_sort srt"
  shows "fst (reserveTiles srt ioId numTiles COLUMN_FIRST requested startPoint M) = False"
proof -
  have "res_lines COLUMN_FIRST M = []"
    using assms(1,2) by (auto simp: res_lines_def isTileInPartition_def isRowInPartition_def hasPartition_def filter_empty_conv)
  moreover from assms(4) have "srt key [] = []" for key by (auto simp: is_std_sort_def dest!: spec [of _ "[]"])
  ultimately show ?thesis
    using assms(3) by (cases "rm_dataIOMap M ioId") (simp add: reserveTiles_def, simp add: reserveTiles_lines)
qed

lemma sample_mesh_free: "tile_available sample_mesh None (Pt 0 0)"
  by (simp add: tile_available_def isTileReserved_def in_mesh_def rm_rows_def rm_cols_def tile_def sample_mesh_def new_ResourceMgr_def
      new_tile_def new_RoutingTile_def Let_def)

theorem reserveTiles_spec_witness:
  "\<exists>l f M'. reserveTiles (\<lambda>key. sort_key key) 5 1 ROW_FIRST None None sample_mesh = (True, [Pt l f], M') \<and> rt_reserved (tile M' l f)"
proof -
  let ?r = "reserveTiles (\<lambda>key. sort_key key) 5 1 ROW_FIRST None None sample_mesh"
  have wf: "mesh_wf sample_mesh" by (simp add: sample_mesh_def new_ResourceMgr_wf)
  have io: "rm_dataIOMap sample_mesh 5 = Some (new_DataIO 5 Input 0 0 MM2S 0 [] [])" by (simp add: sample_mesh_def)
  have pos: "0 \<in> set (res_positions ROW_FIRST sample_mesh)" "0 \<in> set (res_lines ROW_FIRST sample_mesh)"
    by (simp_all add: res_positions_def res_lines_def upto_int_eq isColInPartition_def isRowInPartition_def hasPartition_def sample_mesh_def
        new_ResourceMgr_def rm_rows_def rm_cols_def)
  have run: "run_at sample_mesh ROW_FIRST None (res_positions ROW_FIRST sample_mesh) 1 0 0"
    using pos sample_mesh_free by (simp add: run_at_def)
  note spec = reserveTiles_spec [OF wf _ io sort_key_is_std_sort, of 1 ROW_FIRST None None]
  obtain b pts M' where r: "?r = (b, pts, M')" by (metis prod.exhaust)
  have b: "b" using spec r run pos by (cases b) auto
  then obtain l f where lf: "pts = [Pt l f]" "reserved_for 5 pts sample_mesh M'" "tile_available sample_mesh None (Pt l f)"
    using spec r by (auto simp: run_at_def)
  then have "rt_reserved (tile M' l f)"
    by (auto simp: reserved_for_def setReserved_def tile_available_def isTileReserved_def split: if_splits)
  then show ?thesis using r b lf(1) by auto
qed

theorem column_first_needs_row0_witness:
  "fst (reserveTiles (\<lambda>key. sort_key key) 5 1 COLUMN_FIRST None None (setPartitionBounds 0 0 1 1 sample_mesh)) = False"
  by (rule column_first_needs_row0) (simp_all add: setPartitionBounds_def sort_key_is_std_sort)

end
