(* ===== verification/ResourcePools.thy ===== *)
theory ResourcePools
  imports ResourceManager
begin

text \<open>
  The pools of numbered slots of the resource manager as instances of one contract: buffer descriptors and locks of a
  tile, packet ids, and the channels of a shim DMA engine. A granted slot is not granted again before its owner gives it
  up.
\<close>

datatype pool_op = PAlloc int | PRelease int int

text \<open>A sequence of operations by any clients, the state it ends in and the slots it grants on the way.\<close>

fun pool_run ::
  "(int \<Rightarrow> 's \<Rightarrow> int option \<times> 's) \<Rightarrow> (int \<Rightarrow> int \<Rightarrow> 's \<Rightarrow> bool \<times> 's) \<Rightarrow> pool_op list \<Rightarrow> 's \<Rightarrow> int list \<times> 's"
where
  "pool_run alloc release [] s = ([], s)"
| "pool_run alloc release (PAlloc w # ops) s =
     (case alloc w s of (r, s') \<Rightarrow> case pool_run alloc release ops s' of (g, s'') \<Rightarrow> ((case r of Some i \<Rightarrow> i # g | None \<Rightarrow> g), s''))"
| "pool_run alloc release (PRelease i w # ops) s = pool_run alloc release ops (snd (release i w s))"

text \<open>No operation of the sequence gives up slot \<open>i\<close> in the name of \<open>v\<close> or of nobody.\<close>

definition keeps_slot :: "int \<Rightarrow> int \<Rightarrow> pool_op list \<Rightarrow> bool" where
  "keeps_slot i v ops = list_all (\<lambda>op. case op of PRelease j w \<Rightarrow> j \<noteq> i \<or> (0 \<le> w \<and> w \<noteq> v) | PAlloc w \<Rightarrow> True) ops"

definition pool_owner :: "pool_slot list \<Rightarrow> int \<Rightarrow> int option" where
  "pool_owner pool i = (if 0 \<le> i \<and> i < int (length pool) \<and> sl_used (pool ! nat i) then Some (sl_ownerId (pool ! nat i)) else None)"


section \<open>Pools: a granted slot stays with its owner\<close>

text \<open>
  The contract of a pool: an allocation grants a slot nobody holds and changes nothing else; a release gives up a slot
  of the caller (or any held slot when the caller gives a negative owner); nothing else changes who holds what.
\<close>

locale slot_pool =
  fixes alloc :: "int \<Rightarrow> 's \<Rightarrow> int option \<times> 's"
    and release :: "int \<Rightarrow> int \<Rightarrow> 's \<Rightarrow> bool \<times> 's"
    and owner :: "'s \<Rightarrow> int \<Rightarrow> int option"
  assumes alloc_Some: "alloc w s = (Some i, s') \<Longrightarrow> owner s i = None \<and> owner s' = (owner s)(i \<mapsto> w)"
    and alloc_None: "alloc w s = (None, s') \<Longrightarrow> owner s' = owner s"
    and release_True: "release i w s = (True, s') \<Longrightarrow> (\<exists>v. owner s i = Some v \<and> (w < 0 \<or> v = w)) \<and> owner s' = (owner s)(i := None)"
    and release_False: "release i w s = (False, s') \<Longrightarrow> owner s' = owner s"

context slot_pool
begin

lemma held:
  assumes "owner s i = Some v" "keeps_slot i v ops"
  shows "owner (snd (pool_run alloc release ops s)) i = Some v \<and> i \<notin> set (fst (pool_run alloc release ops s))"
  using assms
proof (induction ops arbitrary: s)
  case (Cons op ops)
  show ?case
  proof (cases op)
    case (PAlloc w)
    obtain r s' where a: "alloc w s = (r, s')" by fastforce
    have o: "owner s' i = Some v" and r: "r \<noteq> Some i"
      using a Cons.prems(1) alloc_Some [of w s _ s'] alloc_None [of w s s'] by (cases r; auto split: if_splits)+
    have "keeps_slot i v ops" using Cons.prems(2) by (simp add: keeps_slot_def)
    from Cons.IH [OF o this] r show ?thesis by (auto simp: PAlloc a split: prod.splits option.splits)
  next
    case (PRelease j w)
    obtain b s' where a: "release j w s = (b, s')" by fastforce
    have j: "j \<noteq> i \<or> (0 \<le> w \<and> w \<noteq> v)" and k: "keeps_slot i v ops" using Cons.prems(2) by (simp_all add: keeps_slot_def PRelease)
    have "owner s' i = Some v" using a j Cons.prems(1) release_True [of j w s s'] release_False [of j w s s'] by (cases b) auto
    from Cons.IH [OF this k] show ?thesis by (simp add: PRelease a)
  qed
qed simp

lemma granted_held:
  assumes "alloc v s = (Some i, s')" "keeps_slot i v ops"
  shows "i \<notin> set (fst (pool_run alloc release ops s'))"
  using held [of s' i v ops] alloc_Some [OF assms(1)] assms(2) by simp

end

lemma find_Some_nth: "List.find P [a..<b] = Some i \<Longrightarrow> a \<le> i \<and> i < b \<and> P i"
  by (auto simp: find_Some_iff)

lemma pool_owner_upd:
  assumes "i < length pool"
  shows "pool_owner (pool[i := x]) = (pool_owner pool)(int i := (if sl_used x then Some (sl_ownerId x) else None))"
  using assms by (auto simp: pool_owner_def nth_list_update fun_eq_iff)

lemma pool_allocate_Some:
  assumes "pool_allocate start w pool = (Some i, pool')"
  shows "pool_owner pool i = None \<and> pool_owner pool' = (pool_owner pool)(i \<mapsto> w)"
proof -
  obtain k where k: "first_free start pool = Some k" "i = int k" "pool' = pool[k := slot_taken w]"
    using assms by (auto simp: pool_allocate_def split: option.splits)
  then have "k < length pool" "\<not> sl_used (pool ! k)" using find_Some_nth [of _ start "length pool" k] by (auto simp: first_free_def)
  then show ?thesis using k by (simp add: pool_owner_upd slot_taken_def) (simp add: pool_owner_def)
qed

lemma pool_allocate_None: "pool_allocate start w pool = (None, pool') \<Longrightarrow> pool' = pool"
  by (auto simp: pool_allocate_def split: option.splits)

lemma pool_release_True:
  assumes "pool_release i w pool = (True, pool')"
  shows "(\<exists>v. pool_owner pool i = Some v \<and> (w < 0 \<or> v = w)) \<and> pool_owner pool' = (pool_owner pool)(i := None)"
proof -
  have "0 \<le> i" "i < int (length pool)" "sl_used (pool ! nat i)" "w < 0 \<or> sl_ownerId (pool ! nat i) = w" "pool' = pool[nat i := slot0]"
    using assms by (auto simp: pool_release_def split: if_splits)
  then show ?thesis by (simp add: pool_owner_upd slot0_def) (simp add: pool_owner_def)
qed

lemma pool_release_False: "pool_release i w pool = (False, pool') \<Longrightarrow> pool' = pool"
  by (auto simp: pool_release_def split: if_splits)

lemmas pool_laws = pool_allocate_Some pool_allocate_None pool_release_True pool_release_False

interpretation bd_pool: slot_pool allocateBd releaseBd "\<lambda>t. pool_owner (rt_bdPool t)"
  by unfold_locales (auto simp: allocateBd_def releaseBd_def dest: pool_laws split: prod.splits)

interpretation lock_pool: slot_pool allocateLock releaseLock "\<lambda>t. pool_owner (rt_lockPool t)"
  by unfold_locales (auto simp: allocateLock_def releaseLock_def dest: pool_laws split: prod.splits)

interpretation pkt_pool: slot_pool allocatePktId releasePktId "\<lambda>M. pool_owner (rm_pktIdPool M)"
  by unfold_locales (auto simp: allocatePktId_def releasePktId_def dest: pool_laws split: prod.splits)

lemma channels_put [simp]: "channels d (put_channels d v t) = v"
  by (cases d) auto







end
