(* ===== verification/ResourceControl.thy ===== *)
theory ResourceControl
  imports ResourceTiles ResourcePools
begin

text \<open>
  Exclusion of the control plane: what \<open>reserveControlPlaneResources\<close> takes is never handed to a data flow, be it a
  packet id, an arbiter or a slot of a slave port.
\<close>

text \<open>The parts of the manager the allocators of the data plane read.\<close>

definition plane_view :: "ResourceMgr \<Rightarrow> PktIdSlot list \<times> u32 \<times> (u32 \<times> u32) list" where
  "plane_view M = (rm_pktIdPool M, rm_arbiterMask M, rm_slotMask M)"

definition keeps_view :: "rm_step \<Rightarrow> bool" where
  "keeps_view f = (\<forall>M. plane_view (snd (f M)) = plane_view M)"

fun res_port_no :: "PortDirection \<Rightarrow> u8 option" where
  "res_port_no West = Some RT_RES_PORT_WEST"
| "res_port_no East = Some RT_RES_PORT_EAST"
| "res_port_no North = Some RT_RES_PORT_NORTH"
| "res_port_no South = Some RT_RES_PORT_SOUTH"
| "res_port_no Control = Some RT_RES_PORT_CTRL"
| "res_port_no _ = None"

text \<open>A manager without tiles: its reservation consists of the packet ids and the masks.\<close>

definition sample_empty :: ResourceMgr where
  "sample_empty = new_ResourceMgr \<lparr>hw_gen = G5, layout = PALMYRA\<lparr>rows := 0, columns := 0\<rparr>, variant = ''PALMYRA''\<rparr> [] 0"

section \<open>What the reservation leaves alone\<close>

lemma plane_view_put [simp]: "plane_view (put_tile r c t M) = plane_view M"
  by (simp add: plane_view_def put_tile_def)

lemma keeps_then [intro]: "keeps_view f \<Longrightarrow> keeps_view g \<Longrightarrow> keeps_view (rm_then f g)"
  by (auto simp: keeps_view_def rm_then_def split: prod.splits option.splits) (metis snd_conv)+

lemma keeps_ok [intro]: "keeps_view rm_ok"
  by (simp add: keeps_view_def rm_ok_def)

lemma keeps_when [intro]: "keeps_view f \<Longrightarrow> keeps_view (rm_when b f)"
  by (simp add: rm_when_def keeps_ok)

lemma keeps_each [intro]: "(\<And>x. keeps_view (f x)) \<Longrightarrow> keeps_view (rm_each f xs)"
  by (induction xs) (auto intro!: keeps_then keeps_ok)

lemma keepsI: "(\<And>M. f M = (e M, M) \<or> (\<exists>g. keeps_view g \<and> f M = g M)) \<Longrightarrow> keeps_view f"
  unfolding keeps_view_def by (metis snd_conv)

lemma keeps_port [intro]: "keeps_view (reserve_port e r c d role n)"
  by (auto simp: keeps_view_def reserve_port_def split: prod.splits bool.splits)

lemma keeps_south [intro]: "keeps_view (reserve_south e r c role idx)"
  using keeps_port by (auto simp: keeps_view_def reserve_south_def split: prod.splits sum.splits)

lemma keeps_dma [intro]: "keeps_view (reserve_dma e1 e2 col ch1 ch2)"
  by (auto simp: keeps_view_def reserve_dma_def plane_view_def split: prod.splits option.splits)

lemma keeps_core [intro]: "keeps_view (reserve_core_tile rc)"
proof -
  have "keeps_view (rm_each (\<lambda>(d, role). reserve_port Port_conflict r c d role 0) xs)" for r c xs
    by (rule keeps_each) (auto split: prod.splits)
  then show ?thesis
    by (intro keepsI [of _ "\<lambda>_. None"]) (cases rc, simp only: reserve_core_tile_def prod.case, metis)
qed

lemma keeps_if [intro]: "keeps_view f \<Longrightarrow> keeps_view g \<Longrightarrow> keeps_view (if b then f else g)"
  by simp

lemma keeps_spine_tile [intro]: "keeps_view (reserve_spine_tile spineCol row)"
proof -
  have "keeps_view (rm_then (reserve_port Spine_port_conflict row spineCol North Master RT_RES_VFWD_PORT)
          (rm_then (reserve_port Spine_port_conflict row spineCol North Slave RT_RES_VRET_PORT)
          (if row \<noteq> 0 then
             rm_then (reserve_port Spine_port_conflict row spineCol South Slave RT_RES_VFWD_PORT)
                     (reserve_port Spine_port_conflict row spineCol South Master RT_RES_VRET_PORT)
           else rm_when (cp_exclusive p)
             (rm_then (reserve_south Spine_port_conflict row spineCol Master (cp_mm2sCh p))
                      (reserve_south Spine_port_conflict row spineCol Slave (cp_s2mmCh p))))))" for p
    by (intro keeps_then keeps_if keeps_when keeps_port keeps_south)
  note body = this
  show ?thesis
  proof (rule keepsI [of _ "\<lambda>M. if isTileInPartition M row spineCol then Some Bad_index else None"])
    fix M
    show "reserve_spine_tile spineCol row M = (if isTileInPartition M row spineCol then Some Bad_index else None, M) \<or>
        (\<exists>g. keeps_view g \<and> reserve_spine_tile spineCol row M = g M)"
    proof (cases "isTileInPartition M row spineCol \<and> has_tile M row spineCol")
      case True
      then show ?thesis using body [of "rm_ctrlPlacement M"] unfolding reserve_spine_tile_def by (simp only: simp_thms if_True if_False) blast
    next
      case False
      then show ?thesis by (auto simp: reserve_spine_tile_def)
    qed
  qed
qed

lemma keeps_spine [intro]: "keeps_view (reserveControlSpinePorts spineCol)"
  by (rule keepsI [of _ "\<lambda>_. None"]) (use keeps_each [of "reserve_spine_tile spineCol"] in \<open>auto simp: reserveControlSpinePorts_def\<close>)

lemma keeps_row_tile [intro]: "keeps_view (reserve_row_tile col)"
proof -
  have "keeps_view (rm_each (\<lambda>(d, role). reserve_port Row_port_conflict 0 col d role RT_RES_SHIMROW_PORT) xs)" for xs
    by (rule keeps_each) (auto split: prod.splits)
  then show ?thesis by (intro keepsI [of _ "\<lambda>_. None"]) (simp only: reserve_row_tile_def, metis)
qed

lemma keeps_row_spine [intro]: "keeps_view (reserve_row_spine spineCol)"
proof -
  have "keeps_view (rm_then (reserve_south Row_port_conflict 0 spineCol Master RT_RES_SHIMROW_CH)
          (rm_then (reserve_south Row_port_conflict 0 spineCol Slave RT_RES_SHIMROW_CH)
          (rm_each (\<lambda>role. reserve_port Row_port_conflict 0 spineCol East role RT_RES_SHIMROW_PORT) [Master, Slave])))"
    by (intro keeps_then keeps_south keeps_each keeps_port)
  then show ?thesis by (auto simp: keeps_view_def reserve_row_spine_def)
qed

lemma keeps_row [intro]: "keeps_view (reserveShimRowControl spineCol)"
proof -
  have "keeps_view (rm_then (reserve_dma No_row_dma Row_dma_conflict spineCol RT_RES_SHIMROW_CH RT_RES_SHIMROW_CH)
       (rm_then (reserve_row_spine spineCol) (rm_each reserve_row_tile xs)))" for xs
    by (intro keeps_then keeps_dma keeps_row_spine keeps_each keeps_row_tile)
  then show ?thesis by (auto simp: keeps_view_def reserveShimRowControl_def)
qed

section \<open>What it reserves\<close>

lemma rm_each_Cons: "rm_each f (x # xs) M = (None, M') \<longleftrightarrow> (\<exists>M1. f x M = (None, M1) \<and> rm_each f xs M1 = (None, M'))"
  by (auto simp: rm_then_def split: prod.splits option.splits)

lemma reserve_pkt_step:
  assumes "reserve_pkt pm x M = (None, M1)"
  shows "length (rm_pktIdPool M1) = length (rm_pktIdPool M)"
    "rm_pktIdPool M ! i = slot_taken kControlPlaneOwner \<Longrightarrow> rm_pktIdPool M1 ! i = slot_taken kControlPlaneOwner"
    "bit pm x \<Longrightarrow> x < length (rm_pktIdPool M) \<Longrightarrow> rm_pktIdPool M1 ! x = slot_taken kControlPlaneOwner"
proof -
  have M1: "rm_pktIdPool M1 = (if bit pm x then (rm_pktIdPool M)[x := slot_taken kControlPlaneOwner] else rm_pktIdPool M)"
    using assms by (auto simp: reserve_pkt_def split: if_splits)
  show "length (rm_pktIdPool M1) = length (rm_pktIdPool M)" by (simp add: M1)
  show "rm_pktIdPool M1 ! i = slot_taken kControlPlaneOwner" if "rm_pktIdPool M ! i = slot_taken kControlPlaneOwner"
    using that by (cases "i = x"; cases "x < length (rm_pktIdPool M)") (simp_all add: M1 list_update_beyond)
  show "rm_pktIdPool M1 ! x = slot_taken kControlPlaneOwner" if "bit pm x" "x < length (rm_pktIdPool M)"
    using that by (simp add: M1)
qed

lemma reserve_pkts_length: "rm_each (reserve_pkt pm) xs M = (None, M') \<Longrightarrow> length (rm_pktIdPool M') = length (rm_pktIdPool M)"
  by (induction xs arbitrary: M) (auto simp: rm_ok_def rm_each_Cons reserve_pkt_step(1) simp del: rm_each.simps(2))

lemma reserve_pkts_keep:
  "rm_each (reserve_pkt pm) xs M = (None, M') \<Longrightarrow> rm_pktIdPool M ! i = slot_taken kControlPlaneOwner \<Longrightarrow>
   rm_pktIdPool M' ! i = slot_taken kControlPlaneOwner"
  by (induction xs arbitrary: M) (auto simp: rm_ok_def rm_each_Cons dest: reserve_pkt_step(2) simp del: rm_each.simps(2))

lemma reserve_pkts_taken:
  "rm_each (reserve_pkt pm) xs M = (None, M') \<Longrightarrow> i \<in> set xs \<Longrightarrow> bit pm i \<Longrightarrow> i < length (rm_pktIdPool M) \<Longrightarrow>
   rm_pktIdPool M' ! i = slot_taken kControlPlaneOwner"
proof (induction xs arbitrary: M)
  case (Cons x xs)
  obtain M1 where 1: "reserve_pkt pm x M = (None, M1)" "rm_each (reserve_pkt pm) xs M1 = (None, M')"
    using Cons.prems(1) unfolding rm_each_Cons by blast
  show ?case
  proof (cases "i = x")
    case True
    then show ?thesis using reserve_pkts_keep [OF 1(2)] reserve_pkt_step(3) [OF 1(1)] Cons.prems(3,4) by simp
  next
    case False
    then show ?thesis using Cons.IH [OF 1(2)] Cons.prems reserve_pkt_step(1) [OF 1(1)] by simp
  qed
qed simp

lemma reserveControl_view:
  assumes "reserveControlPlaneResources gen M = (None, M')" "\<not> rm_controlReserved M"
  obtains M1 where "rm_each (reserve_pkt (res_reserved_pktid_mask gen)) [0..<kMaxPktId] M = (None, M1)"
    "plane_view M' = (rm_pktIdPool M1, res_reserved_arbiter_mask gen,
       map (\<lambda>p. (res_reserved_slot_mask gen (of_nat p) 0, res_reserved_slot_mask gen (of_nat p) 1)) [0..<kNumPortTypes])"
proof -
  let ?cp = "rm_ctrlPlacement M"
  let ?rest = "rm_then (rm_when (cp_exclusive ?cp) (reserve_dma No_spine_dma Spine_dma_conflict (spine_col M) (cp_mm2sCh ?cp) (cp_s2mmCh ?cp)))
          (rm_then (rm_each reserve_core_tile (mesh_points M))
          (rm_then (reserveControlSpinePorts (spine_col M))
          (rm_then (rm_when (cp_exclusive ?cp \<and> cp_shimRow ?cp) (reserveShimRowControl (spine_col M)))
             (\<lambda>M. (None, M\<lparr>rm_controlReserved := True\<rparr>)))))"
  have rest: "keeps_view ?rest"
    by (intro keeps_then keeps_when keeps_dma keeps_each keeps_core keeps_spine keeps_row) (simp add: keeps_view_def plane_view_def)
  have "rm_then (rm_each (reserve_pkt (res_reserved_pktid_mask gen)) [0..<kMaxPktId]) (rm_then (reserve_masks gen) ?rest) M = (None, M')"
    using assms by (simp add: reserveControlPlaneResources_def Let_def)
  then obtain M1 where 1: "rm_each (reserve_pkt (res_reserved_pktid_mask gen)) [0..<kMaxPktId] M = (None, M1)"
      "?rest (snd (reserve_masks gen M1)) = (None, M')"
    by (auto simp: rm_then_def reserve_masks_def split: prod.splits option.splits)
  have "plane_view M' = plane_view (snd (reserve_masks gen M1))" using rest 1(2) unfolding keeps_view_def by (metis snd_conv)
  with 1(1) show thesis by (intro that) (simp_all add: plane_view_def reserve_masks_def)
qed

lemma pktids_kept:
  assumes "reserveControlPlaneResources gen M = (None, M')" "\<not> rm_controlReserved M" "length (rm_pktIdPool M) = kMaxPktId"
    and "i < kMaxPktId" "bit (res_reserved_pktid_mask gen) i"
    and "\<forall>j w. PRelease j w \<in> set ops \<longrightarrow> 0 \<le> w"
  shows "int i \<notin> set (fst (pool_run allocatePktId releasePktId ops M'))"
proof -
  obtain M1 where 1: "rm_each (reserve_pkt (res_reserved_pktid_mask gen)) [0..<kMaxPktId] M = (None, M1)" "rm_pktIdPool M' = rm_pktIdPool M1"
    by (rule reserveControl_view [OF assms(1,2)]) (simp add: plane_view_def)
  have "pool_owner (rm_pktIdPool M') (int i) = Some kControlPlaneOwner"
    using reserve_pkts_length [OF 1(1)] reserve_pkts_taken [OF 1(1), of i] assms(3-5) by (simp add: 1(2) pool_owner_def slot_taken_def)
  moreover have "keeps_slot (int i) kControlPlaneOwner ops"
    using assms(6) by (fastforce simp: keeps_slot_def list_all_iff kControlPlaneOwner_def split: pool_op.splits)
  ultimately show ?thesis using pkt_pool.held by blast
qed

text \<open>
  C31. The control plane keeps its packet ids: after a successful \<open>reserveControlPlaneResources\<close> no sequence of packet-id
  requests and releases by data flows is ever granted an id of the reservation mask.
\<close>

theorem control_pktids_excluded:
  assumes "reserveControlPlaneResources gen M = (None, M')" "\<not> rm_controlReserved M" "length (rm_pktIdPool M) = kMaxPktId"
    and "i < kMaxPktId" "bit (res_reserved_pktid_mask gen) i"
    and "\<forall>j w. PRelease j w \<in> set ops \<longrightarrow> 0 \<le> w"
  shows "int i \<notin> set (fst (pool_run allocatePktId releasePktId ops M'))"
  using assms by (rule pktids_kept)

lemma new_mgr_pool: "length (rm_pktIdPool (new_ResourceMgr R noc nxt)) = kMaxPktId" "\<not> rm_controlReserved (new_ResourceMgr R noc nxt)"
  by (simp_all add: new_ResourceMgr_def)

text \<open>The choices of the data plane after the reservation.\<close>

lemma data_arbiter_free:
  assumes "reserveControlPlaneResources gen M = (None, M')" "\<not> rm_controlReserved M" "dataPlanePktArbiter M' = Some a"
  shows "\<not> bit (res_reserved_arbiter_mask gen) a"
proof -
  have "rm_arbiterMask M' = res_reserved_arbiter_mask gen" by (rule reserveControl_view [OF assms(1,2)]) (simp add: plane_view_def)
  then show ?thesis using assms(3) by (auto simp: dataPlanePktArbiter_def find_Some_iff)
qed

lemmas port_consts = RT_RES_PORT_WEST_def RT_RES_PORT_EAST_def RT_RES_PORT_NORTH_def RT_RES_PORT_SOUTH_def RT_RES_PORT_CTRL_def

lemma data_slot_free:
  assumes "reserveControlPlaneResources gen M = (None, M')" "\<not> rm_controlReserved M" "res_port_no d = Some p" "dataPlanePktSlaveSlot d M' = Some k"
  shows "\<not> bit (res_reserved_slot_mask gen p 0) k"
proof -
  have m: "rm_slotMask M' = map (\<lambda>p. (res_reserved_slot_mask gen (of_nat p) 0, res_reserved_slot_mask gen (of_nat p) 1)) [0..<kNumPortTypes]"
    by (rule reserveControl_view [OF assms(1,2)]) (simp add: plane_view_def)
  have p: "unat p < kNumPortTypes" "dataPlanePktSlaveSlot d M' = free_slave_slot p M'"
    using assms(3) by (cases d; auto simp: port_consts kNumPortTypes_def dataPlanePktSlaveSlot_def)+
  then have "reservedSlotMask p 0 M' = res_reserved_slot_mask gen p 0" by (simp add: reservedSlotMask_def m)
  then show ?thesis using assms(4) p(2) by (auto simp: free_slave_slot_def find_Some_iff)
qed

lemma reserve_pkts_succeed:
  "(\<forall>i<length (rm_pktIdPool M). sl_used (rm_pktIdPool M ! i) \<longrightarrow> sl_ownerId (rm_pktIdPool M ! i) = kControlPlaneOwner) \<Longrightarrow>
   \<forall>x\<in>set xs. x < length (rm_pktIdPool M) \<Longrightarrow> \<exists>p. rm_each (reserve_pkt pm) xs M = (None, M\<lparr>rm_pktIdPool := p\<rparr>)"
proof (induction xs arbitrary: M)
  case Nil
  then show ?case by (intro exI [of _ "rm_pktIdPool M"]) (simp add: rm_ok_def)
next
  case (Cons x xs)
  let ?p = "if bit pm x then (rm_pktIdPool M)[x := slot_taken kControlPlaneOwner] else rm_pktIdPool M"
  have 1: "reserve_pkt pm x M = (None, M\<lparr>rm_pktIdPool := ?p\<rparr>)" using Cons.prems by (auto simp: reserve_pkt_def)
  have "\<exists>p. rm_each (reserve_pkt pm) xs (M\<lparr>rm_pktIdPool := ?p\<rparr>) = (None, M\<lparr>rm_pktIdPool := ?p\<rparr>\<lparr>rm_pktIdPool := p\<rparr>)"
    by (rule Cons.IH) (use Cons.prems in \<open>auto simp: nth_list_update slot_taken_def\<close>)
  then show ?case using 1 by (auto simp: rm_then_def)
qed

lemma sample_reserved: "\<exists>M'. reserveControlPlaneResources RT_RES_GEN5 sample_empty = (None, M')"
proof -
  have p: "rm_pktIdPool sample_empty = replicate 32 slot0" by (simp add: sample_empty_def new_ResourceMgr_def kMaxPktId_def)
  obtain q where "rm_each (reserve_pkt (res_reserved_pktid_mask RT_RES_GEN5)) [0..<kMaxPktId] sample_empty = (None, sample_empty\<lparr>rm_pktIdPool := q\<rparr>)"
    using reserve_pkts_succeed [of sample_empty "[0..<kMaxPktId]" "res_reserved_pktid_mask RT_RES_GEN5"] by (auto simp: p slot0_def kMaxPktId_def)
  moreover have "rm_controlReserved sample_empty = False" "rm_ctrlPlacement sample_empty = ControlShimPlacement0" "mesh_points sample_empty = []"
      "upto_int (rm_rows (sample_empty\<lparr>rm_pktIdPool := q, rm_arbiterMask := m, rm_slotMask := k\<rparr>)) = []" for q m k
    by (simp_all add: sample_empty_def new_ResourceMgr_def mesh_points_def rm_rows_def upto_int_def)
  ultimately show ?thesis
    by (simp add: reserveControlPlaneResources_def Let_def rm_then_def reserve_masks_def rm_when_def rm_ok_def ControlShimPlacement0_def
        reserveControlSpinePorts_def)
qed

theorem control_pktids_excluded_witness:
  "\<exists>M'. reserveControlPlaneResources RT_RES_GEN5 sample_empty = (None, M') \<and>
     3 \<notin> set (fst (pool_run allocatePktId releasePktId [PAlloc 1, PRelease 3 1, PAlloc 2] M'))"
proof -
  obtain M' where m: "reserveControlPlaneResources RT_RES_GEN5 sample_empty = (None, M')" using sample_reserved by blast
  have b: "bit (res_reserved_pktid_mask RT_RES_GEN5) 3" by code_simp
  have "int 3 \<notin> set (fst (pool_run allocatePktId releasePktId [PAlloc 1, PRelease 3 1, PAlloc 2] M'))"
    by (rule control_pktids_excluded [OF m _ _ _ b]) (auto simp: sample_empty_def new_mgr_pool kMaxPktId_def)
  with m show ?thesis by auto
qed

end
