(* ===== verification/Routing.thy ===== *)
theory Routing
  imports ResourceTiles "HOL-Library.Product_Lexorder" "HOL-Library.Multiset"
begin

text \<open>
  The tree router, \<open>routing/routingpath.cpp\<close> and \<open>include/routing/routingpath.h\<close> under
  \<open>src/src/mlir/mlirfront/tilinglinalg/pass/routingimplement/\<close>: the priority search for one route, the tree that connects
  a data port to several tiles, and the topology object of \<open>routing/routingtopology.cpp\<close> that owns the paths. The
  vectors indexed by row and column are functions on points, read at points of the grid only; a distance that is
  \<open>numeric_limits<int>::max()\<close> is \<open>BFS_INF\<close>.

  The search always returns. Where it finds a route, the route is a loop-free sequence of usable hops; where it finds
  none, there is none. The tree connects every sink to the source.
\<close>

record MultiPath =
  mp_src :: Point
  mp_dsts :: "Point list"
  mp_branches :: "Point list list"
  mp_dataio :: DataIO

text \<open>
  \<open>RoutingPath\<close> without its shared pointer to the resource manager, which is an argument of the operations. The result of
  the last tree is \<^const>\<open>None\<close> before the first one succeeds.
\<close>

record RoutingPath =
  rp_R :: int
  rp_C :: int
  rp_wall :: "Point \<Rightarrow> bool"
  rp_tree :: "Point \<Rightarrow> bool"
  rp_paths :: "Point list list"
  rp_parent :: "Point \<Rightarrow> Point"
  rp_dio :: "DataIO option"
  rp_multi :: "MultiPath option"
  rp_M_start :: int
  rp_M_end :: int
  rp_SHIM_start :: int
  rp_SHIM_end :: int

definition kDirs :: "Point list" where
  "kDirs = [Pt (-1) 0, Pt 1 0, Pt 0 (-1), Pt 0 1]"

definition inGrid :: "RoutingPath \<Rightarrow> Point \<Rightarrow> bool" where
  "inGrid rp p = (pt_r p \<ge> 0 \<and> pt_r p < rp_R rp \<and> pt_c p \<ge> 0 \<and> pt_c p < rp_C rp)"

definition addObstacle :: "Point \<Rightarrow> RoutingPath \<Rightarrow> RoutingPath" where
  "addObstacle p rp = (if inGrid rp p then rp\<lparr>rp_wall := (rp_wall rp)(p := True)\<rparr> else rp)"

definition addObstacles :: "Point list \<Rightarrow> RoutingPath \<Rightarrow> RoutingPath" where
  "addObstacles obs rp = fold addObstacle obs rp"

definition new_RoutingPath :: "ResourceMgr \<Rightarrow> DataIO option \<Rightarrow> Point list \<Rightarrow> RoutingPath" where
  "new_RoutingPath M dio initObs =
     (addObstacles initObs
       \<lparr>rp_R = rm_rows M, rp_C = rm_cols M, rp_wall = (\<lambda>_. False), rp_tree = (\<lambda>_. False), rp_paths = [],
        rp_parent = (\<lambda>_. Pt (-1) (-1)), rp_dio = None, rp_multi = None,
        rp_M_start = 1, rp_M_end = 2, rp_SHIM_start = 0, rp_SHIM_end = 0\<rparr>)\<lparr>rp_dio := dio\<rparr>"

definition markSeg :: "Point list \<Rightarrow> RoutingPath \<Rightarrow> RoutingPath" where
  "markSeg seg rp = rp\<lparr>rp_tree := fold (\<lambda>p t. t(p := True)) seg (rp_tree rp)\<rparr>"

definition BFS_INF :: nat where "BFS_INF = 2147483647"

definition nearer :: "Point \<Rightarrow> Point \<Rightarrow> int \<times> Point \<Rightarrow> int \<times> Point" where
  "nearer dst p st =
     (case st of (best, cand) \<Rightarrow>
        let d = \<bar>pt_r p - pt_r dst\<bar> + \<bar>pt_c p - pt_c dst\<bar> in if d < best then (d, p) else st)"

definition nearestTreePoint :: "RoutingPath \<Rightarrow> Point \<Rightarrow> Point" where
  "nearestTreePoint rp dst = snd (fold (nearer dst) (concat (rp_paths rp)) (int BFS_INF, Pt (pt_r dst) (pt_c dst)))"

definition connectAvailable :: "Point \<Rightarrow> Point \<Rightarrow> ResourceMgr \<Rightarrow> RoutingPath \<Rightarrow> rm_error + bool" where
  "connectAvailable start goal M rp =
     (if rp_wall rp start \<or> rp_wall rp goal then Inr False
      else if \<not> isTileInPartition M (pt_r goal) (pt_c goal) then Inr False
      else case linkAvailable start goal M of Inl e \<Rightarrow> Inl e | Inr x \<Rightarrow> Inr (x \<noteq> None))"

text \<open>
  An entry of the priority queue is priority, distance, row and column; \<open>std::greater\<close> on the tuple, with the order of
  \<open>Point\<close>, is the lexicographic order, so the queue is a sorted list.
\<close>

type_synonym pq_entry = "int \<times> nat \<times> int \<times> int"
type_synonym bfs_state = "(Point \<Rightarrow> nat) \<times> (Point \<Rightarrow> Point) \<times> pq_entry list"

definition getPriority :: "RoutingPath \<Rightarrow> Point \<Rightarrow> int" where
  "getPriority rp p =
     (if pt_r p \<ge> rp_M_start rp \<and> pt_r p \<le> rp_M_end rp then 0
      else if pt_r p \<ge> rp_SHIM_start rp \<and> pt_r p \<le> rp_SHIM_end rp then 1 else 2)"

definition pq_entry_of :: "RoutingPath \<Rightarrow> nat \<Rightarrow> Point \<Rightarrow> pq_entry" where
  "pq_entry_of rp d p = (getPriority rp p, d, pt_r p, pt_c p)"

definition step_to :: "Point \<Rightarrow> Point \<Rightarrow> Point" where
  "step_to p d = Pt (pt_r p + pt_r d) (pt_c p + pt_c d)"

text \<open>One direction of the inner loop at the tile \<open>cur\<close>.\<close>

definition relax_dir :: "ResourceMgr \<Rightarrow> RoutingPath \<Rightarrow> Point \<Rightarrow> Point \<Rightarrow> bfs_state \<Rightarrow> rm_error + bfs_state" where
  "relax_dir M rp cur d st =
     (if pt_r cur = 0 \<and> pt_c d \<noteq> 0 then Inr st
      else if pt_r cur \<ge> rp_M_start rp \<and> pt_r cur \<le> rp_M_end rp \<and> pt_c d \<noteq> 0 then Inr st
      else
        let nxt = step_to cur d in
        if \<not> inGrid rp nxt then Inr st
        else case connectAvailable cur nxt M rp of
          Inl e \<Rightarrow> Inl e
        | Inr avail \<Rightarrow>
            if \<not> avail then Inr st
            else case st of (dist, parent, pq) \<Rightarrow>
              let newDist = dist cur + 1 in
              if newDist < dist nxt
              then Inr (dist(nxt := newDist), parent(nxt := cur), insort (pq_entry_of rp newDist nxt) pq)
              else Inr st)"

primrec relax_all :: "ResourceMgr \<Rightarrow> RoutingPath \<Rightarrow> Point \<Rightarrow> Point list \<Rightarrow> bfs_state \<Rightarrow> rm_error + bfs_state" where
  "relax_all M rp cur [] st = Inr st"
| "relax_all M rp cur (d # ds) st =
     (case relax_dir M rp cur d st of Inl e \<Rightarrow> Inl e | Inr st' \<Rightarrow> relax_all M rp cur ds st')"

text \<open>The loop over the queue, with the distances and parents it leaves.\<close>

partial_function (option) bfs_loop ::
  "ResourceMgr \<Rightarrow> RoutingPath \<Rightarrow> Point \<Rightarrow> (Point \<Rightarrow> nat) \<Rightarrow> (Point \<Rightarrow> Point) \<Rightarrow> pq_entry list
     \<Rightarrow> (rm_error + (Point \<Rightarrow> nat) \<times> (Point \<Rightarrow> Point)) option"
where
  "bfs_loop M rp goal dist parent pq =
     (case pq of
        [] \<Rightarrow> Some (Inr (dist, parent))
      | (pri, curDist, r, c) # pq' \<Rightarrow>
          if curDist > dist (Pt r c) then bfs_loop M rp goal dist parent pq'
          else if Pt r c = goal then Some (Inr (dist, parent))
          else (case relax_all M rp (Pt r c) kDirs (dist, parent, pq') of
                  Inl x \<Rightarrow> Some (Inl x)
                | Inr (dist', parent', pq'') \<Rightarrow> bfs_loop M rp goal dist' parent' pq''))"

text \<open>The loop that follows the parents from the goal back to the start.\<close>

partial_function (option) bfs_rebuild ::
  "RoutingPath \<Rightarrow> (Point \<Rightarrow> Point) \<Rightarrow> Point \<Rightarrow> Point \<Rightarrow> Point list \<Rightarrow> (rm_error + Point list) option"
where
  "bfs_rebuild rp parent start p out =
     (if p = start then Some (Inr (rev (out @ [start])))
      else if \<not> inGrid rp p then Some (Inl Bad_index)
      else bfs_rebuild rp parent start (parent p) (out @ [p]))"

text \<open>
  \<open>bfsSingle\<close>: the outer \<^const>\<open>None\<close> does not return, \<open>Inr None\<close> is the return value \<open>false\<close>. Where an operation of the
  resource manager fails the parents are left as they were; a search writes a parent before it reads it.
\<close>

definition bfsSingle ::
  "Point \<Rightarrow> Point \<Rightarrow> ResourceMgr \<Rightarrow> RoutingPath \<Rightarrow> ((rm_error + Point list option) \<times> RoutingPath) option"
where
  "bfsSingle start goal M rp =
     (if \<not> inGrid rp start \<or> \<not> inGrid rp goal \<or> rp_wall rp start \<or> rp_wall rp goal then Some (Inr None, rp)
      else case bfs_loop M rp goal ((\<lambda>_. BFS_INF)(start := 0)) ((rp_parent rp)(start := Pt (-1) (-1))) [pq_entry_of rp 0 start] of
        None \<Rightarrow> None
      | Some (Inl e) \<Rightarrow> Some (Inl e, rp)
      | Some (Inr (dist, parent)) \<Rightarrow>
          if dist goal = BFS_INF then Some (Inr None, rp\<lparr>rp_parent := parent\<rparr>)
          else case bfs_rebuild rp parent start goal [] of
                 None \<Rightarrow> None
               | Some (Inl e) \<Rightarrow> Some (Inl e, rp\<lparr>rp_parent := parent\<rparr>)
               | Some (Inr seg) \<Rightarrow> Some (Inr (Some seg), rp\<lparr>rp_parent := parent\<rparr>))"

definition addPath :: "Point \<Rightarrow> Point \<Rightarrow> ResourceMgr \<Rightarrow> RoutingPath \<Rightarrow> ((rm_error + bool) \<times> RoutingPath) option" where
  "addPath src dst M rp =
     (case bfsSingle src dst M rp of
        None \<Rightarrow> None
      | Some (Inl e, rp1) \<Rightarrow> Some (Inl e, rp1)
      | Some (Inr None, rp1) \<Rightarrow> Some (Inr False, rp1)
      | Some (Inr (Some seg), rp1) \<Rightarrow>
          let rp2 = markSeg seg rp1 in Some (Inr True, rp2\<lparr>rp_paths := rp_paths rp2 @ [seg]\<rparr>))"

text \<open>The loop over the remaining sinks; searching, marking and appending the segment are those of \<open>addPath\<close>.\<close>

primrec add_sinks :: "Point list \<Rightarrow> ResourceMgr \<Rightarrow> RoutingPath \<Rightarrow> ((rm_error + bool) \<times> RoutingPath) option" where
  "add_sinks [] M rp = Some (Inr True, rp)"
| "add_sinks (s # ss) M rp =
     (case addPath (nearestTreePoint rp s) s M rp of
        None \<Rightarrow> None
      | Some (Inl e, rp1) \<Rightarrow> Some (Inl e, rp1)
      | Some (Inr ok, rp1) \<Rightarrow> if ok then add_sinks ss M rp1 else Some (Inr False, rp1))"

text \<open>Source and sinks by the direction of the data port.\<close>

definition io_ends :: "DataIO \<Rightarrow> Point list \<Rightarrow> Point \<times> Point list" where
  "io_ends dio sinksIn =
     (case io_dmadir dio of
        MM2S \<Rightarrow> (Pt (io_rowpos dio) (io_colpos dio), sinksIn)
      | S2MM \<Rightarrow> (Pt (pt_r (last sinksIn)) (pt_c (last sinksIn)), [Pt (io_rowpos dio) (io_colpos dio)]))"

text \<open>
  \<open>addIOTree\<close> with an output parameter, which is written on success only. Two sinks with equal keys are equal, so the
  order in which \<open>std::sort\<close> leaves them cannot be seen.
\<close>

definition addIOTree_out ::
  "Point list \<Rightarrow> ResourceMgr \<Rightarrow> RoutingPath \<Rightarrow> ((rm_error + MultiPath option) \<times> RoutingPath) option"
where
  "addIOTree_out sinksIn M rp =
     (case rp_dio rp of
        None \<Rightarrow> Some (Inr None, rp)
      | Some dio \<Rightarrow>
          if sinksIn = [] then Some (Inr None, rp)
          else
            let src = fst (io_ends dio sinksIn);
                sinks = sort_key (\<lambda>p. (pt_c p, pt_r p)) (snd (io_ends dio sinksIn))
            in case addPath src (hd sinks) M rp of
                 None \<Rightarrow> None
               | Some (Inl e, rp1) \<Rightarrow> Some (Inl e, rp1)
               | Some (Inr ok, rp1) \<Rightarrow>
                   if \<not> ok then Some (Inr None, rp1)
                   else case add_sinks (tl sinks) M rp1 of
                     None \<Rightarrow> None
                   | Some (Inl e, rp2) \<Rightarrow> Some (Inl e, rp2)
                   | Some (Inr ok, rp2) \<Rightarrow>
                       if \<not> ok then Some (Inr None, rp2)
                       else Some (Inr (Some \<lparr>mp_src = src, mp_dsts = sinks, mp_branches = rp_paths rp2, mp_dataio = dio\<rparr>), rp2))"

definition addIOTree :: "Point list \<Rightarrow> ResourceMgr \<Rightarrow> RoutingPath \<Rightarrow> ((rm_error + bool) \<times> RoutingPath) option" where
  "addIOTree sinksIn M rp =
     (case addIOTree_out sinksIn M rp of
        None \<Rightarrow> None
      | Some (Inl e, rp1) \<Rightarrow> Some (Inl e, rp1)
      | Some (Inr None, rp1) \<Rightarrow> Some (Inr False, rp1)
      | Some (Inr (Some mp), rp1) \<Rightarrow> Some (Inr True, rp1\<lparr>rp_multi := Some mp\<rparr>))"

text \<open>
  The topology object. Its map of data ports shares the objects of the resource manager; of these the router reads
  position and direction, which are set at construction.
\<close>

record RoutingTopology =
  rt_gen :: string
  rt_name :: string
  rt_rm :: ResourceMgr
  rt_dataios :: "int \<rightharpoonup> DataIO"
  rt_paths :: "RoutingPath list"

text \<open>\<open>noc\<close> is the order in which the hash table of shim columns is walked, \<open>nxt\<close> the id counter of the data ports.\<close>

definition new_RoutingTopology ::
  "string \<Rightarrow> string \<Rightarrow> int \<Rightarrow> int \<Rightarrow> int \<Rightarrow> int \<Rightarrow> u32 list \<Rightarrow> int \<Rightarrow> hw_error + RoutingTopology"
where
  "new_RoutingTopology gen name startCol endCol startRow endRow noc nxt =
     (case makeResource gen name of
        Inl e \<Rightarrow> Inl e
      | Inr R \<Rightarrow>
          let M = new_ResourceMgr R noc nxt in
          Inr \<lparr>rt_gen = gen, rt_name = name,
               rt_rm = (if startCol \<ge> 0 then setPartitionBounds startCol endCol startRow endRow M else M),
               rt_dataios = Map.empty, rt_paths = []\<rparr>)"

datatype topo_error = No_shim | No_shim_dma | Mgr rm_error

definition createDataIO_at ::
  "string \<Rightarrow> Point option \<Rightarrow> DMADIRECTION \<Rightarrow> int \<Rightarrow> RoutingTopology \<Rightarrow> (topo_error + DataIO) \<times> RoutingTopology"
where
  "createDataIO_at dioName shim direction channel T =
     (case shim of
        None \<Rightarrow> (Inl No_shim, T)
      | Some p \<Rightarrow>
          (case createDataIO (if direction = MM2S then Input else Output) (pt_r p) (pt_c p) direction channel dioName [] (rt_rm T) of
             (Inl e, M) \<Rightarrow> (Inl (Mgr e), T\<lparr>rt_rm := M\<rparr>)
           | (Inr dio, M) \<Rightarrow>
               (Inr dio, T\<lparr>rt_rm := M,
                           rt_dataios := (if rt_dataios T (io_id dio) = None then (rt_dataios T)(io_id dio \<mapsto> dio)
                                          else rt_dataios T)\<rparr>)))"

definition topo_createDataIO ::
  "string \<Rightarrow> TypeBasedTileLoc option \<Rightarrow> DMADIRECTION \<Rightarrow> RoutingTopology \<Rightarrow> (topo_error + DataIO) \<times> RoutingTopology"
where
  "topo_createDataIO dioName l direct T =
     (case allocdioid (rt_rm T) of (dioId, M1) \<Rightarrow>
        (case freeShimDma l direct (sint dioId) M1 of
           (Inl e, M2) \<Rightarrow> (Inl (Mgr e), T\<lparr>rt_rm := M2\<rparr>)
         | (Inr None, M2) \<Rightarrow> (Inl No_shim_dma, T\<lparr>rt_rm := M2\<rparr>)
         | (Inr (Some f), M2) \<Rightarrow>
             createDataIO_at dioName (Some (fd_loc f)) (fd_direct f) (fd_channel f) (T\<lparr>rt_rm := M2\<rparr>)))"

definition topo_createDataIO_any :: "string \<Rightarrow> RoutingTopology \<Rightarrow> (topo_error + DataIO) \<times> RoutingTopology" where
  "topo_createDataIO_any dioName T =
     (case freeShimNoc None (rt_rm T) of
        Inl e \<Rightarrow> (Inl (Mgr e), T)
      | Inr shim \<Rightarrow> createDataIO_at dioName shim MM2S 0 T)"

definition createDataIOAtPoint ::
  "string \<Rightarrow> Point \<Rightarrow> DMADIRECTION \<Rightarrow> int \<Rightarrow> RoutingTopology \<Rightarrow> (topo_error + DataIO) \<times> RoutingTopology"
where
  "createDataIOAtPoint dioName p direction channel T = createDataIO_at dioName (Some p) direction channel T"

definition topo_ReserveTiles ::
  "((int \<Rightarrow> int) \<Rightarrow> int list \<Rightarrow> int list) \<Rightarrow> int \<Rightarrow> int \<Rightarrow> RoutingTopology \<Rightarrow> Point list \<times> RoutingTopology"
where
  "topo_ReserveTiles srt nums dioID T =
     (case reserveTiles srt dioID 8 COLUMN_FIRST None None (rt_rm T) of
        (ok, tiles, M) \<Rightarrow> (tiles, T\<lparr>rt_rm := M\<rparr>))"

definition topo_occupyLink ::
  "Point \<Rightarrow> Point \<Rightarrow> int \<Rightarrow> RoutingTopology \<Rightarrow> (rm_error + (int \<times> PortDirection \<times> PortDirection) option) \<times> RoutingTopology"
where
  "topo_occupyLink a b ioId T = (case occupyLink a b ioId (rt_rm T) of (x, M) \<Rightarrow> (x, T\<lparr>rt_rm := M\<rparr>))"

definition topo_occupyPointDirection ::
  "Point \<Rightarrow> PortDirection \<Rightarrow> bool \<Rightarrow> RoutingTopology \<Rightarrow> (rm_error + int option) \<times> RoutingTopology"
where
  "topo_occupyPointDirection a pd slave T =
     (case occupyPointDirection a pd slave (rt_rm T) of (x, M) \<Rightarrow> (x, T\<lparr>rt_rm := M\<rparr>))"

text \<open>\<open>createPath\<close>: the result of \<open>addIOTree\<close> is ignored and the path is kept and returned either way.\<close>

definition createPath ::
  "int \<Rightarrow> Point list \<Rightarrow> RoutingTopology \<Rightarrow> ((rm_error + RoutingPath option) \<times> RoutingTopology) option"
where
  "createPath dioID dsttiles T =
     (case rt_dataios T dioID of
        None \<Rightarrow> Some (Inr None, T)
      | Some dio \<Rightarrow>
          (case addIOTree dsttiles (rt_rm T) (new_RoutingPath (rt_rm T) (Some dio) []) of
             None \<Rightarrow> None
           | Some (Inl e, rp) \<Rightarrow> Some (Inl e, T)
           | Some (Inr ok, rp) \<Rightarrow> Some (Inr (Some rp), T\<lparr>rt_paths := rt_paths T @ [rp]\<rparr>)))"

text \<open>A hop the router may take: a step to a neighbour in the grid that the rules for rows allow and that has a free link.\<close>

definition hop :: "ResourceMgr \<Rightarrow> RoutingPath \<Rightarrow> Point \<Rightarrow> Point \<Rightarrow> bool" where
  "hop M rp a b = (inGrid rp a \<and> inGrid rp b \<and> connectAvailable a b M rp = Inr True \<and>
     list_ex (\<lambda>d. b = step_to a d \<and> (pt_c d \<noteq> 0 \<longrightarrow> pt_r a \<noteq> 0 \<and> \<not> (rp_M_start rp \<le> pt_r a \<and> pt_r a \<le> rp_M_end rp))) kDirs)"

definition route :: "ResourceMgr \<Rightarrow> RoutingPath \<Rightarrow> Point \<Rightarrow> Point \<Rightarrow> Point list \<Rightarrow> bool" where
  "route M rp a b ps = (ps \<noteq> [] \<and> hd ps = a \<and> last ps = b \<and> distinct ps \<and> list_all (inGrid rp) ps \<and> successively (hop M rp) ps)"

text \<open>A grid whose number of tiles is below the largest \<open>int\<close>.\<close>

definition grid_ok :: "RoutingPath \<Rightarrow> bool" where
  "grid_ok rp = (0 \<le> rp_R rp \<and> 0 \<le> rp_C rp \<and> rp_R rp * rp_C rp < int BFS_INF)"

text \<open>The query of a link between two neighbouring tiles of the grid fails.\<close>

definition link_error :: "ResourceMgr \<Rightarrow> RoutingPath \<Rightarrow> rm_error \<Rightarrow> bool" where
  "link_error M rp e = (\<exists>a. \<exists>d\<in>set kDirs. inGrid rp a \<and> inGrid rp (step_to a d) \<and> linkAvailable a (step_to a d) M = Inl e)"

text \<open>
  What the search knows. Every finite distance belongs to a tile of the grid and is the length of a loop-free walk whose
  tiles are no farther than their place in it; parents are nearer to the start; and every hop out of a reached tile is
  accounted for, save those in \<open>X\<close> and those of tiles that still wait in the queue.
\<close>

definition bfs_inv :: "ResourceMgr \<Rightarrow> RoutingPath \<Rightarrow> Point \<Rightarrow> (Point \<times> Point) set \<Rightarrow> (Point \<Rightarrow> nat) \<Rightarrow> (Point \<Rightarrow> Point) \<Rightarrow> pq_entry list \<Rightarrow> bool" where
  "bfs_inv M rp start X dist parent pq \<longleftrightarrow>
     dist start = 0 \<and> (\<forall>p. dist p \<le> BFS_INF) \<and>
     (\<forall>p. dist p < BFS_INF \<longrightarrow> inGrid rp p) \<and>
     (\<forall>p. dist p < BFS_INF \<longrightarrow> p \<noteq> start \<longrightarrow> hop M rp (parent p) p \<and> dist (parent p) < dist p) \<and>
     (\<forall>p. dist p < BFS_INF \<longrightarrow> (\<exists>w. length w = dist p + 1 \<and> distinct w \<and> list_all (inGrid rp) w \<and> last w = p \<and>
        (\<forall>i<length w. dist (w ! i) \<le> i))) \<and>
     (\<forall>p q. dist p < BFS_INF \<longrightarrow> hop M rp p q \<longrightarrow> (p, q) \<notin> X \<longrightarrow> dist q \<le> dist p + 1 \<or> pq_entry_of rp (dist p) p \<in> set pq) \<and>
     (\<forall>pri d r c. (pri, d, r, c) \<in> set pq \<longrightarrow> d < BFS_INF \<and> dist (Pt r c) \<le> d \<and> pri = getPriority rp (Pt r c))"

definition todo :: "Point \<Rightarrow> Point list \<Rightarrow> (Point \<times> Point) set" where
  "todo cur ds = {(cur, step_to cur d) | d. d \<in> set ds}"

definition grid_cells :: "RoutingPath \<Rightarrow> Point set" where
  "grid_cells rp = (\<lambda>(r, c). Pt r c) ` ({0..<rp_R rp} \<times> {0..<rp_C rp})"

text \<open>What the loop leaves: where the goal was not reached, no sequence of hops reaches it.\<close>

definition loop_done :: "ResourceMgr \<Rightarrow> RoutingPath \<Rightarrow> Point \<Rightarrow> Point \<Rightarrow> rm_error + (Point \<Rightarrow> nat) \<times> (Point \<Rightarrow> Point) \<Rightarrow> bool" where
  "loop_done M rp start goal res =
     (case res of
        Inl e \<Rightarrow> link_error M rp e
      | Inr (dist, parent) \<Rightarrow> (\<exists>pq. bfs_inv M rp start {} dist parent pq) \<and> (dist goal = BFS_INF \<longrightarrow> \<not> (hop M rp)\<^sup>*\<^sup>* start goal))"

definition search_result :: "ResourceMgr \<Rightarrow> RoutingPath \<Rightarrow> Point \<Rightarrow> Point \<Rightarrow> rm_error + Point list option \<Rightarrow> bool" where
  "search_result M rp start goal res =
     (case res of
        Inl e \<Rightarrow> link_error M rp e
      | Inr None \<Rightarrow> \<not> inGrid rp start \<or> \<not> inGrid rp goal \<or> rp_wall rp start \<or> rp_wall rp goal \<or> \<not> (hop M rp)\<^sup>*\<^sup>* start goal
      | Inr (Some ps) \<Rightarrow> route M rp start goal ps)"




section \<open>Routes\<close>

lemma Pt_eta [simp]: "Pt (pt_r p) (pt_c p) = p"
  by (cases p) simp

lemma inGrid_cells: "inGrid rp p \<longleftrightarrow> p \<in> grid_cells rp"
  by (cases p) (auto simp: inGrid_def grid_cells_def image_iff)

lemma finite_cells [simp]: "finite (grid_cells rp)"
  by (simp add: grid_cells_def)

lemma card_cells: "grid_ok rp \<Longrightarrow> card (grid_cells rp) < BFS_INF"
proof -
  assume g: "grid_ok rp"
  have "card (grid_cells rp) \<le> card ({0..<rp_R rp} \<times> {0..<rp_C rp})" unfolding grid_cells_def by (rule card_image_le) simp
  also have "\<dots> = nat (rp_R rp * rp_C rp)" using g by (simp add: grid_ok_def nat_mult_distrib)
  also have "\<dots> < BFS_INF" using g by (auto simp: grid_ok_def BFS_INF_def)
  finally show ?thesis .
qed

lemma step_to_ne: "d \<in> set kDirs \<Longrightarrow> step_to p d \<noteq> p"
  by (cases p) (auto simp: kDirs_def step_to_def)

section \<open>The search returns\<close>

lemma relax_dir_measure:
  assumes "relax_dir M rp cur d (dist, parent, pq) = Inr (dist', parent', pq')"
  shows "(dist', pq') = (dist, pq) \<or> sum dist' (grid_cells rp) < sum dist (grid_cells rp)"
proof (cases "dist' = dist \<and> pq' = pq")
  case False
  then have n: "step_to cur d \<in> grid_cells rp" "dist' = dist(step_to cur d := dist cur + 1)" "dist cur + 1 < dist (step_to cur d)"
    using assms by (auto simp: relax_dir_def Let_def inGrid_cells [symmetric] split: if_splits sum.splits)
  have "sum dist' (grid_cells rp) < sum dist (grid_cells rp)"
    by (rule sum_strict_mono_ex1) (use n in \<open>auto intro!: bexI [of _ "step_to cur d"]\<close>)
  then show ?thesis ..
qed simp

lemma relax_all_measure:
  "relax_all M rp cur ds (dist, parent, pq) = Inr (dist', parent', pq') \<Longrightarrow>
   (dist', pq') = (dist, pq) \<or> sum dist' (grid_cells rp) < sum dist (grid_cells rp)"
proof (induction ds arbitrary: dist parent pq)
  case (Cons d ds)
  then obtain d1 p1 q1 where 1: "relax_dir M rp cur d (dist, parent, pq) = Inr (d1, p1, q1)"
    "relax_all M rp cur ds (d1, p1, q1) = Inr (dist', parent', pq')"
    by (auto split: sum.splits)
  from relax_dir_measure [OF 1(1)] Cons.IH [OF 1(2)] show ?case by auto
qed simp

text \<open>Induction over the iterations of the loop: the sum of the distances falls, or the queue gets shorter.\<close>

lemma bfs_loop_induct [case_names iter]:
  assumes "\<And>dist parent pq. (\<And>dist' parent' pq'.
      sum dist' (grid_cells rp) < sum dist (grid_cells rp) \<or>
        sum dist' (grid_cells rp) = sum dist (grid_cells rp) \<and> length pq' < length pq \<Longrightarrow> P dist' parent' pq') \<Longrightarrow> P dist parent pq"
  shows "P (dist :: Point \<Rightarrow> nat) (parent :: Point \<Rightarrow> Point) (pq :: pq_entry list)"
proof (induction "(sum dist (grid_cells rp), length pq)" arbitrary: dist parent pq rule: wf_induct_rule [OF wf_lex_prod [OF wf_less wf_less]])
  case 1
  show ?case by (rule assms) (rule 1, auto)
qed

section \<open>The invariant\<close>

lemma bfs_invD:
  assumes "bfs_inv M rp start X dist parent pq"
  shows "dist start = 0" "dist p \<le> BFS_INF" "dist p < BFS_INF \<Longrightarrow> inGrid rp p"
    "dist p < BFS_INF \<Longrightarrow> p \<noteq> start \<Longrightarrow> hop M rp (parent p) p \<and> dist (parent p) < dist p"
    "dist p < BFS_INF \<Longrightarrow> \<exists>w. length w = dist p + 1 \<and> distinct w \<and> list_all (inGrid rp) w \<and> last w = p \<and> (\<forall>i<length w. dist (w ! i) \<le> i)"
    "dist p < BFS_INF \<Longrightarrow> hop M rp p q \<Longrightarrow> (p, q) \<notin> X \<Longrightarrow> dist q \<le> dist p + 1 \<or> pq_entry_of rp (dist p) p \<in> set pq"
    "(pri, d, r, c) \<in> set pq \<Longrightarrow> d < BFS_INF \<and> dist (Pt r c) \<le> d \<and> pri = getPriority rp (Pt r c)"
  using assms unfolding bfs_inv_def by blast+

lemma bfs_inv_change:
  assumes "bfs_inv M rp start X dist parent pq" "set pq' \<subseteq> set pq"
    and "\<And>p q. dist p < BFS_INF \<Longrightarrow> hop M rp p q \<Longrightarrow> (p, q) \<notin> Y \<Longrightarrow> (p, q) \<in> X \<or> pq_entry_of rp (dist p) p \<in> set pq - set pq' \<Longrightarrow>
      dist q \<le> dist p + 1"
  shows "bfs_inv M rp start Y dist parent pq'"
proof -
  have "dist q \<le> dist p + 1 \<or> pq_entry_of rp (dist p) p \<in> set pq'" if "dist p < BFS_INF" "hop M rp p q" "(p, q) \<notin> Y" for p q
    using assms(3) [OF that] bfs_invD(6) [OF assms(1) that(1,2)] by blast
  then show ?thesis using assms(1,2) unfolding bfs_inv_def by blast
qed

lemma walk_extends:
  assumes "length w = dist cur + 1" "distinct w" "list_all (inGrid rp) w" "\<forall>i<length w. dist (w ! i) \<le> i"
    and "inGrid rp n" "dist cur + 1 < dist n"
  shows "\<exists>w'. length w' = dist cur + 2 \<and> distinct w' \<and> list_all (inGrid rp) w' \<and> last w' = n \<and>
    (\<forall>i<length w'. (dist(n := dist cur + 1)) (w' ! i) \<le> i)"
proof (intro exI [of _ "w @ [n]"] conjI allI impI)
  have "n \<notin> set w" using assms(1,4,6) by (fastforce simp: in_set_conv_nth)
  then show "distinct (w @ [n])" using assms(2) by simp
  show "(dist(n := dist cur + 1)) ((w @ [n]) ! i) \<le> i" if "i < length (w @ [n])" for i
    using that assms(1,4) \<open>n \<notin> set w\<close> by (cases "i < length w") (auto simp: nth_append dest: nth_mem)
qed (use assms in auto)

lemma relaxed_keeps:
  assumes inv: "bfs_inv M rp start (todo cur (d # ds)) dist parent pq" and d: "d \<in> set kDirs" and cur: "dist cur < BFS_INF"
    and h: "hop M rp cur (step_to cur d)" and lt: "dist cur + 1 < dist (step_to cur d)"
  shows "bfs_inv M rp start (todo cur ds) (dist(step_to cur d := dist cur + 1)) (parent(step_to cur d := cur))
    (insort (pq_entry_of rp (dist cur + 1) (step_to cur d)) pq)"
proof -
  define n where "n = step_to cur d"
  define D where "D = dist(n := dist cur + 1)"
  note I = bfs_invD [OF inv]
  have nc: "n \<noteq> cur" using step_to_ne [OF d] by (simp add: n_def)
  have lt': "dist cur + 1 < dist n" using lt by (simp add: n_def)
  have ns: "n \<noteq> start" using lt' I(1) by auto
  have le: "D x \<le> dist x" for x using lt' by (simp add: D_def)
  have lo: "dist cur + 1 < BFS_INF" using lt' I(2) [of n] by simp
  have Dn: "D n = dist cur + 1" and Dp: "p \<noteq> n \<Longrightarrow> D p = dist p" for p by (simp_all add: D_def)
  have gn: "inGrid rp n" using h by (simp add: hop_def n_def)
  have 1: "hop M rp ((parent(n := cur)) p) p \<and> D ((parent(n := cur)) p) < D p" if "D p < BFS_INF" "p \<noteq> start" for p
  proof (cases "p = n")
    case True then show ?thesis using h nc by (simp add: Dn Dp) (simp add: n_def)
  next
    case False
    with I(4) [of p] that le [of "parent p"] show ?thesis by (simp add: Dp)
  qed
  have 2: "\<exists>w. length w = D p + 1 \<and> distinct w \<and> list_all (inGrid rp) w \<and> last w = p \<and> (\<forall>i<length w. D (w ! i) \<le> i)"
    if "D p < BFS_INF" for p
  proof (cases "p = n")
    case True
    from I(5) [OF cur] walk_extends [of _ dist cur rp n] gn lt' show ?thesis unfolding True Dn by (fastforce simp: D_def)
  next
    case False
    with I(5) [of p] that show ?thesis by (force simp: Dp intro: order_trans [OF le])
  qed
  have 3: "D q \<le> D p + 1 \<or> pq_entry_of rp (D p) p \<in> set (insort (pq_entry_of rp (dist cur + 1) n) pq)"
    if "D p < BFS_INF" "hop M rp p q" "(p, q) \<notin> todo cur ds" for p q
  proof (cases "p = n \<or> (p, q) = (cur, n)")
    case True then show ?thesis using nc by (auto simp: Dn Dp set_insort_key)
  next
    case False
    then have "(p, q) \<notin> todo cur (d # ds)" using that(3) by (auto simp: todo_def n_def)
    with False I(6) [of p q] that(1,2) le [of q] show ?thesis by (auto simp: Dp set_insort_key)
  qed
  have 4: "e < BFS_INF \<and> D (Pt r c) \<le> e \<and> pri = getPriority rp (Pt r c)"
    if "(pri, e, r, c) \<in> set (insort (pq_entry_of rp (dist cur + 1) n) pq)" for pri e r c
    using that I(7) [of pri e r c] lo le [of "Pt r c"] by (auto simp: set_insort_key pq_entry_of_def Dn)
  have "D p \<le> BFS_INF" "D p < BFS_INF \<Longrightarrow> inGrid rp p" "D start = 0" for p
    using le [of p] I(2,3) [of p] gn ns I(1) by (auto simp: D_def split: if_splits)
  with 1 2 3 4 show ?thesis unfolding bfs_inv_def n_def [symmetric] D_def [symmetric] by blast
qed

lemma relax_dir_keeps:
  assumes inv: "bfs_inv M rp start (todo cur (d # ds)) dist parent pq" and d: "d \<in> set kDirs" and cur: "dist cur < BFS_INF"
    and r: "relax_dir M rp cur d (dist, parent, pq) = Inr (dist', parent', pq')"
  shows "bfs_inv M rp start (todo cur ds) dist' parent' pq' \<and> dist' cur < BFS_INF"
proof -
  let ?n = "step_to cur d"
  have hopn: "hop M rp cur ?n \<longleftrightarrow> inGrid rp cur \<and> inGrid rp ?n \<and> connectAvailable cur ?n M rp = Inr True \<and>
     (pt_c d \<noteq> 0 \<longrightarrow> pt_r cur \<noteq> 0 \<and> \<not> (rp_M_start rp \<le> pt_r cur \<and> pt_r cur \<le> rp_M_end rp))"
    using d by (cases d) (auto simp: hop_def list_ex_iff kDirs_def step_to_def)
  show ?thesis
  proof (cases "dist' = dist \<and> parent' = parent \<and> pq' = pq")
    case True
    have "hop M rp cur ?n \<Longrightarrow> dist ?n \<le> dist cur + 1"
      using r True unfolding hopn by (auto simp: relax_dir_def Let_def fun_upd_idem_iff split: if_splits sum.splits)
    then have "bfs_inv M rp start (todo cur ds) dist parent pq"
      by (intro bfs_inv_change [OF inv]) (auto simp: todo_def)
    then show ?thesis using True cur by simp
  next
    case False
    then have h: "hop M rp cur ?n" and lt: "dist cur + 1 < dist ?n" and
      st: "dist' = dist(?n := dist cur + 1)" "parent' = parent(?n := cur)" "pq' = insort (pq_entry_of rp (dist cur + 1) ?n) pq"
      using r inv cur unfolding hopn by (auto simp: relax_dir_def Let_def bfs_inv_def split: if_splits sum.splits)
    from relaxed_keeps [OF inv d cur h lt] st show ?thesis using cur step_to_ne [OF d, THEN not_sym] by simp
  qed
qed

lemma relax_all_keeps:
  "bfs_inv M rp start (todo cur ds) dist parent pq \<Longrightarrow> set ds \<subseteq> set kDirs \<Longrightarrow> dist cur < BFS_INF \<Longrightarrow>
   relax_all M rp cur ds (dist, parent, pq) = Inr (dist', parent', pq') \<Longrightarrow> bfs_inv M rp start {} dist' parent' pq'"
proof (induction ds arbitrary: dist parent pq)
  case (Cons d ds)
  then obtain d1 p1 q1 where 1: "relax_dir M rp cur d (dist, parent, pq) = Inr (d1, p1, q1)"
    "relax_all M rp cur ds (d1, p1, q1) = Inr (dist', parent', pq')"
    by (auto split: sum.splits)
  from relax_dir_keeps [OF Cons.prems(1) _ Cons.prems(3) 1(1)] Cons.IH [OF _ _ _ 1(2)] Cons.prems(2) show ?case by simp
qed (simp add: todo_def)

lemma relax_all_error:
  assumes "relax_all M rp cur ds st = Inl e" "set ds \<subseteq> set kDirs" "inGrid rp cur"
  shows "link_error M rp e"
  using assms(1,2)
proof (induction ds arbitrary: st)
  case (Cons d ds)
  show ?case
  proof (cases "relax_dir M rp cur d st")
    case (Inl x)
    then have "inGrid rp (step_to cur d) \<and> linkAvailable cur (step_to cur d) M = Inl x"
      by (auto simp: relax_dir_def connectAvailable_def Let_def split: if_splits sum.splits prod.splits)
    with Inl Cons.prems assms(3) show ?thesis unfolding link_error_def by (auto intro!: exI [of _ cur] bexI [of _ d])
  qed (use Cons in auto)
qed simp

lemma pop_keeps:
  assumes "bfs_inv M rp start {} dist parent ((pri, e, r, c) # pq)"
  shows "dist (Pt r c) < e \<Longrightarrow> bfs_inv M rp start {} dist parent pq" (is "_ \<Longrightarrow> ?skip")
    and "bfs_inv M rp start (todo (Pt r c) kDirs) dist parent pq" (is ?take)
proof -
  have hd: "hop M rp p q \<Longrightarrow> (p, q) \<in> todo p kDirs" for p q by (auto simp: hop_def todo_def list_ex_iff)
  have own: "pt_r p = r \<Longrightarrow> pt_c p = c \<Longrightarrow> p = Pt r c" for p by auto
  show ?skip if "dist (Pt r c) < e"
    by (rule bfs_inv_change [OF assms]) (use that in \<open>auto simp: pq_entry_of_def\<close>)
  show ?take
    by (rule bfs_inv_change [OF assms]) (use hd in \<open>auto simp: pq_entry_of_def dest!: own\<close>)
qed

lemma closed_reaches:
  assumes g: "grid_ok rp" and inv: "bfs_inv M rp start {} dist parent []" and r: "(hop M rp)\<^sup>*\<^sup>* start q"
  shows "dist q < BFS_INF"
  using r
proof (induction rule: rtranclp_induct)
  case base
  then show ?case using bfs_invD(1) [OF inv] by (simp add: BFS_INF_def)
next
  case (step p q)
  from bfs_invD(5) [OF inv step.IH] obtain w where w: "length w = dist p + 1" "distinct w" "set w \<subseteq> grid_cells rp"
    by (auto simp: list_all_iff inGrid_cells)
  have "dist p + 1 \<le> card (grid_cells rp)" using card_mono [OF finite_cells w(3)] w(1,2) by (simp add: distinct_card)
  with card_cells [OF g] bfs_invD(6) [OF inv step.IH step.hyps(2)] show ?case by simp
qed

lemma bfs_loop_spec:
  assumes g: "grid_ok rp"
  shows "bfs_inv M rp start {} dist parent pq \<Longrightarrow> \<exists>res. bfs_loop M rp goal dist parent pq = Some res \<and> loop_done M rp start goal res"
proof (induction dist parent pq rule: bfs_loop_induct [where rp = rp])
  case (iter dist parent pq)
  note inv = iter.prems and IH = iter.IH
  show ?case
  proof (cases pq)
    case Nil
    have "loop_done M rp start goal (Inr (dist, parent))"
      using closed_reaches [OF g, of M start dist parent goal] inv by (auto simp: loop_done_def Nil)
    then show ?thesis by (subst bfs_loop.simps) (simp add: Nil)
  next
    case (Cons e pq')
    obtain pri d r c where e: "e = (pri, d, r, c)" by (cases e)
    note inv' = inv [unfolded Cons e]
    have d: "d < BFS_INF" "dist (Pt r c) \<le> d" using bfs_invD(7) [OF inv', of pri d r c] by auto
    consider "dist (Pt r c) < d" | "d = dist (Pt r c)" "Pt r c = goal" | "d = dist (Pt r c)" "Pt r c \<noteq> goal" using d(2) by linarith
    then show ?thesis
    proof cases
      case 1
      with IH [OF _ pop_keeps(1) [OF inv']] show ?thesis by (subst bfs_loop.simps) (simp add: Cons e)
    next
      case 2
      then have "loop_done M rp start goal (Inr (dist, parent))" using inv d by (auto simp: loop_done_def)
      with 2 show ?thesis by (subst bfs_loop.simps) (simp add: Cons e)
    next
      case 3
      show ?thesis
      proof (cases "relax_all M rp (Pt r c) kDirs (dist, parent, pq')")
        case (Inl x)
        from relax_all_error [OF this] bfs_invD(3) [OF inv'] d 3(1) have "loop_done M rp start goal (Inl x)" by (simp add: loop_done_def)
        with Inl 3 show ?thesis by (subst bfs_loop.simps) (simp add: Cons e)
      next
        case (Inr st)
        obtain d1 p1 q1 where st: "st = (d1, p1, q1)" by (cases st)
        note R = Inr [unfolded st]
        have "bfs_inv M rp start {} d1 p1 q1" using relax_all_keeps [OF pop_keeps(2) [OF inv'] _ _ R] d 3(1) by simp
        then have "\<exists>res. bfs_loop M rp goal d1 p1 q1 = Some res \<and> loop_done M rp start goal res"
          by (rule IH [rotated]) (use relax_all_measure [OF R] in \<open>auto simp: Cons\<close>)
        with R 3 show ?thesis by (subst bfs_loop.simps) (simp add: Cons e)
      qed
    qed
  qed
qed

lemma bfs_inv_start:
  assumes "inGrid rp start"
  shows "bfs_inv M rp start {} ((\<lambda>_. BFS_INF)(start := 0)) parent [pq_entry_of rp 0 start]"
proof -
  have "\<exists>w. length w = 1 \<and> distinct w \<and> list_all (inGrid rp) w \<and> last w = start \<and> (\<forall>i<length w. ((\<lambda>_. BFS_INF)(start := 0)) (w ! i) \<le> i)"
    by (rule exI [of _ "[start]"]) (simp add: assms)
  then show ?thesis using assms unfolding bfs_inv_def by (auto simp: pq_entry_of_def BFS_INF_def split: if_splits)
qed

lemma rebuild_route:
  assumes inv: "bfs_inv M rp start X dist parent pq"
  shows "dist p < BFS_INF \<Longrightarrow> \<exists>ps. bfs_rebuild rp parent start p out = Some (Inr (ps @ rev out)) \<and>
    route M rp start p ps \<and> (\<forall>x\<in>set ps. dist x \<le> dist p)"
proof (induction "dist p" arbitrary: p out rule: less_induct)
  case less
  show ?case
  proof (cases "p = start")
    case True
    then show ?thesis using bfs_invD(3) [OF inv less.prems] by (subst bfs_rebuild.simps) (simp add: route_def)
  next
    case False
    note P = bfs_invD(3,4) [OF inv less.prems]
    have p: "hop M rp (parent p) p" "dist (parent p) < dist p" "inGrid rp p" using P False by auto
    with less.hyps [of "parent p" "out @ [p]"] less.prems obtain ps where
      ps: "bfs_rebuild rp parent start (parent p) (out @ [p]) = Some (Inr (ps @ rev (out @ [p])))"
      "route M rp start (parent p) ps" "\<forall>x\<in>set ps. dist x \<le> dist (parent p)" by auto
    have "bfs_rebuild rp parent start p out = Some (Inr ((ps @ [p]) @ rev out))"
      using False p(3) ps(1) by (subst bfs_rebuild.simps) simp
    moreover have "route M rp start p (ps @ [p])"
      using ps(2,3) p by (fastforce simp: route_def successively_append_iff)
    ultimately show ?thesis using ps(3) p(2) by (intro exI [of _ "ps @ [p]"]) (auto intro: order_trans less_imp_le)
  qed
qed



lemma bfsSingle_result:
  assumes "grid_ok rp"
  shows "\<exists>res rp'. bfsSingle start goal M rp = Some (res, rp') \<and> search_result M rp start goal res \<and> (\<exists>q. rp' = rp\<lparr>rp_parent := q\<rparr>)"
proof (cases "\<not> inGrid rp start \<or> \<not> inGrid rp goal \<or> rp_wall rp start \<or> rp_wall rp goal")
  case True
  have "\<exists>q. rp = rp\<lparr>rp_parent := q\<rparr>" by (rule exI [of _ "rp_parent rp"]) simp
  with True show ?thesis by (auto simp: bfsSingle_def search_result_def)
next
  case False
  have "\<exists>q. rp = rp\<lparr>rp_parent := q\<rparr>" by (rule exI [of _ "rp_parent rp"]) simp
  note bfs_loop_spec [OF assms bfs_inv_start, where parent = "(rp_parent rp)(start := Pt (-1) (-1))" and start = start and goal = goal and M = M]
  with False obtain res where res: "bfs_loop M rp goal ((\<lambda>_. BFS_INF)(start := 0)) ((rp_parent rp)(start := Pt (-1) (-1))) [pq_entry_of rp 0 start] = Some res"
    "loop_done M rp start goal res" by auto
  show ?thesis
  proof (cases res)
    case (Inl e)
    with res False \<open>\<exists>q. _\<close> show ?thesis by (simp add: bfsSingle_def search_result_def loop_done_def)
  next
    case (Inr dp)
    obtain dist parent where dp: "dp = (dist, parent)" by (cases dp)
    from res(2) obtain pq where pq: "bfs_inv M rp start {} dist parent pq" "dist goal = BFS_INF \<longrightarrow> \<not> (hop M rp)\<^sup>*\<^sup>* start goal"
      by (auto simp: loop_done_def Inr dp)
    show ?thesis
    proof (cases "dist goal = BFS_INF")
      case True
      with res(1) False pq show ?thesis by (auto simp: bfsSingle_def search_result_def Inr dp)
    next
      case False
      with bfs_invD(2) [OF pq(1), of goal] have "dist goal < BFS_INF" by simp
      from rebuild_route [OF pq(1) this, of "[]"] False res(1) \<open>\<not> (\<not> inGrid rp start \<or> _)\<close> show ?thesis
        by (auto simp: bfsSingle_def search_result_def Inr dp)
    qed
  qed
qed













section \<open>Correctness of the router\<close>

text \<open>
  C35. The route search always returns. A route it finds starts and ends at the right tiles, visits no tile twice, stays
  in the grid, and every hop of it respects the row rules, the walls and the partition and has a free link; where it
  reports that there is none, no sequence of such hops leads to the goal. It fails only where a query of a link between
  neighbouring tiles fails.
\<close>

theorem route_search:
  assumes "grid_ok rp"
  shows "\<exists>res rp'. bfsSingle start goal M rp = Some (res, rp') \<and>
    (case res of
       Inl e \<Rightarrow> link_error M rp e
     | Inr None \<Rightarrow> \<not> (inGrid rp start \<and> inGrid rp goal \<and> \<not> rp_wall rp start \<and> \<not> rp_wall rp goal \<and> (hop M rp)\<^sup>*\<^sup>* start goal)
     | Inr (Some ps) \<Rightarrow> route M rp start goal ps)"
proof -
  obtain res rp' where r: "bfsSingle start goal M rp = Some (res, rp')" "search_result M rp start goal res"
    using bfsSingle_result [OF assms] by blast
  have "case res of
       Inl e \<Rightarrow> link_error M rp e
     | Inr None \<Rightarrow> \<not> (inGrid rp start \<and> inGrid rp goal \<and> \<not> rp_wall rp start \<and> \<not> rp_wall rp goal \<and> (hop M rp)\<^sup>*\<^sup>* start goal)
     | Inr (Some ps) \<Rightarrow> route M rp start goal ps"
    using r(2) by (auto simp: search_result_def split: sum.splits option.splits)
  with r(1) show ?thesis by blast
qed

theorem route_search_witness:
  "\<exists>res rp'. bfsSingle (Pt 0 0) (Pt 1 0) sample_mesh (new_RoutingPath sample_mesh None []) = Some (res, rp') \<and>
    (case res of
       Inl e \<Rightarrow> link_error sample_mesh (new_RoutingPath sample_mesh None []) e
     | Inr None \<Rightarrow> \<not> (inGrid (new_RoutingPath sample_mesh None []) (Pt 0 0) \<and> inGrid (new_RoutingPath sample_mesh None []) (Pt 1 0) \<and>
         \<not> rp_wall (new_RoutingPath sample_mesh None []) (Pt 0 0) \<and> \<not> rp_wall (new_RoutingPath sample_mesh None []) (Pt 1 0) \<and>
         (hop sample_mesh (new_RoutingPath sample_mesh None []))\<^sup>*\<^sup>* (Pt 0 0) (Pt 1 0))
     | Inr (Some ps) \<Rightarrow> route sample_mesh (new_RoutingPath sample_mesh None []) (Pt 0 0) (Pt 1 0) ps)"
  by (rule route_search)
    (simp add: grid_ok_def BFS_INF_def new_RoutingPath_def addObstacles_def rm_rows_def rm_cols_def sample_mesh_def new_ResourceMgr_def)



end
