(* ===== verification/Spec2Isabelle.thy ===== *)
theory Spec2Isabelle
  imports CtrlpktTool CtrlpktSeg CtrlpktSplit ControlFabric NbSupervisor ResourceControl ResourceMem Routing
begin

text \<open>
  The program compiles tile programs for an array of AI engines and runs them from a host processor. This development
  covers the parts of it whose behaviour is decided by code in the repository alone: how control packets are encoded, how
  the stream switches of the control plane are planned, how the router hands out the resources of the device to data
  flows and routes them, and how the supervisor receives, places and runs an uploaded program. Paths below are relative
  to the root of the repository, \<open>src/\<close>.

  \<^bold>\<open>Control packets.\<close> A register write travels to a tile as a packet: a stream header, a control word with the address
  and an odd parity bit, and up to four data words.
  \<^item> \<open>CtrlpktEncode\<close> models the packetising loop of \<open>src/mlir/runtime/aie_ctrlpkt_encode.c\<close> and the reader of
    \<open>src/tool/ctrlpkt/ctrlpkt_dbg.c\<close>. What the reader recovers is what was asked for, and nothing is stored past the
    capacity.
  \<^item> \<open>CtrlpktElf\<close> models the address translation, the ELF walk and \<open>rt_cpe_encode_body\<close>. The locale \<open>emitter\<close> is the
    contract of a routine that appends packets to a bounded buffer, \<open>tracking_emitter\<close> adds the count and the last
    access; the segment, reset and body encoders are instances. The array, decoded, is the list of writes of the loaded
    segments with the last one repeated as the acknowledged one.
  \<^item> \<open>CtrlpktTool\<close> models the offline encoder \<open>src/tool/ctrlpkt/aiehlc_ctrlpkt.c\<close>: the manifest lookup, the buffer size it
    computes (shown to be enough), and the walk that prints the array (shown to print every word once).
  \<^item> \<open>CtrlpktSeg\<close> is the segment builder (\<open>rt_cpe_seg_write\<close>, \<open>rt_cpe_seg_finish\<close>), which merges adjacent writes; the merged
    packets decode to the requested writes and stay within a 16-byte line. \<open>CtrlpktSplit\<close> is \<open>rt_cpe_ret_split\<close>.

  \<^bold>\<open>Control plane.\<close>
  \<^item> \<open>CtrlResource\<close> is the reservation table of \<open>src/mlir/runtime/aie_runtime_resource.c\<close>.
  \<^item> \<open>ControlPlan\<close> is the planner \<open>aie_runtime_control_plan.c\<close>: steps on a port book and a bounded list of switch operations,
    composed as the code composes them; the locale \<open>planner_step\<close> is their contract.
  \<^item> \<open>ControlFabric\<close> is \<open>rt_ctrl_plan_add_rows\<close> of \<open>aie_runtime.c\<close>. Programmed switches are a step relation on (tile, port)
    pairs, with the choice among the slots of a port in the locale \<open>slot_arbitration\<close>; the properties say that a packet injected at the shim reaches exactly the control ports it is meant for, that
    responses come back, that no port has two drivers and that only reserved resources are used.

  \<^bold>\<open>Router.\<close> Under \<open>src/mlir/mlirfront/tilinglinalg/pass/routingimplement/\<close>:
  \<^item> \<open>HwResource\<close> is \<open>hw/hwresource.cpp\<close>, the description of each device.
  \<^item> \<open>ResourceManager\<close> holds every operation of \<open>hw/ResourceManager.cpp\<close> over one record; an exception or an access out
    of range is an \<open>rm_error\<close>. \<open>ResourcePools\<close> has the locale \<open>slot_pool\<close>, with descriptors, locks, packet ids and shim DMA
    channels as its instances; \<open>ResourceLinks\<close>, \<open>ResourceTiles\<close>, \<open>ResourceControl\<close> and \<open>ResourceMem\<close> show the behaviour of
    links, tile reservations, the exclusion of control resources, and the data memory of a core.
  \<^item> \<open>Routing\<close> is the tree router \<open>routing/routingpath.cpp\<close> and the object around it, \<open>routing/routingtopology.cpp\<close>. The
    search is shown to return, to find a usable loop-free route exactly where one exists, and its trees to connect all sinks.

  \<^bold>\<open>Netboot.\<close> Under \<open>src/tool/netboot/supervisor/\<close>:
  \<^item> \<open>NbElf\<close> is \<open>elfload.c\<close> over a byte memory: whatever the image holds, an accepted one writes inside the application
    window only (up to the exception the properties state), and loads what its headers say.
  \<^item> \<open>NbSha256\<close> is \<open>sha256.c\<close>, equal to the padded block-wise definition for every table of round constants.
  \<^item> \<open>NbSupervisor\<close> is the supervisor itself, \<open>apu.c\<close>, \<open>main.c\<close> and \<open>server.c\<close>, as steps on one record driven by events;
    the clock and the platform firmware are parameters whose answers depend on the number of calls made. It calls the
    loader and the digest of the two theories above.

  This theory adds what spans components: control and data traffic never share a switch resource.

  \<^bold>\<open>Conventions.\<close> C integers keep their width (\<open>u8\<close> to \<open>u64\<close>) where wrap-around can be seen. A C pointer is a function
  from indices to values, so that what a routine leaves alone can be stated. Loops with a machine counter are
  \<open>partial_function (option)\<close> and are shown to return; there is no fuel. Driver calls, \<open>std::sort\<close> (up to the order of
  equals), the order of hash tables, and the SHA-256 round constants are parameters.

  \<^bold>\<open>Not modelled.\<close> The compiler passes and front ends work on data structures of MLIR, LLVM, Clang, TVM and PyTorch, which
  are outside the repository. The network stack and the start-up of the supervisor are third-party code and hardware
  set-up. The remaining host runtime and the debug runtime are sequences of driver calls and waiting
  loops on device registers. Kernels use the vector interface of the AIE compiler. The simulator bridge, the debug tools
  and the host side of netboot are input and output. Within the modelled parts console messages, file
  handling and cache maintenance are left out. The rewriter of call sites in generated host programs
  (\<open>src/tool/ctrlpkt/aiehlc_ctrlpkt_sites.c\<close>) is text processing of files and is left out as well.
\<close>

section \<open>Control plane and data plane\<close>

text \<open>
  C28. Control traffic and data traffic do not share switch resources: once the resource manager has reserved the control
  plane, the arbiter, the slave slots and the packet ids it hands to data flows differ from those of every slot and
  master the runtime programs for a control fabric.
\<close>

theorem planes_disjoint:
  assumes "fst (rt_ctrl_plan_add_rows drv chs (ctrl_fabric0 shim_col ctrl_id defer_on False)) = XAIE_OK" "distinct (map ch_row chs)"
    and "op \<in> fab_ops (snd (rt_ctrl_plan_add_rows drv chs (ctrl_fabric0 shim_col ctrl_id defer_on False)))"
    and "reserveControlPlaneResources gen M = (None, M')" "\<not> rm_controlReserved M" "length (rm_pktIdPool M) = kMaxPktId"
  shows "(op_kind op \<in> {ACR_OP_SLOT, ACR_OP_MASTER_EN} \<longrightarrow> dataPlanePktArbiter M' \<noteq> Some (unat (op_arbiter op))) \<and>
    (op_kind op = ACR_OP_SLOT \<longrightarrow>
       (\<forall>dir. res_port_no dir = Some (of_nat (acr_port_no (op_sport op))) \<longrightarrow> dataPlanePktSlaveSlot dir M' \<noteq> Some (unat (op_slot op))) \<and>
       (\<forall>ops. (\<forall>j w. PRelease j w \<in> set ops \<longrightarrow> 0 \<le> w) \<longrightarrow>
          int (unat (op_pkt_id op)) \<notin> set (fst (pool_run allocatePktId releasePktId ops M'))))"
proof (intro conjI impI allI)
  note res = fab_ops_reserved [OF assms(1-3), of gen]
  show "dataPlanePktArbiter M' \<noteq> Some (unat (op_arbiter op))" if "op_kind op \<in> {ACR_OP_SLOT, ACR_OP_MASTER_EN}"
    using res that data_arbiter_free [OF assms(4,5)] by (auto simp: op_reserved_def dest: reserved_mask_bits)
  show "dataPlanePktSlaveSlot dir M' \<noteq> Some (unat (op_slot op))"
    if "op_kind op = ACR_OP_SLOT" "res_port_no dir = Some (of_nat (acr_port_no (op_sport op)))" for dir
    using res that(1) data_slot_free [OF assms(4,5) that(2)] by (auto simp: op_reserved_def dest: reserved_mask_bits)
  show "int (unat (op_pkt_id op)) \<notin> set (fst (pool_run allocatePktId releasePktId ops M'))"
    if "op_kind op = ACR_OP_SLOT" "\<forall>j w. PRelease j w \<in> set ops \<longrightarrow> 0 \<le> w" for ops
  proof -
    have b: "bit (res_reserved_pktid_mask gen) (unat (op_pkt_id op))" using res that(1) by (auto simp: op_reserved_def dest: reserved_mask_bits)
    then have "unat (op_pkt_id op) < kMaxPktId" using bit_imp_le_length [OF b] by (simp add: kMaxPktId_def)
    from pktids_kept [OF assms(4-6) this b that(2)] show ?thesis .
  qed
qed

theorem planes_disjoint_witness:
  "\<exists>M'. reserveControlPlaneResources RT_RES_GEN5 sample_empty = (None, M') \<and> dataPlanePktArbiter M' \<noteq> Some (unat RT_RES_ARB_RET)"
proof -
  let ?r = "rt_ctrl_plan_add_rows \<lparr>drv_row_op = \<lambda>op. XAIE_OK, drv_idle = True, drv_capture = \<lambda>ops. True\<rparr>
       [\<lparr>ch_row = 2, ch_col_lo = 0, ch_col_hi = 1\<rparr>] (ctrl_fabric0 0 2 False False)"
  let ?op = "acr_master_op 0 2 ACR_SOUTH 3 RT_RES_ARB_RET"
  have 1: "fst ?r = XAIE_OK" and "?op \<in> set (hw_ops (snd ?r))" by code_simp+
  then have 2: "?op \<in> fab_ops (snd ?r)" by (simp add: fab_ops_def)
  obtain M' where m: "reserveControlPlaneResources RT_RES_GEN5 sample_empty = (None, M')" using sample_reserved by blast
  have k: "\<not> rm_controlReserved sample_empty" "length (rm_pktIdPool sample_empty) = kMaxPktId" by (simp_all add: sample_empty_def new_mgr_pool)
  have "op_kind ?op = ACR_OP_MASTER_EN" "op_arbiter ?op = RT_RES_ARB_RET" by code_simp+
  with planes_disjoint [OF 1 _ 2 m k] m show ?thesis by auto
qed

end
